(* ===== verification/Prelude.thy ===== *)
theory Prelude
  imports Main "HOL-Library.Sublist"
begin

text \<open>
  Shared material of the development: the values and exceptions of the Python
  code, the built-in string operations the scripts use (\<^verbatim>\<open>str\<close>, \<^verbatim>\<open>hex\<close>,
  \<^verbatim>\<open>int(s, 16)\<close>, \<^verbatim>\<open>split\<close>, \<^verbatim>\<open>join\<close>, \<^verbatim>\<open>replace\<close>, \<^verbatim>\<open>strip\<close>, \<^verbatim>\<open>rjust\<close>, \<^verbatim>\<open>ljust\<close>,
  \<^verbatim>\<open>zfill\<close>, \<^verbatim>\<open>startswith\<close>, \<^verbatim>\<open>lower\<close>), and the generic lemmas on lists the
  components share.  A Python \<^verbatim>\<open>str\<close> is a \<^typ>\<open>string\<close>: one \<^typ>\<open>char\<close> per code
  point, for the code points 0 to 255.  A Python \<^verbatim>\<open>int\<close> is an \<^typ>\<open>int\<close>.
\<close>

named_theorems py_simps \<open>evaluation of the execution monad\<close>
named_theorems wp \<open>weakest preconditions: what it takes for a statement to return with a postcondition\<close>

named_theorems keeps_fs_intros \<open>statements that write no file\<close>

subsection \<open>Values and exceptions\<close>

text \<open>The dynamically typed values that cross function boundaries.\<close>

datatype pyval = PNone | PBool bool | PInt int | PStr string

text \<open>The exceptions the scripts raise; \<^verbatim>\<open>sys.exit\<close> raises \<^verbatim>\<open>SystemExit\<close>, whose argument is a
  message printed on standard error (exit status 1) or a status.\<close>

datatype pyerr =
    IndexError
  | KeyError string
  | TypeError
  | AttributeError
  | ValueError string
  | ZeroDivisionError
  | OverflowError
  | UnboundLocalError
  | NameError
  | OSError
  | JSONError
  | XMLError
  | ParentNotFound string
  | StructError
  | SystemExitMsg string
  | SystemExit int

text \<open>A text in single quotes, as the messages and the XPath literals have it.\<close>

definition sq :: "string \<Rightarrow> string" where
  "sq s = CHR 0x27 # s @ [CHR 0x27]"

definition dq :: "string \<Rightarrow> string" where
  "dq s = CHR 0x22 # s @ [CHR 0x22]"

abbreviation nl :: string where
  "nl \<equiv> [CHR 0x0A]"

subsection \<open>Decimal and hexadecimal numerals\<close>

definition digit_char :: "nat \<Rightarrow> char" where
  "digit_char d = (if d < 10 then char_of (48 + d) else char_of (87 + d))"

function digits_base :: "nat \<Rightarrow> nat \<Rightarrow> string" where
  "digits_base b n =
     (if n < b \<or> b < 2 then [digit_char n]
      else digits_base b (n div b) @ [digit_char (n mod b)])"
  by pat_completeness auto
termination
  by (relation "measure (\<lambda>(b, n). n)") auto

declare digits_base.simps [simp del]

text \<open>\<^verbatim>\<open>str(i)\<close> of an integer.\<close>

definition str_int :: "int \<Rightarrow> string" where
  "str_int i = (if i < 0 then CHR ''-'' # digits_base 10 (nat (- i)) else digits_base 10 (nat i))"

abbreviation str_nat :: "nat \<Rightarrow> string" where
  "str_nat n \<equiv> str_int (int n)"

text \<open>\<^verbatim>\<open>hex(i)\<close>: a \<^verbatim>\<open>0x\<close> prefix, lower-case digits, a sign in front for a negative value.\<close>

definition hex_int :: "int \<Rightarrow> string" where
  "hex_int i =
     (if i < 0 then ''-0x'' @ digits_base 16 (nat (- i)) else ''0x'' @ digits_base 16 (nat i))"

definition char_digit :: "char \<Rightarrow> nat option" where
  "char_digit c =
     (let k = of_char c :: nat in
      if 48 \<le> k \<and> k \<le> 57 then Some (k - 48)
      else if 97 \<le> k \<and> k \<le> 122 then Some (k - 87)
      else if 65 \<le> k \<and> k \<le> 90 then Some (k - 55)
      else None)"

fun read_digits :: "nat \<Rightarrow> string \<Rightarrow> nat \<Rightarrow> nat option" where
  "read_digits b [] acc = Some acc"
| "read_digits b (c # cs) acc =
     (case char_digit c of
        None \<Rightarrow> None
      | Some d \<Rightarrow> if d < b then read_digits b cs (acc * b + d) else None)"

text \<open>Underscores may separate digits (and follow the base prefix), one at a time.\<close>

fun drop_underscores :: "bool \<Rightarrow> string \<Rightarrow> string option" where
  "drop_underscores prev [] = (if prev then Some [] else None)"
| "drop_underscores prev (c # cs) =
     (if c = CHR ''_''
      then (if prev \<and> cs \<noteq> [] then drop_underscores False cs else None)
      else map_option (Cons c) (drop_underscores True cs))"

definition is_space :: "char \<Rightarrow> bool" where
  "is_space c =
     (let k = of_char c :: nat in
      (9 \<le> k \<and> k \<le> 13) \<or> (28 \<le> k \<and> k \<le> 32) \<or> k = 133 \<or> k = 160)"

subsection \<open>String methods\<close>

definition lstrip :: "string \<Rightarrow> string \<Rightarrow> string" where
  "lstrip cs s = dropWhile (\<lambda>c. c \<in> set cs) s"

definition rstrip :: "string \<Rightarrow> string \<Rightarrow> string" where
  "rstrip cs s = rev (dropWhile (\<lambda>c. c \<in> set cs) (rev s))"

definition strip_space :: "string \<Rightarrow> string" where
  "strip_space s = rev (dropWhile is_space (rev (dropWhile is_space s)))"

definition rjust :: "string \<Rightarrow> nat \<Rightarrow> char \<Rightarrow> string" where
  "rjust s w c = replicate (w - length s) c @ s"

definition ljust :: "string \<Rightarrow> nat \<Rightarrow> char \<Rightarrow> string" where
  "ljust s w c = s @ replicate (w - length s) c"

text \<open>\<^verbatim>\<open>s.zfill(w)\<close>: zeros go after a leading sign.\<close>

definition zfill :: "string \<Rightarrow> nat \<Rightarrow> string" where
  "zfill s w =
     (case s of
        c # cs \<Rightarrow> if c = CHR ''-'' \<or> c = CHR ''+'' then c # rjust cs (w - 1) CHR ''0''
                  else rjust s w CHR ''0''
      | [] \<Rightarrow> rjust s w CHR ''0'')"

definition startswith :: "string \<Rightarrow> string \<Rightarrow> bool" where
  "startswith s p = (take (length p) s = p)"

text \<open>\<^verbatim>\<open>sub in s\<close>.\<close>

fun contains :: "string \<Rightarrow> string \<Rightarrow> bool" where
  "contains sub [] = (sub = [])"
| "contains sub (c # cs) = (startswith (c # cs) sub \<or> contains sub cs)"

text \<open>\<^verbatim>\<open>s.replace(old, new)\<close> for a non-empty \<^verbatim>\<open>old\<close>: left to right, without overlaps.\<close>

function replace_str :: "string \<Rightarrow> string \<Rightarrow> string \<Rightarrow> string" where
  "replace_str old new [] = []"
| "replace_str old new (c # cs) =
     (if old \<noteq> [] \<and> startswith (c # cs) old
      then new @ replace_str old new (drop (length old) (c # cs))
      else c # replace_str old new cs)"
  by pat_completeness auto
termination
  by (relation "measure (\<lambda>(old, new, s). length s)") auto

text \<open>\<^verbatim>\<open>s.split(sep)\<close> for a non-empty separator: the pieces between its non-overlapping
  occurrences from the left; there is always at least one piece.\<close>

function split_acc :: "string \<Rightarrow> string \<Rightarrow> string \<Rightarrow> string list" where
  "split_acc sep acc [] = [rev acc]"
| "split_acc sep acc (c # cs) =
     (if sep \<noteq> [] \<and> startswith (c # cs) sep
      then rev acc # split_acc sep [] (drop (length sep) (c # cs))
      else split_acc sep (c # acc) cs)"
  by pat_completeness auto
termination
  by (relation "measure (\<lambda>(sep, acc, s). length s)") auto

definition split_str :: "string \<Rightarrow> string \<Rightarrow> string list" where
  "split_str s sep = split_acc sep [] s"

text \<open>\<^verbatim>\<open>sep.join(parts)\<close>.\<close>

fun join_str :: "string \<Rightarrow> string list \<Rightarrow> string" where
  "join_str sep [] = []"
| "join_str sep [x] = x"
| "join_str sep (x # y # zs) = x @ sep @ join_str sep (y # zs)"

text \<open>\<^verbatim>\<open>s.lower()\<close> on the code points 0 to 255.\<close>

definition lower_char :: "char \<Rightarrow> char" where
  "lower_char c =
     (let k = of_char c :: nat in
      if (65 \<le> k \<and> k \<le> 90) \<or> (192 \<le> k \<and> k \<le> 222 \<and> k \<noteq> 215) then char_of (k + 32) else c)"

definition lower_str :: "string \<Rightarrow> string" where
  "lower_str s = map lower_char s"

text \<open>\<^verbatim>\<open>int(s, 16)\<close>: surrounding white space, a sign and a \<^verbatim>\<open>0x\<close> prefix are accepted, then at
  least one digit.\<close>

definition int16_unsigned :: "string \<Rightarrow> nat option" where
  "int16_unsigned s =
     (let (p, ds) = (if startswith s ''0x'' \<or> startswith s ''0X'' then (True, drop 2 s) else (False, s))
      in if ds = [] then None
         else Option.bind (drop_underscores p ds) (\<lambda>ds'. if ds' = [] then None else read_digits 16 ds' 0))"

definition py_int16 :: "string \<Rightarrow> pyerr + int" where
  "py_int16 s =
     (let t = strip_space s in
      case t of
        [] \<Rightarrow> Inl (ValueError s)
      | c # cs \<Rightarrow>
          (let (sgn, u) = (if c = CHR ''-'' then (- 1, cs) else if c = CHR ''+'' then (1, cs) else (1, t))
           in case int16_unsigned u of
                None \<Rightarrow> Inl (ValueError s)
              | Some n \<Rightarrow> Inr (sgn * int n)))"


text \<open>\<^verbatim>\<open>int(s)\<close>: white space, a sign, then decimal digits.\<close>

definition py_int10 :: "string \<Rightarrow> pyerr + int" where
  "py_int10 s =
     (case strip_space s of
        [] \<Rightarrow> Inl (ValueError s)
      | c # cs \<Rightarrow>
          (let (sgn, u) = (if c = CHR ''-'' then (- 1, cs) else if c = CHR ''+'' then (1, cs) else (1, c # cs))
           in case Option.bind (drop_underscores False u) (\<lambda>ds. read_digits 10 ds 0) of
                None \<Rightarrow> Inl (ValueError s)
              | Some n \<Rightarrow> Inr (sgn * int n)))"

text \<open>\<^verbatim>\<open>int(s, 0)\<close>: the base is given by a prefix; a decimal number other than zero has no leading zero.\<close>

definition int0_unsigned :: "string \<Rightarrow> nat option" where
  "int0_unsigned u =
     (let p = lower_str (take 2 u);
          prefixed = (\<lambda>b. Option.bind (drop_underscores True (drop 2 u)) (\<lambda>ds. if ds = [] then None else read_digits b ds 0))
      in if p = ''0x'' then prefixed 16 else if p = ''0o'' then prefixed 8 else if p = ''0b'' then prefixed 2
         else Option.bind (drop_underscores False u) (\<lambda>ds.
                if take 1 ds = ''0'' \<and> list_ex (\<lambda>c. c \<noteq> CHR ''0'') ds then None else read_digits 10 ds 0))"

definition py_int0 :: "string \<Rightarrow> pyerr + int" where
  "py_int0 s =
     (case strip_space s of
        [] \<Rightarrow> Inl (ValueError s)
      | c # cs \<Rightarrow>
          (let (sgn, u) = (if c = CHR ''-'' then (- 1, cs) else if c = CHR ''+'' then (1, cs) else (1, c # cs))
           in case int0_unsigned u of
                None \<Rightarrow> Inl (ValueError s)
              | Some n \<Rightarrow> Inr (sgn * int n)))"

text \<open>The lines of a text, each with its end: reading a file in text mode turns \<^verbatim>\<open>\r\n\<close> and \<^verbatim>\<open>\r\<close> into \<^verbatim>\<open>\n\<close>.\<close>

fun universal_newlines :: "string \<Rightarrow> string" where
  "universal_newlines [] = []"
| "universal_newlines (c # cs) =
     (if c = CHR 0x0D then (if take 1 cs = [CHR 0x0A] then universal_newlines cs else CHR 0x0A # universal_newlines cs)
      else c # universal_newlines cs)"

fun lines_acc :: "string \<Rightarrow> string \<Rightarrow> string list" where
  "lines_acc acc [] = (if acc = [] then [] else [rev acc])"
| "lines_acc acc (c # cs) = (if c = CHR 0x0A then rev (c # acc) # lines_acc [] cs else lines_acc (c # acc) cs)"

definition text_lines :: "string \<Rightarrow> string list" where
  "text_lines s = lines_acc [] (universal_newlines s)"

subsection \<open>Page sizes\<close>

text \<open>\<^verbatim>\<open>x -= x % -4096\<close>: the remainder has the sign of the divisor.\<close>

definition page_up :: "int \<Rightarrow> int" where
  "page_up x = x - x mod (- 4096)"

lemma page_up_mod: "page_up x = x + (- x) mod 4096"
  using mod_minus_right [of x 4096] by (simp add: page_up_def)

lemma page_up_div: "page_up x = - ((- x) div 4096) * 4096"
  using minus_div_mult_eq_mod [of "- x" 4096] by (simp add: page_up_mod)

lemma page_up_bounds: "x \<le> page_up x" "page_up x < x + 4096" "4096 dvd page_up x"
proof -
  have "0 \<le> (- x) mod 4096" "(- x) mod 4096 < 4096" by simp_all
  then show "x \<le> page_up x" "page_up x < x + 4096" by (simp_all only: page_up_mod)
  show "4096 dvd page_up x" by (simp add: page_up_div)
qed

lemma page_up_mono: "x \<le> y \<Longrightarrow> page_up x \<le> page_up y"
  using zdiv_mono1 [of "- y" "- x" 4096] by (simp add: page_up_div)

lemma page_up_pos: "0 < x \<Longrightarrow> 0 < page_up x"
  using page_up_bounds(1) [of x] by linarith

subsection \<open>Numerals: reading back what was printed\<close>

lemma char_digit_digit_char [simp]: "d < 36 \<Longrightarrow> char_digit (digit_char d) = Some d"
  by (auto simp: char_digit_def digit_char_def Let_def)

lemma of_digit_char: "d < 36 \<Longrightarrow> (of_char (digit_char d) :: nat) = (if d < 10 then 48 + d else 87 + d)"
  by (auto simp: digit_char_def)

lemma digit_char_inject [simp]: "d < 36 \<Longrightarrow> e < 36 \<Longrightarrow> digit_char d = digit_char e \<longleftrightarrow> d = e"
  by (metis char_digit_digit_char option.inject)

lemma digit_char_0 [simp]: "digit_char 0 = CHR ''0''"
  by code_simp

definition is_digit :: "nat \<Rightarrow> char \<Rightarrow> bool" where
  "is_digit b c \<longleftrightarrow> (\<exists>d < b. c = digit_char d)"

lemma is_digit_digit_char [simp]: "d < b \<Longrightarrow> is_digit b (digit_char d)"
  by (auto simp: is_digit_def)

lemma is_digit_not_special:
  assumes "is_digit b c" and "b \<le> 16"
  shows "c \<noteq> CHR ''_'' \<and> c \<noteq> CHR ''x'' \<and> c \<noteq> CHR ''X'' \<and> c \<noteq> CHR ''L'' \<and> c \<noteq> CHR ''-''
         \<and> c \<noteq> CHR ''+'' \<and> c \<noteq> CHR ''#'' \<and> \<not> is_space c"
proof -
  from assms obtain d where d: "d < 16" "c = digit_char d"
    by (auto simp: is_digit_def)
  let ?k = "of_char c :: nat"
  have k: "?k = (if d < 10 then 48 + d else 87 + d)"
    using d by (simp add: of_digit_char)
  have "?k \<notin> {95, 120, 88, 76, 45, 43, 35}" and "\<not> is_space c"
    using k d(1) by (auto simp: is_space_def Let_def split: if_splits)
  then show ?thesis by auto
qed

lemma digits_base_digits:
  "2 \<le> b \<Longrightarrow> c \<in> set (digits_base b n) \<Longrightarrow> is_digit b c"
proof (induction b n rule: digits_base.induct)
  case (1 b n)
  show ?case
  proof (cases "n < b")
    case True
    with "1.prems" show ?thesis by (simp add: digits_base.simps [of b n])
  next
    case False
    with "1.prems" have "c \<in> set (digits_base b (n div b)) \<or> c = digit_char (n mod b)"
      by (auto simp: digits_base.simps [of b n])
    moreover have "n mod b < b" using "1.prems" by simp
    ultimately show ?thesis using "1.IH" "1.prems"(1) False by auto
  qed
qed

lemma digits_base_nonempty [simp]: "digits_base b n \<noteq> []"
  by (subst digits_base.simps) simp

lemma digits_base_hd:
  "2 \<le> b \<Longrightarrow> b \<le> 36 \<Longrightarrow> 0 < n \<Longrightarrow> hd (digits_base b n) \<noteq> CHR ''0''"
proof (induction b n rule: digits_base.induct)
  case (1 b n)
  show ?case
  proof (cases "n < b")
    case True
    then have "hd (digits_base b n) = digit_char n" by (simp add: digits_base.simps [of b n])
    moreover have "digit_char n \<noteq> digit_char 0"
      using "1.prems" True by (simp del: digit_char_0)
    ultimately show ?thesis by simp
  next
    case False
    with "1.prems" have "0 < n div b" by (simp add: div_greater_zero_iff)
    with "1.IH" "1.prems" False show ?thesis by (simp add: digits_base.simps [of b n])
  qed
qed

lemma read_digits_append:
  "read_digits b (xs @ ys) acc = Option.bind (read_digits b xs acc) (read_digits b ys)"
  by (induction xs arbitrary: acc) (auto split: option.splits)

lemma read_digits_digits_base:
  "2 \<le> b \<Longrightarrow> b \<le> 36 \<Longrightarrow> read_digits b (digits_base b n) 0 = Some n"
proof (induction b n rule: digits_base.induct)
  case (1 b n)
  show ?case
  proof (cases "n < b")
    case True
    with "1.prems" show ?thesis by (simp add: digits_base.simps [of b n])
  next
    case False
    with "1.IH" "1.prems" have "read_digits b (digits_base b (n div b)) 0 = Some (n div b)"
      by simp
    moreover have "n mod b < b" using "1.prems" by simp
    moreover have "char_digit (digit_char (n mod b)) = Some (n mod b)"
      using \<open>n mod b < b\<close> "1.prems" by (intro char_digit_digit_char) linarith
    ultimately show ?thesis
      using False "1.prems" by (simp add: digits_base.simps [of b n] read_digits_append)
  qed
qed

lemma digits_base_inject:
  assumes "2 \<le> b" and "b \<le> 36" and "digits_base b m = digits_base b n"
  shows "m = n"
  using assms(3) read_digits_digits_base [OF assms(1,2)] by (metis option.inject)

lemma str_int_inject [simp]: "str_int i = str_int j \<longleftrightarrow> i = j"
proof
  assume eq: "str_int i = str_int j"
  have no: "digits_base 10 n \<noteq> CHR ''-'' # xs" for n xs
  proof
    assume "digits_base 10 n = CHR ''-'' # xs"
    then have "is_digit 10 CHR ''-''" using digits_base_digits [of 10 "CHR ''-''" n] by simp
    then show False using is_digit_not_special [of 10 "CHR ''-''"] by simp
  qed
  have inj: "digits_base 10 m = digits_base 10 n \<Longrightarrow> m = n" for m n
    by (rule digits_base_inject [of 10]) simp_all
  have neg: "i < 0 \<longleftrightarrow> j < 0"
    using eq no [of "nat i"] no [of "nat j" "digits_base 10 (nat (- i))", THEN not_sym]
    by (auto simp: str_int_def split: if_splits)
  show "i = j"
  proof (cases "i < 0")
    case True
    with neg eq have "nat (- i) = nat (- j)" by (intro inj) (simp add: str_int_def)
    with True neg show ?thesis by simp
  next
    case False
    with neg eq have "nat i = nat j" by (intro inj) (simp add: str_int_def)
    with False neg show ?thesis by simp
  qed
qed simp

lemma str_int_nonempty [simp]: "str_int i \<noteq> []"
  by (simp add: str_int_def)

lemma str_nat_digits: "c \<in> set (str_nat n) \<Longrightarrow> is_digit 10 c"
  by (auto simp: str_int_def intro: digits_base_digits [of 10])

subsection \<open>String methods: characterisations\<close>

lemma startswith_append [simp]: "startswith (p @ s) p"
  by (simp add: startswith_def)

lemma startswith_single [simp]: "startswith (c # cs) [d] \<longleftrightarrow> c = d"
  by (simp add: startswith_def)

lemma startswith_prefix: "startswith s p \<longleftrightarrow> prefix p s"
  by (metis append_eq_conv_conj prefix_def startswith_append startswith_def)

lemma contains_sublist: "contains sub s \<longleftrightarrow> sublist sub s"
  by (induction s) (auto simp: startswith_prefix sublist_Cons_right)

lemma replace_char_empty: "replace_str [c] [] s = filter (\<lambda>d. d \<noteq> c) s"
  by (induction s) auto

lemma replace_char_char: "replace_str [c] [d] s = map (\<lambda>e. if e = c then d else e) s"
  by (induction s) auto

lemma split_acc_nonempty [simp]: "split_acc sep acc s \<noteq> []"
  by (induction sep acc s rule: split_acc.induct) auto

lemma split_acc_no_char: "c \<notin> set s \<Longrightarrow> split_acc [c] acc s = [rev acc @ s]"
  by (induction s arbitrary: acc) auto

lemma split_no_char: "c \<notin> set s \<Longrightarrow> split_str s [c] = [s]"
  by (simp add: split_str_def split_acc_no_char)

lemma split_acc_char:
  "c \<notin> set s \<Longrightarrow> split_acc [c] acc (s @ c # t) = (rev acc @ s) # split_str t [c]"
  by (induction s arbitrary: acc) (auto simp: split_str_def)

lemma split_char: "c \<notin> set s \<Longrightarrow> split_str (s @ c # t) [c] = s # split_str t [c]"
  by (simp add: split_str_def split_acc_char)

lemma split_acc_join: "sep \<noteq> [] \<Longrightarrow> join_str sep (split_acc sep acc s) = rev acc @ s"
proof (induction sep acc s rule: split_acc.induct)
  case (2 sep acc c cs)
  show ?case
  proof (cases "startswith (c # cs) sep")
    case True
    obtain y ys where ys: "split_acc sep [] (drop (length sep) (c # cs)) = y # ys"
      by (cases "split_acc sep [] (drop (length sep) (c # cs))") simp_all
    from True have "c # cs = sep @ drop (length sep) (c # cs)"
      by (metis append_take_drop_id startswith_def)
    with 2 True ys show ?thesis by simp
  next
    case False
    with 2 show ?thesis by simp
  qed
qed simp

text \<open>Joining what \<^verbatim>\<open>split\<close> returned gives the string back.\<close>

lemma join_split [simp]: "sep \<noteq> [] \<Longrightarrow> join_str sep (split_str s sep) = s"
  by (simp add: split_str_def split_acc_join)

lemma join_snoc: "xs \<noteq> [] \<Longrightarrow> join_str sep (xs @ [x]) = join_str sep xs @ sep @ x"
  by (induction sep xs rule: join_str.induct) auto

lemma join_Nil_iff: "\<forall>x \<in> set xs. x \<noteq> [] \<Longrightarrow> join_str sep xs = [] \<longleftrightarrow> xs = []"
  by (induction sep xs rule: join_str.induct) auto

lemma rstrip_strips: "set t \<subseteq> set cs \<Longrightarrow> rstrip cs (s @ t) = rstrip cs s"
  using dropWhile_append2 [of "rev t" "\<lambda>c. c \<in> set cs" "rev s"] by (auto simp: rstrip_def)

lemma rstrip_id: "s = [] \<or> last s \<notin> set cs \<Longrightarrow> rstrip cs s = s"
  by (cases s rule: rev_cases) (auto simp: rstrip_def)

lemma rstrip_eq_iff: "rstrip cs s = s \<longleftrightarrow> s = [] \<or> last s \<notin> set cs"
proof
  assume eq: "rstrip cs s = s"
  show "s = [] \<or> last s \<notin> set cs"
  proof (cases s rule: rev_cases)
    case (snoc t c)
    have "length (rstrip cs (t @ [c])) \<le> length t" if "c \<in> set cs"
      using that length_dropWhile_le [of "\<lambda>c. c \<in> set cs" "rev t"] by (simp add: rstrip_def)
    then show ?thesis using eq snoc by fastforce
  qed simp
qed (rule rstrip_id)

lemma length_rjust: "length (rjust s w c) = max w (length s)"
  by (simp add: rjust_def)

lemma length_ljust: "length (ljust s w c) = max w (length s)"
  by (simp add: ljust_def)


subsection \<open>Lists\<close>

lemma sum_take_Suc_le:
  fixes k :: "'a \<Rightarrow> int"
  assumes "i < j" and "j \<le> length xs" and nonneg: "\<And>x. x \<in> set xs \<Longrightarrow> 0 \<le> k x"
  shows "sum_list (map k (take i xs)) + k (xs ! i) \<le> sum_list (map k (take j xs))"
proof -
  have "take j xs = take (Suc i) xs @ take (j - Suc i) (drop (Suc i) xs)"
    using take_add [of "Suc i" "j - Suc i" xs] assms(1) by simp
  moreover have "take (Suc i) xs = take i xs @ [xs ! i]"
    using assms by (simp add: take_Suc_conv_app_nth)
  moreover have "0 \<le> sum_list (map k (take (j - Suc i) (drop (Suc i) xs)))"
    by (auto intro!: sum_list_nonneg nonneg dest!: in_set_takeD in_set_dropD)
  ultimately show ?thesis by simp
qed

lemma filter_Cons_mem: "filter P xs = y # ys \<Longrightarrow> y \<in> set xs"
  by (metis filter_is_subset list.set_intros(1) subsetD)

lemma filter_Cons_holds: "filter P xs = y # ys \<Longrightarrow> P y"
  by (metis Cons_eq_filterD)

lemma contains_length: "contains p s \<Longrightarrow> length p \<le> length s"
proof (induction s)
  case (Cons c s)
  then show ?case by (auto simp: startswith_def dest!: arg_cong [where f = length])
qed simp

end
