(* ===== verification/Muutils.thy ===== *)
theory Muutils
  imports Prelude
begin

text \<open>
  \<^verbatim>\<open>tools/libmupy/muutils.py\<close>: the conversions between integers and the Ada hexadecimal
  literals (\<^verbatim>\<open>16#0123_0000#\<close>) that every policy tool uses, and the lower-case rendering of
  Booleans.  The main result is that the two conversions are inverse on positive integers.  Zero is
  rendered as a string that does not read back, and so are the negative integers unless the
  number of their digits leaves no room for padding zeros in front of the sign.
\<close>

definition bool_to_str :: "pyval \<Rightarrow> pyval" where
  "bool_to_str x =
     (case x of PBool b \<Rightarrow> PStr (lower_str (if b then ''True'' else ''False'')) | _ \<Rightarrow> x)"

definition ada_hex_to_int :: "pyval \<Rightarrow> pyerr + pyval" where
  "ada_hex_to_int value =
     (case value of
        PStr s \<Rightarrow>
          if s = [] then Inr (PStr [])
          else (case py_int16 (butlast (drop 3 (replace_str ''_'' [] s))) of
                  Inl e \<Rightarrow> Inl e
                | Inr i \<Rightarrow> Inr (PInt i))
      | _ \<Rightarrow> Inl AttributeError)"

text \<open>The loop over \<^verbatim>\<open>range(0, len(val))\<close>: one step appends the separator and the digit.\<close>

definition ada_group_step :: "string \<Rightarrow> nat \<Rightarrow> string \<Rightarrow> string" where
  "ada_group_step val index hexvalue =
     (if index mod 4 = 0 \<and> index \<noteq> 0 then hexvalue @ ''_'' else hexvalue) @ [val ! index]"

definition int_to_ada_hex_int :: "int \<Rightarrow> string" where
  "int_to_ada_hex_int value =
     (let val = lstrip ''0x'' (rstrip ''L'' (hex_int value));
          val = rjust val ((length val + 3) div 4 * 4) CHR ''0''
      in fold (ada_group_step val) [0..<length val] ''16#'' @ ''#'')"

definition int_to_ada_hex :: "pyval \<Rightarrow> pyerr + string" where
  "int_to_ada_hex value =
     (case value of
        PStr s \<Rightarrow> if s = [] then Inr [] else Inl TypeError
      | PInt i \<Rightarrow> Inr (int_to_ada_hex_int i)
      | PBool b \<Rightarrow> Inr (int_to_ada_hex_int (if b then 1 else 0))
      | PNone \<Rightarrow> Inl TypeError)"

lemma int_to_ada_hex_PInt [simp]: "int_to_ada_hex (PInt i) = Inr (int_to_ada_hex_int i)"
  by (simp add: int_to_ada_hex_def)

subsection \<open>The digits of a positive value\<close>

text \<open>The padded digit string of a positive value, as the code computes it before grouping.\<close>

definition ada_digits :: "nat \<Rightarrow> string" where
  "ada_digits n = rjust (digits_base 16 n) ((length (digits_base 16 n) + 3) div 4 * 4) CHR ''0''"

lemma rstrip_L_hex: "rstrip ''L'' (''0x'' @ digits_base 16 n) = ''0x'' @ digits_base 16 n"
proof -
  have "last (digits_base 16 n) \<in> set (digits_base 16 n)" by simp
  then have "last (digits_base 16 n) \<noteq> CHR ''L''"
    using digits_base_digits [of 16 _ n] is_digit_not_special [of 16] by auto
  then obtain ys y where "digits_base 16 n = ys @ [y]" and "y \<noteq> CHR ''L''"
    by (metis append_butlast_last_id digits_base_nonempty)
  then show ?thesis by (simp add: rstrip_def)
qed

lemma lstrip_0x_hex:
  assumes "0 < n" shows "lstrip ''0x'' (''0x'' @ digits_base 16 n) = digits_base 16 n"
proof -
  obtain y ys where y: "digits_base 16 n = y # ys" by (cases "digits_base 16 n") auto
  have "y \<noteq> CHR ''0''" using digits_base_hd [of 16 n] assms y by simp
  moreover have "y \<noteq> CHR ''x''"
    using digits_base_digits [of 16 y n] is_digit_not_special [of 16 y] y by simp
  ultimately show ?thesis by (simp add: lstrip_def y)
qed

lemma int_to_ada_hex_int_pos:
  assumes "0 < n"
  shows "int_to_ada_hex_int (int n) =
           fold (ada_group_step (ada_digits n)) [0..<length (ada_digits n)] ''16#'' @ ''#''"
proof -
  have "lstrip ''0x'' (rstrip ''L'' (hex_int (int n))) = digits_base 16 n"
    using rstrip_L_hex lstrip_0x_hex [OF assms] by (simp add: hex_int_def)
  then show ?thesis by (simp add: int_to_ada_hex_int_def ada_digits_def Let_def)
qed

subsection \<open>Grouping by four\<close>

text \<open>What the loop means: blocks of four digits joined by underscores.\<close>

fun quads :: "string \<Rightarrow> string list" where
  "quads (a # b # c # d # e # rest) = [a, b, c, d] # quads (e # rest)"
| "quads s = [s]"

fun group_from :: "nat \<Rightarrow> string \<Rightarrow> string" where
  "group_from i [] = []"
| "group_from i (c # cs) =
     (if i mod 4 = 0 \<and> i \<noteq> 0 then [CHR ''_'', c] else [c]) @ group_from (Suc i) cs"

lemma fold_group_step:
  "fold (ada_group_step (pre @ s)) [length pre..<length pre + length s] acc
     = acc @ group_from (length pre) s"
proof (induction s arbitrary: pre acc)
  case (Cons c s)
  let ?f = "ada_group_step (pre @ c # s)"
  have "fold ?f [Suc (length pre)..<Suc (length pre) + length s] acc'
        = acc' @ group_from (Suc (length pre)) s" for acc'
    using Cons.IH [of "pre @ [c]"] by (simp del: upt_Suc)
  moreover have "[length pre..<length pre + length (c # s)]
        = length pre # [Suc (length pre)..<Suc (length pre) + length s]"
    by (simp add: upt_conv_Cons del: upt_Suc)
  moreover have "?f (length pre) acc
        = acc @ (if length pre mod 4 = 0 \<and> length pre \<noteq> 0 then [CHR ''_'', c] else [c])"
    by (simp add: ada_group_step_def)
  ultimately show ?case by simp
qed simp

lemma group_loop: "fold (ada_group_step s) [0..<length s] acc = acc @ group_from 0 s"
  using fold_group_step [of "[]" s acc] by simp

lemma group_from_add4: "0 < i \<Longrightarrow> group_from (i + 4) s = group_from i s"
proof (induction s arbitrary: i)
  case (Cons c s)
  have "group_from (Suc i + 4) s = group_from (Suc i) s" by (rule Cons.IH) simp
  moreover have "(i + 4) mod 4 = i mod 4" by simp
  ultimately show ?case using Cons.prems by (simp del: mod_add_self2)
qed simp

lemma group_from_quads: "group_from 4 (c # s) = CHR ''_'' # join_str ''_'' (quads (c # s))"
proof (induction "c # s" arbitrary: c s rule: quads.induct)
  case (1 a b c' d e rest)
  have "group_from 8 (e # rest) = group_from 4 (e # rest)"
    using group_from_add4 [of 4 "e # rest"] by simp
  moreover have "quads (e # rest) \<noteq> []" by (cases "e # rest" rule: quads.cases) auto
  ultimately show ?case
    using 1 by (cases "quads (e # rest)") auto
qed auto

lemma group_from_block: "group_from 0 (a # b # c # d # s) = [a, b, c, d] @ group_from 4 s"
proof -
  have "group_from (Suc (Suc (Suc (Suc 0)))) s = group_from 4 s" by (simp add: numeral_eq_Suc)
  then show ?thesis by simp
qed

lemma group_from_0: "group_from 0 s = join_str ''_'' (quads s)"
proof (cases s rule: quads.cases)
  case (1 a b c d e rest)
  have "quads (e # rest) \<noteq> []" by (cases "e # rest" rule: quads.cases) auto
  then show ?thesis
    using 1 group_from_quads [of e rest] group_from_block [of a b c d "e # rest"]
    by (cases "quads (e # rest)") simp_all
qed auto

lemma filter_group: "filter (\<lambda>d. d \<noteq> CHR ''_'') (group_from i s) = filter (\<lambda>d. d \<noteq> CHR ''_'') s"
  by (induction i s rule: group_from.induct) auto

subsection \<open>Reading the digits back\<close>

lemma ada_digits_digit: "c \<in> set (ada_digits n) \<Longrightarrow> is_digit 16 c"
proof -
  assume "c \<in> set (ada_digits n)"
  then have "c = digit_char 0 \<or> c \<in> set (digits_base 16 n)"
    by (auto simp: ada_digits_def rjust_def split: if_splits)
  then show ?thesis using digits_base_digits [of 16 c n] is_digit_digit_char [of 0 16] by auto
qed

lemma read_digits_zeros: "read_digits 16 (replicate k CHR ''0'' @ s) 0 = read_digits 16 s 0"
  by (induction k) (auto simp: char_digit_def)

lemma read_ada_digits: "read_digits 16 (ada_digits n) 0 = Some n"
  using read_digits_digits_base [of 16 n] by (simp add: ada_digits_def rjust_def read_digits_zeros)

lemma ada_digits_nonempty [simp]: "ada_digits n \<noteq> []"
  by (simp add: ada_digits_def rjust_def)

lemma drop_underscores_digits:
  "\<forall>c \<in> set s. c \<noteq> CHR ''_'' \<Longrightarrow> s \<noteq> [] \<Longrightarrow> drop_underscores p s = Some s"
proof (induction s arbitrary: p)
  case (Cons c s)
  then show ?case by (cases s) auto
qed simp

lemma strip_space_digits: "\<forall>c \<in> set s. \<not> is_space c \<Longrightarrow> strip_space s = s"
proof -
  assume no: "\<forall>c \<in> set s. \<not> is_space c"
  have "dropWhile is_space t = t" if "\<forall>c \<in> set t. \<not> is_space c" for t
    using that by (cases t) auto
  from this [OF no] this [of "rev s"] no show ?thesis by (simp add: strip_space_def)
qed

lemma py_int16_digits:
  assumes d: "\<forall>c \<in> set s. is_digit 16 c" and ne: "s \<noteq> []" and r: "read_digits 16 s 0 = Some n"
  shows "py_int16 s = Inr (int n)"
proof -
  have sp: "\<forall>c \<in> set s. c \<noteq> CHR ''_'' \<and> c \<noteq> CHR ''x'' \<and> c \<noteq> CHR ''X'' \<and> c \<noteq> CHR ''-'' \<and> c \<noteq> CHR ''+'' \<and> \<not> is_space c"
    using d is_digit_not_special [of 16] by auto
  have nx: "\<not> startswith s [CHR ''0'', c]" if "c \<notin> set s" for c
    using that set_take_subset [of "Suc (Suc 0)" s] by (auto simp: startswith_def)
  have "\<not> startswith s ''0x''" and "\<not> startswith s ''0X''"
    using sp by (auto intro!: nx)
  then have "int16_unsigned s = Some n"
    using ne r sp drop_underscores_digits [of s False] by (simp add: int16_unsigned_def)
  moreover have "strip_space s = s" using sp strip_space_digits by simp
  ultimately show ?thesis
    using ne sp by (cases s) (auto simp: py_int16_def Let_def)
qed

lemma ada_hex_to_int_body:
  assumes "\<forall>c \<in> set val. c \<noteq> CHR ''_''"
  shows "ada_hex_to_int (PStr (''16#'' @ group_from 0 val @ ''#'')) = (case py_int16 val of Inl e \<Rightarrow> Inl e | Inr i \<Rightarrow> Inr (PInt i))"
proof -
  have "filter (\<lambda>d. d \<noteq> CHR ''_'') val = val" using assms by (simp add: filter_id_conv)
  then have "butlast (drop 3 (replace_str ''_'' [] (''16#'' @ group_from 0 val @ ''#''))) = val"
    by (simp add: replace_char_empty filter_group butlast_append)
  then show ?thesis by (simp add: ada_hex_to_int_def)
qed

lemma ada_hex_roundtrip_nat:
  assumes "0 < n"
  shows "ada_hex_to_int (PStr (int_to_ada_hex_int (int n))) = Inr (PInt (int n))"
proof -
  have "int_to_ada_hex_int (int n) = ''16#'' @ group_from 0 (ada_digits n) @ ''#''"
    using int_to_ada_hex_int_pos [OF assms] by (simp add: group_loop)
  moreover have "py_int16 (ada_digits n) = Inr (int n)"
    using py_int16_digits [of "ada_digits n" n] ada_digits_digit read_ada_digits by simp
  moreover have "\<forall>c \<in> set (ada_digits n). c \<noteq> CHR ''_''"
    using ada_digits_digit is_digit_not_special [of 16] by auto
  ultimately show ?thesis using ada_hex_to_int_body by simp
qed

text \<open>Evaluation of a literal by simplification.\<close>

lemmas ada_hex_eval =
  ada_hex_to_int_def replace_char_empty py_int16_def strip_space_def is_space_def
  int16_unsigned_def startswith_def char_digit_def

subsection \<open>Properties\<close>

lemma quads_lengths: "length s mod 4 = 0 \<Longrightarrow> s \<noteq> [] \<Longrightarrow> g \<in> set (quads s) \<Longrightarrow> length g = 4"
proof (induction s rule: quads.induct)
  case (1 a b c d e rest)
  have "length (e # rest) mod 4 = 0" using "1.prems"(1) by (simp add: mod_Suc split: if_splits)
  with 1 show ?case by auto
qed auto

lemma quads_elems: "g \<in> set (quads s) \<Longrightarrow> set g \<subseteq> set s"
  by (induction s rule: quads.induct) auto

lemma ada_digits_length: "length (ada_digits n) mod 4 = 0"
proof -
  have "length (digits_base 16 n) \<le> (length (digits_base 16 n) + 3) div 4 * 4" by linarith
  then show ?thesis by (simp add: ada_digits_def length_rjust max_def)
qed

text \<open>C10. Round trip: the Ada literal produced for a positive integer reads back as that integer.\<close>

theorem ada_hex_roundtrip:
  assumes "0 < i"
  shows "\<exists>s. int_to_ada_hex (PInt i) = Inr s \<and> ada_hex_to_int (PStr s) = Inr (PInt i)"
  using ada_hex_roundtrip_nat [of "nat i"] assms by (simp add: int_to_ada_hex_def)

theorem ada_hex_roundtrip_witness:
  "\<exists>s. int_to_ada_hex (PInt 0x1230000) = Inr s \<and> ada_hex_to_int (PStr s) = Inr (PInt 0x1230000)"
  by (rule ada_hex_roundtrip) simp

text \<open>C11. Format: the literal of a positive integer is \<^verbatim>\<open>16#\<close>, then blocks of exactly four
  hexadecimal digits separated by single underscores, then \<^verbatim>\<open>#\<close>; the digits are those of the
  value, padded with zeros on the left.\<close>

theorem int_to_ada_hex_format:
  assumes "0 < n"
  shows "\<exists>blocks. int_to_ada_hex (PInt (int n)) = Inr (''16#'' @ join_str ''_'' blocks @ ''#'')
     \<and> (\<forall>b \<in> set blocks. length b = 4 \<and> (\<forall>c \<in> set b. is_digit 16 c))
     \<and> read_digits 16 (concat blocks) 0 = Some n"
proof -
  let ?ds = "ada_digits n"
  have "concat (quads s) = s" for s by (induction s rule: quads.induct) auto
  then have "read_digits 16 (concat (quads ?ds)) 0 = Some n" by (simp add: read_ada_digits)
  moreover have "length b = 4 \<and> (\<forall>c \<in> set b. is_digit 16 c)" if "b \<in> set (quads ?ds)" for b
    using quads_lengths [OF ada_digits_length ada_digits_nonempty that] quads_elems [OF that] ada_digits_digit by blast
  moreover have "int_to_ada_hex (PInt (int n)) = Inr (''16#'' @ join_str ''_'' (quads ?ds) @ ''#'')"
    using int_to_ada_hex_int_pos [OF assms] by (simp add: int_to_ada_hex_def group_loop group_from_0)
  ultimately show ?thesis by blast
qed

theorem int_to_ada_hex_format_witness:
  "\<exists>blocks. int_to_ada_hex (PInt (int 0x1230000)) = Inr (''16#'' @ join_str ''_'' blocks @ ''#'')
     \<and> (\<forall>b \<in> set blocks. length b = 4 \<and> (\<forall>c \<in> set b. is_digit 16 c))
     \<and> read_digits 16 (concat blocks) 0 = Some 0x1230000"
  by (rule int_to_ada_hex_format) simp

subsection \<open>Integers that are not positive\<close>

text \<open>The text between the number signs for \<open>- n\<close>: zeros, the sign, the prefix and the digits.\<close>

definition neg_pad :: "nat \<Rightarrow> nat" where
  "neg_pad n = (length (digits_base 16 n) + 6) div 4 * 4 - (length (digits_base 16 n) + 3)"

definition neg_body :: "nat \<Rightarrow> string" where
  "neg_body n = replicate (neg_pad n) CHR ''0'' @ ''-0x'' @ digits_base 16 n"

lemma neg_pad_0_iff: "neg_pad n = 0 \<longleftrightarrow> length (digits_base 16 n) mod 4 = 1"
  unfolding neg_pad_def by presburger

lemma int_to_ada_hex_int_neg:
  assumes "0 < n" shows "int_to_ada_hex_int (- int n) = ''16#'' @ group_from 0 (neg_body n) @ ''#''"
proof -
  have "rstrip ''L'' (''-'' @ ''0x'' @ digits_base 16 n) = ''-'' @ ''0x'' @ digits_base 16 n"
    using rstrip_L_hex [of n] by (simp add: rstrip_def dropWhile_append3 split: if_splits)
  then have "lstrip ''0x'' (rstrip ''L'' (hex_int (- int n))) = ''-0x'' @ digits_base 16 n"
    using assms by (simp add: hex_int_def lstrip_def)
  moreover have "rjust (''-0x'' @ digits_base 16 n) ((length (digits_base 16 n) + 6) div 4 * 4) CHR ''0'' = neg_body n"
    by (simp add: rjust_def neg_body_def neg_pad_def add.commute)
  ultimately show ?thesis by (simp add: int_to_ada_hex_int_def Let_def group_loop add.commute)
qed

lemma digits_plain: "c \<in> set (digits_base 16 n) \<Longrightarrow> c \<noteq> CHR ''_'' \<and> \<not> is_space c"
  using digits_base_digits [of 16 c n] is_digit_not_special [of 16 c] by simp

lemma neg_body_plain: "c \<in> set (neg_body n) \<Longrightarrow> c \<noteq> CHR ''_'' \<and> \<not> is_space c"
  using digits_plain [of c n] by (auto simp: neg_body_def is_space_def split: if_splits)

lemma read_digits_sign: "read_digits 16 (replicate k CHR ''0'' @ CHR ''-'' # s) 0 = None"
  unfolding read_digits_zeros by (simp add: char_digit_def)

lemma py_int16_neg_body:
  "py_int16 (neg_body n) = (if neg_pad n = 0 then Inr (- int n) else Inl (ValueError (neg_body n)))"
proof -
  have sp: "strip_space (neg_body n) = neg_body n" using neg_body_plain strip_space_digits by blast
  show ?thesis
  proof (cases "neg_pad n")
    case 0
    have "drop_underscores True (digits_base 16 n) = Some (digits_base 16 n)"
      using digits_plain [of _ n] by (intro drop_underscores_digits) auto
    then have "int16_unsigned (''0x'' @ digits_base 16 n) = Some n"
      using read_digits_digits_base [of 16 n] by (simp add: int16_unsigned_def startswith_def)
    then show ?thesis using sp 0 by (simp add: py_int16_def neg_body_def)
  next
    case (Suc k)
    have "drop_underscores False (neg_body n) = Some (neg_body n)"
      using neg_body_plain [of _ n] by (intro drop_underscores_digits) (auto simp: neg_body_def)
    moreover have "\<not> startswith (neg_body n) ''0x''" "\<not> startswith (neg_body n) ''0X''"
      using Suc by (cases k; simp add: neg_body_def startswith_def)+
    ultimately have "int16_unsigned (neg_body n) = None"
      using read_digits_sign [of "neg_pad n"] by (simp add: int16_unsigned_def neg_body_def)
    moreover obtain cs where "neg_body n = CHR ''0'' # cs" using Suc by (simp add: neg_body_def)
    ultimately show ?thesis using sp Suc by (simp add: py_int16_def Let_def)
  qed
qed

text \<open>C15. Which literals read back: for every integer the rendering succeeds, and reading it back gives the
  integer exactly when it is positive, or negative with a number of hexadecimal digits that is one more than a
  multiple of four; in all other cases, zero among them, reading it back is a \<^verbatim>\<open>ValueError\<close>.  The
  prefix \<^verbatim>\<open>0x\<close> is only stripped in front of a positive value, and of zero all digits are stripped.\<close>

theorem ada_hex_reads_back_iff:
  "\<exists>s. int_to_ada_hex (PInt i) = Inr s
     \<and> (if 0 < i \<or> i < 0 \<and> length (digits_base 16 (nat (- i))) mod 4 = 1
        then ada_hex_to_int (PStr s) = Inr (PInt i)
        else \<exists>m. ada_hex_to_int (PStr s) = Inl (ValueError m))"
proof (cases i "0 :: int" rule: linorder_cases)
  case less
  then have n: "0 < nat (- i)" "i = - int (nat (- i))" by simp_all
  define n where "n = nat (- i)"
  note n = n [folded n_def]
  then show ?thesis
    using ada_hex_to_int_body [of "neg_body n"] neg_body_plain [of _ n]
    unfolding n(2) by (simp add: int_to_ada_hex_int_neg [OF n(1)] py_int16_neg_body neg_pad_0_iff)
next
  case equal
  have "hex_int 0 = ''0x0''" by (simp add: hex_int_def digits_base.simps)
  then have "int_to_ada_hex (PInt 0) = Inr ''16##''"
    by (simp add: int_to_ada_hex_def int_to_ada_hex_int_def lstrip_def rstrip_def rjust_def)
  moreover have "ada_hex_to_int (PStr ''16##'') = Inl (ValueError [])" by (simp add: ada_hex_eval)
  ultimately show ?thesis using equal by simp
next
  case greater
  then show ?thesis using ada_hex_roundtrip_nat [of "nat i"] by simp
qed

end
