(* ===== verification/Pymonad.thy ===== *)
theory Pymonad
  imports Muutils
begin

text \<open>
  Execution of the scripts.  A Python statement is a function from the world (the XML
  documents in memory, what was printed, the files and directories) to a result, which is a
  value or a raised exception, and the world afterwards.  An exception keeps the effects
  made before it.  \<^verbatim>\<open>for\<close> loops are \<open>forM\<close>, loops that carry local variables are \<open>foldM\<close>.
\<close>

record 'h world =
  w_heap :: 'h
  w_out :: string
  w_files :: "string \<Rightarrow> string option"
  w_dirs :: "string \<Rightarrow> bool"

type_synonym ('h, 'a) py = "'h world \<Rightarrow> (pyerr + 'a) \<times> 'h world"

definition ret :: "'a \<Rightarrow> ('h, 'a) py" where
  "ret x = (\<lambda>w. (Inr x, w))"

definition raise :: "pyerr \<Rightarrow> ('h, 'a) py" where
  "raise e = (\<lambda>w. (Inl e, w))"

definition bnd :: "('h, 'a) py \<Rightarrow> ('a \<Rightarrow> ('h, 'b) py) \<Rightarrow> ('h, 'b) py" where
  "bnd m k = (\<lambda>w. case m w of (r, w') \<Rightarrow> (case r of Inl e \<Rightarrow> (Inl e, w') | Inr x \<Rightarrow> k x w'))"

abbreviation seq :: "('h, 'a) py \<Rightarrow> ('h, 'b) py \<Rightarrow> ('h, 'b) py" where
  "seq m n \<equiv> bnd m (\<lambda>_. n)"

definition lift :: "pyerr + 'a \<Rightarrow> ('h, 'a) py" where
  "lift r = (\<lambda>w. (r, w))"

definition print :: "string \<Rightarrow> ('h, unit) py" where
  "print s = (\<lambda>w. (Inr (), w\<lparr>w_out := w_out w @ s @ [CHR 0x0A]\<rparr>))"

text \<open>\<^verbatim>\<open>sys.exit(msg)\<close>.\<close>

abbreviation sys_exit :: "string \<Rightarrow> ('h, 'a) py" where
  "sys_exit msg \<equiv> raise (SystemExitMsg msg)"

definition get_world :: "('h, 'h world) py" where
  "get_world = (\<lambda>w. (Inr w, w))"

fun forM :: "'a list \<Rightarrow> ('a \<Rightarrow> ('h, unit) py) \<Rightarrow> ('h, unit) py" where
  "forM [] f = ret ()"
| "forM (x # xs) f = seq (f x) (forM xs f)"

fun foldM :: "('s \<Rightarrow> 'a \<Rightarrow> ('h, 's) py) \<Rightarrow> 's \<Rightarrow> 'a list \<Rightarrow> ('h, 's) py" where
  "foldM f s [] = ret s"
| "foldM f s (x # xs) = bnd (f s x) (\<lambda>s'. foldM f s' xs)"

text \<open>\<^verbatim>\<open>xs[0]\<close>.\<close>

definition first :: "'a list \<Rightarrow> ('h, 'a) py" where
  "first xs = (case xs of [] \<Rightarrow> raise IndexError | x # _ \<Rightarrow> ret x)"

text \<open>A value in a position where the operation needs a string (concatenation) or an integer
  (arithmetic): anything else is a \<^verbatim>\<open>TypeError\<close>.\<close>

definition as_str :: "string option \<Rightarrow> ('h, string) py" where
  "as_str v = (case v of None \<Rightarrow> raise TypeError | Some s \<Rightarrow> ret s)"

text \<open>A method call on the result of \<^verbatim>\<open>get\<close>, which is \<^verbatim>\<open>None\<close> for a missing attribute.\<close>

definition as_obj :: "string option \<Rightarrow> ('h, string) py" where
  "as_obj v = (case v of None \<Rightarrow> raise AttributeError | Some s \<Rightarrow> ret s)"

definition as_int :: "pyval \<Rightarrow> ('h, int) py" where
  "as_int v = (case v of PInt i \<Rightarrow> ret i | PBool b \<Rightarrow> ret (if b then 1 else 0) | _ \<Rightarrow> raise TypeError)"

definition of_opt :: "string option \<Rightarrow> pyval" where
  "of_opt v = (case v of None \<Rightarrow> PNone | Some s \<Rightarrow> PStr s)"

text \<open>Attribute values must be strings when an element is created.\<close>

fun attr_strs :: "(string \<times> pyval) list \<Rightarrow> pyerr + (string \<times> string) list" where
  "attr_strs [] = Inr []"
| "attr_strs ((k, v) # r) =
     (case v of
        PStr s \<Rightarrow> (case attr_strs r of Inl e \<Rightarrow> Inl e | Inr as \<Rightarrow> Inr ((k, s) # as))
      | _ \<Rightarrow> Inl TypeError)"

definition heap_upd :: "('h \<Rightarrow> 'h) \<Rightarrow> ('h, unit) py" where
  "heap_upd f = (\<lambda>w. (Inr (), w\<lparr>w_heap := f (w_heap w)\<rparr>))"

definition heap_new :: "('h \<Rightarrow> 'n \<times> 'h) \<Rightarrow> ('h, 'n) py" where
  "heap_new f = (\<lambda>w. case f (w_heap w) of (n, h') \<Rightarrow> (Inr n, w\<lparr>w_heap := h'\<rparr>))"

definition heap_get :: "('h \<Rightarrow> 'a) \<Rightarrow> ('h, 'a) py" where
  "heap_get f = (\<lambda>w. (Inr (f (w_heap w)), w))"

definition heap_try :: "('h \<Rightarrow> pyerr + 'a) \<Rightarrow> ('h, 'a) py" where
  "heap_try f = (\<lambda>w. (f (w_heap w), w))"

subsection \<open>The file system\<close>

definition isfile :: "string \<Rightarrow> ('h, bool) py" where
  "isfile p = (\<lambda>w. (Inr (w_files w p \<noteq> None), w))"

definition isdir :: "string \<Rightarrow> ('h, bool) py" where
  "isdir p = (\<lambda>w. (Inr (w_dirs w p), w))"

definition read_file :: "string \<Rightarrow> ('h, string) py" where
  "read_file p = (\<lambda>w. case w_files w p of None \<Rightarrow> (Inl OSError, w) | Some c \<Rightarrow> (Inr c, w))"

text \<open>\<^verbatim>\<open>os.path.basename\<close>: the part after the last slash.\<close>

definition basename :: "string \<Rightarrow> string" where
  "basename p = rev (takeWhile (\<lambda>c. c \<noteq> CHR ''/'') (rev p))"

text \<open>\<^verbatim>\<open>os.path.dirname\<close>: the part up to the last slash, without trailing slashes unless it is all
  slashes.\<close>

definition dirname :: "string \<Rightarrow> string" where
  "dirname p =
     (let d = rev (dropWhile (\<lambda>c. c \<noteq> CHR ''/'') (rev p))
      in if set d \<subseteq> {CHR ''/''} then d else rstrip ''/'' d)"

text \<open>A file can be written when its directory exists (an empty \<^verbatim>\<open>dirname\<close> is the working
  directory) and its name is not a directory.\<close>

definition writable_path :: "'h world \<Rightarrow> string \<Rightarrow> bool" where
  "writable_path w p \<longleftrightarrow> (dirname p = [] \<or> w_dirs w (dirname p)) \<and> \<not> w_dirs w p"

definition write_file :: "string \<Rightarrow> string \<Rightarrow> ('h, unit) py" where
  "write_file p c =
     (\<lambda>w. if writable_path w p then (Inr (), w\<lparr>w_files := (w_files w)(p := Some c)\<rparr>)
          else (Inl OSError, w))"

text \<open>\<^verbatim>\<open>open(path, 'wb')\<close> creates the file, or truncates it, before anything is written.\<close>

abbreviation open_write :: "string \<Rightarrow> ('h, unit) py" where
  "open_write p \<equiv> write_file p []"

text \<open>\<^verbatim>\<open>f.write(s)\<close> on a file opened for writing: what is written is visible at once.\<close>

definition fwrite :: "string \<Rightarrow> string \<Rightarrow> ('h, unit) py" where
  "fwrite p s =
     (\<lambda>w. case w_files w p of
            None \<Rightarrow> (Inl OSError, w)
          | Some c \<Rightarrow> (Inr (), w\<lparr>w_files := (w_files w)(p := Some (c @ s))\<rparr>))"

text \<open>\<^verbatim>\<open>os.path.exists\<close>, \<^verbatim>\<open>os.path.getsize\<close>, \<^verbatim>\<open>os.makedirs\<close> (which creates missing parents) and
  \<^verbatim>\<open>shutil.copy\<close> (into the destination when that is a directory).\<close>

definition path_exists :: "string \<Rightarrow> ('h, bool) py" where
  "path_exists p = (\<lambda>w. (Inr (w_files w p \<noteq> None \<or> w_dirs w p), w))"

definition getsize :: "string \<Rightarrow> ('h, int) py" where
  "getsize p = bnd (read_file p) (\<lambda>c. ret (int (length c)))"

definition parents :: "string \<Rightarrow> string list" where
  "parents p = map (\<lambda>i. take i p) (filter (\<lambda>i. p ! i = CHR ''/'') [1..<length p])"

definition makedirs :: "string \<Rightarrow> ('h, unit) py" where
  "makedirs p =
     (\<lambda>w. if w_dirs w p \<or> w_files w p \<noteq> None \<or> list_ex (\<lambda>d. w_files w d \<noteq> None) (parents p)
          then (Inl OSError, w)
          else (Inr (), w\<lparr>w_dirs := (\<lambda>d. w_dirs w d \<or> List.member (p # parents p) d)\<rparr>))"

definition copy_file :: "string \<Rightarrow> string \<Rightarrow> ('h, unit) py" where
  "copy_file src dst =
     bnd (read_file src) (\<lambda>c.
     bnd (isdir dst) (\<lambda>d.
     let target = (if d then dst @ ''/'' @ basename src else dst) in
     if target = src then raise OSError else write_file target c))"

subsection \<open>Evaluation rules\<close>

lemma ret_run [py_simps]: "ret x w = (Inr x, w)"
  by (simp add: ret_def)

lemma raise_run [py_simps]: "raise e w = (Inl e, w)"
  by (simp add: raise_def)

lemma bnd_ok [py_simps]: "m w = (Inr x, w') \<Longrightarrow> bnd m k w = k x w'"
  by (simp add: bnd_def)

lemma bnd_err [py_simps]: "m w = (Inl e, w') \<Longrightarrow> bnd m k w = (Inl e, w')"
  by (simp add: bnd_def)

lemma lift_Inr [py_simps]: "lift (Inr x) w = (Inr x, w)"
  by (simp add: lift_def)

lemma lift_Inl [py_simps]: "lift (Inl e) w = (Inl e, w)"
  by (simp add: lift_def)

lemma print_run [py_simps]: "print s w = (Inr (), w\<lparr>w_out := w_out w @ s @ [CHR 0x0A]\<rparr>)"
  by (simp add: print_def)

lemma get_world_run [py_simps]: "get_world w = (Inr w, w)"
  by (simp add: get_world_def)

lemma first_Cons [py_simps]: "first (x # xs) w = (Inr x, w)"
  by (simp add: first_def ret_def)

lemma first_Nil [py_simps]: "first [] w = (Inl IndexError, w)"
  by (simp add: first_def raise_def)

lemma as_str_Some [py_simps]: "as_str (Some s) w = (Inr s, w)"
  by (simp add: as_str_def ret_def)

lemma as_str_None [py_simps]: "as_str None w = (Inl TypeError, w)"
  by (simp add: as_str_def raise_def)

lemma as_obj_Some [py_simps]: "as_obj (Some s) w = (Inr s, w)"
  by (simp add: as_obj_def ret_def)

lemma as_obj_None [py_simps]: "as_obj None w = (Inl AttributeError, w)"
  by (simp add: as_obj_def raise_def)

lemma as_int_PInt [py_simps]: "as_int (PInt i) w = (Inr i, w)"
  by (simp add: as_int_def ret_def)

lemma of_opt_Some [simp]: "of_opt (Some s) = PStr s"
  by (simp add: of_opt_def)

lemma of_opt_None [simp]: "of_opt None = PNone"
  by (simp add: of_opt_def)

lemma heap_upd_run [py_simps]: "heap_upd f w = (Inr (), w\<lparr>w_heap := f (w_heap w)\<rparr>)"
  by (simp add: heap_upd_def)

lemma heap_new_run [py_simps]:
  "heap_new f w = (Inr (fst (f (w_heap w))), w\<lparr>w_heap := snd (f (w_heap w))\<rparr>)"
  by (simp add: heap_new_def split: prod.splits)

lemma heap_get_run [py_simps]: "heap_get f w = (Inr (f (w_heap w)), w)"
  by (simp add: heap_get_def)

lemma heap_try_run [py_simps]: "heap_try f w = (f (w_heap w), w)"
  by (simp add: heap_try_def)

lemma isfile_run [py_simps]: "isfile p w = (Inr (w_files w p \<noteq> None), w)"
  by (simp add: isfile_def)

lemma isdir_run [py_simps]: "isdir p w = (Inr (w_dirs w p), w)"
  by (simp add: isdir_def)

lemma read_file_Some [py_simps]: "w_files w p = Some c \<Longrightarrow> read_file p w = (Inr c, w)"
  by (simp add: read_file_def)

lemma read_file_None [py_simps]: "w_files w p = None \<Longrightarrow> read_file p w = (Inl OSError, w)"
  by (simp add: read_file_def)

lemma write_file_run [py_simps]:
  "writable_path w p \<Longrightarrow> write_file p c w = (Inr (), w\<lparr>w_files := (w_files w)(p := Some c)\<rparr>)"
  by (simp add: write_file_def)

lemma bnd_cong [fundef_cong]:
  assumes "m w = m' w'" and "w = w'" and "\<And>x v. m' w' = (Inr x, v) \<Longrightarrow> k x v = k' x v"
  shows "bnd m k w = bnd m' k' w'"
  using assms by (auto simp: bnd_def split: prod.splits sum.splits)

lemma bnd_assoc: "bnd (bnd m f) g = bnd m (\<lambda>x. bnd (f x) g)"
  by (rule ext) (auto simp: bnd_def split: prod.splits sum.splits)

lemma ret_bnd: "bnd (ret x) k = k x"
  by (rule ext) (simp add: bnd_def ret_def)

lemma lift_bnd: "bnd (lift (Inr x)) k = k x"
  by (rule ext) (simp add: bnd_def lift_def)

text \<open>Inversion: a sequence that returned went through both halves.\<close>

lemma bnd_InrE:
  assumes "bnd m k w = (Inr y, w2)"
  obtains x w1 where "m w = (Inr x, w1)" and "k x w1 = (Inr y, w2)"
  using assms by (auto simp: bnd_def split: prod.splits sum.splits)

lemma foldM_append:
  "foldM f s (xs @ ys) = bnd (foldM f s xs) (\<lambda>s'. foldM f s' ys)"
proof (induction xs arbitrary: s)
  case Nil
  show ?case by (rule ext) (simp add: bnd_def ret_def)
next
  case (Cons x xs)
  then show ?case by (simp add: bnd_assoc)
qed

lemma forM_append: "forM (xs @ ys) f = seq (forM xs f) (forM ys f)"
proof (induction xs)
  case Nil
  show ?case by (rule ext) (simp add: bnd_def ret_def)
next
  case (Cons x xs)
  then show ?case by (simp add: bnd_assoc)
qed

lemma foldM_cong [fundef_cong]:
  assumes "s = s'" and "xs = ys" and "\<And>x t. x \<in> set ys \<Longrightarrow> f t x = g t x"
  shows "foldM f s xs = foldM g s' ys"
  using assms(3) unfolding assms(1,2) by (induction ys arbitrary: s') auto

lemma forM_cong [fundef_cong]:
  assumes "xs = ys" and "\<And>x. x \<in> set ys \<Longrightarrow> f x = g x"
  shows "forM xs f = forM ys g"
  using assms(2) unfolding assms(1) by (induction ys) auto

text \<open>An invariant of the loop body is an invariant of the loop, whatever the outcome.\<close>

lemma forM_invariant:
  assumes "I w" and "\<And>x v. x \<in> set xs \<Longrightarrow> I v \<Longrightarrow> I (snd (f x v))"
  shows "I (snd (forM xs f w))"
  using assms
proof (induction xs arbitrary: w)
  case (Cons x xs)
  have "I (snd (f x w))" using Cons.prems by simp
  moreover have "I (snd (forM xs f v))" if "I v" for v
    using that Cons.prems(2) by (intro Cons.IH) auto
  ultimately show ?case by (auto simp: bnd_def split: prod.splits sum.splits)
qed (simp add: ret_def)


subsection \<open>Total correctness\<close>

text \<open>\<open>runs m w Q\<close>: started in \<open>w\<close>, the statement returns normally (no exception), and its
  value and the world afterwards satisfy \<open>Q\<close>.\<close>

definition runs :: "('h, 'a) py \<Rightarrow> 'h world \<Rightarrow> ('a \<Rightarrow> 'h world \<Rightarrow> bool) \<Rightarrow> bool" where
  "runs m w Q \<longleftrightarrow> (\<exists>x w'. m w = (Inr x, w') \<and> Q x w')"

lemma runs_ret [wp]: "runs (ret x) w Q \<longleftrightarrow> Q x w"
  by (simp add: runs_def ret_def)

lemma runs_bnd [wp]: "runs (bnd m k) w Q \<longleftrightarrow> runs m w (\<lambda>x w1. runs (k x) w1 Q)"
  by (auto simp: runs_def bnd_def split: prod.splits sum.splits)

lemma runs_raise [wp]: "runs (raise e) w Q \<longleftrightarrow> False"
  by (simp add: runs_def raise_def)

lemma runs_lift [wp]: "runs (lift r) w Q \<longleftrightarrow> (\<exists>x. r = Inr x \<and> Q x w)"
  by (simp add: runs_def lift_def)

lemma runs_first [wp]: "runs (first xs) w Q \<longleftrightarrow> (\<exists>x r. xs = x # r \<and> Q x w)"
  by (cases xs) (simp_all add: first_def wp)

lemma runs_as_str [wp]: "runs (as_str v) w Q \<longleftrightarrow> (\<exists>s. v = Some s \<and> Q s w)"
  by (cases v) (simp_all add: as_str_def wp)

lemma runs_as_obj [wp]: "runs (as_obj v) w Q \<longleftrightarrow> (\<exists>s. v = Some s \<and> Q s w)"
  by (cases v) (simp_all add: as_obj_def wp)

lemma runs_as_int [wp]: "runs (as_int (PInt i)) w Q \<longleftrightarrow> Q i w"
  by (simp add: as_int_def wp)

lemma runs_heap_upd [wp]: "runs (heap_upd f) w Q \<longleftrightarrow> Q () (w\<lparr>w_heap := f (w_heap w)\<rparr>)"
  by (simp add: runs_def heap_upd_def)

lemma runs_heap_get [wp]: "runs (heap_get f) w Q \<longleftrightarrow> Q (f (w_heap w)) w"
  by (simp add: runs_def heap_get_def)

lemma runs_heap_try [wp]: "runs (heap_try f) w Q \<longleftrightarrow> (\<exists>x. f (w_heap w) = Inr x \<and> Q x w)"
  by (simp add: runs_def heap_try_def)

lemma runs_isfile [wp]: "runs (isfile p) w Q \<longleftrightarrow> Q (w_files w p \<noteq> None) w"
  by (simp add: runs_def isfile_def)

lemma runs_isdir [wp]: "runs (isdir p) w Q \<longleftrightarrow> Q (w_dirs w p) w"
  by (simp add: runs_def isdir_def)

lemma runs_read_file [wp]: "runs (read_file p) w Q \<longleftrightarrow> (\<exists>c. w_files w p = Some c \<and> Q c w)"
  by (auto simp: runs_def read_file_def split: option.splits)

lemma runs_write_file [wp]:
  "runs (write_file p c) w Q \<longleftrightarrow> writable_path w p \<and> Q () (w\<lparr>w_files := (w_files w)(p := Some c)\<rparr>)"
  by (simp add: runs_def write_file_def)

lemma runs_fwrite [wp]:
  "runs (fwrite p s) w Q \<longleftrightarrow> (\<exists>c. w_files w p = Some c \<and> Q () (w\<lparr>w_files := (w_files w)(p := Some (c @ s))\<rparr>))"
  by (auto simp: runs_def fwrite_def split: option.splits)

lemma runs_path_exists [wp]: "runs (path_exists p) w Q \<longleftrightarrow> Q (w_files w p \<noteq> None \<or> w_dirs w p) w"
  by (simp add: runs_def path_exists_def)

lemma runs_getsize [wp]: "runs (getsize p) w Q \<longleftrightarrow> (\<exists>c. w_files w p = Some c \<and> Q (int (length c)) w)"
  by (simp add: getsize_def wp)

lemma runs_if [wp]: "runs (if b then m else n) w Q \<longleftrightarrow> (if b then runs m w Q else runs n w Q)"
  by simp

lemma runs_Let [wp]: "runs (let x = a in m x) w Q \<longleftrightarrow> runs (m a) w Q"
  by simp

lemma runs_copy_file [wp]:
  "runs (copy_file src dst) w Q \<longleftrightarrow> (\<exists>c. w_files w src = Some c \<and>
     (let t = (if w_dirs w dst then dst @ ''/'' @ basename src else dst) in
      t \<noteq> src \<and> writable_path w t \<and> Q () (w\<lparr>w_files := (w_files w)(t := Some c)\<rparr>)))"
  by (auto simp: copy_file_def wp Let_def)

text \<open>What was printed matters to no other statement: a postcondition that holds for any output
  holds after printing.\<close>

lemma runs_print: "(\<And>out. Q () (w\<lparr>w_out := out\<rparr>)) \<Longrightarrow> runs (print s) w Q"
  by (simp add: runs_def print_def)

lemma runs_print_iff: "runs (print s) w Q \<longleftrightarrow> Q () (w\<lparr>w_out := w_out w @ s @ [CHR 0x0A]\<rparr>)"
  by (simp add: runs_def print_def)

lemma runs_mono: "runs m w Q \<Longrightarrow> (\<And>x w'. Q x w' \<Longrightarrow> R x w') \<Longrightarrow> runs m w R"
  by (auto simp: runs_def)

lemma runs_forM_Cons [wp]: "runs (forM (x # xs) f) w Q \<longleftrightarrow> runs (f x) w (\<lambda>_ w1. runs (forM xs f) w1 Q)"
  by (simp add: wp)

lemma runs_forM:
  assumes "I [] w" and "\<And>pre x post v. xs = pre @ x # post \<Longrightarrow> I pre v \<Longrightarrow> runs (f x) v (\<lambda>_. I (pre @ [x]))"
  shows "runs (forM xs f) w (\<lambda>_. I xs)"
proof -
  have "runs (forM post f) v (\<lambda>_. I (pre @ post))" if "xs = pre @ post" "I pre v" for pre post v
    using that
  proof (induction post arbitrary: pre v)
    case (Cons x post)
    have "runs (f x) v (\<lambda>_. I (pre @ [x]))" using assms(2) Cons.prems by blast
    then show ?case
      using Cons.IH [of "pre @ [x]"] Cons.prems(1) by (auto simp: wp elim!: runs_mono)
  qed (simp add: wp)
  from this [of "[]" xs w] assms(1) show ?thesis by simp
qed

lemma runs_foldM:
  assumes "I [] s w" and "\<And>pre x post t v. xs = pre @ x # post \<Longrightarrow> I pre t v \<Longrightarrow> runs (f t x) v (I (pre @ [x]))"
  shows "runs (foldM f s xs) w (I xs)"
proof -
  have "runs (foldM f t post) v (I (pre @ post))" if "xs = pre @ post" "I pre t v" for pre post t v
    using that
  proof (induction post arbitrary: pre t v)
    case (Cons x post)
    have "runs (f t x) v (I (pre @ [x]))" using assms(2) Cons.prems by blast
    then show ?case
      using Cons.IH [of "pre @ [x]"] Cons.prems(1) by (auto simp: wp elim!: runs_mono)
  qed (simp add: wp)
  from this [of "[]" xs s w] assms(1) show ?thesis by simp
qed


lemma foldM_collect:
  assumes "\<And>x. x \<in> set xs \<Longrightarrow> m x w = (Inr (g x), w)"
  shows "foldM (\<lambda>ys x. bnd (m x) (\<lambda>y. ret (ys @ [y]))) acc xs w = (Inr (acc @ map g xs), w)"
  using assms by (induction xs arbitrary: acc) (simp_all add: py_simps)

text \<open>The statements write one file and change nothing else.\<close>

definition file_set :: "string \<Rightarrow> string \<Rightarrow> 'h world \<Rightarrow> 'h world" where
  "file_set f c w = w\<lparr>w_files := (w_files w)(f := Some c)\<rparr>"

lemma file_set_simps [simp]:
  "w_heap (file_set f c w) = w_heap w" "w_files (file_set f c w) f = Some c" "file_set f d (file_set f c w) = file_set f d w"
  "w_files (file_set f c w) = (w_files w)(f := Some c)"
  by (simp_all add: file_set_def)

lemma file_set_id: "w_files w f = Some c \<Longrightarrow> file_set f c w = w"
  by (simp add: file_set_def fun_upd_idem)

lemma runs_fwrite_set: "w_files w f = Some c \<Longrightarrow> runs (fwrite f s) w Q \<longleftrightarrow> Q () (file_set f (c @ s) w)"
  by (simp add: wp file_set_def)

subsection \<open>Raised exceptions\<close>

text \<open>\<open>raises m w e\<close>: started in \<open>w\<close>, the statement raises \<open>e\<close>.\<close>

definition raises :: "('h, 'a) py \<Rightarrow> 'h world \<Rightarrow> pyerr \<Rightarrow> bool" where
  "raises m w e \<longleftrightarrow> fst (m w) = Inl e"

lemma raises_bnd [wp]: "raises (bnd m k) w e \<longleftrightarrow> raises m w e \<or> runs m w (\<lambda>x w1. raises (k x) w1 e)"
  by (auto simp: raises_def runs_def bnd_def split: prod.splits sum.splits)

lemma raises_prims [wp]:
  "raises (ret x) w e \<longleftrightarrow> False" "raises (raise e') w e \<longleftrightarrow> e' = e" "raises (lift r) w e \<longleftrightarrow> r = Inl e"
  "raises (print s) w e \<longleftrightarrow> False" "raises (heap_upd f) w e \<longleftrightarrow> False" "raises (heap_get g) w e \<longleftrightarrow> False"
  "raises (heap_try h) w e \<longleftrightarrow> h (w_heap w) = Inl e" "raises (isfile p) w e \<longleftrightarrow> False" "raises (isdir p) w e \<longleftrightarrow> False"
  by (auto simp: raises_def ret_def raise_def lift_def print_def heap_upd_def heap_get_def heap_try_def isfile_def isdir_def)

lemma raises_if [wp]: "raises (if b then m else n) w e \<longleftrightarrow> (if b then raises m w e else raises n w e)"
  by simp

lemma raises_runs_False: "raises m w e \<Longrightarrow> \<not> runs m w Q"
  by (auto simp: raises_def runs_def)

subsection \<open>Statements that write no file\<close>

definition same_fs :: "'h world \<Rightarrow> 'h world \<Rightarrow> bool" where
  "same_fs w w' \<longleftrightarrow> w_files w' = w_files w \<and> w_dirs w' = w_dirs w"

text \<open>Whatever the outcome, the files and directories are those of before.\<close>

definition keeps_fs :: "('h, 'a) py \<Rightarrow> bool" where
  "keeps_fs m \<longleftrightarrow> (\<forall>w. same_fs w (snd (m w)))"

lemma same_fs_refl [simp]: "same_fs w w"
  by (simp add: same_fs_def)

lemma same_fs_trans: "same_fs w w1 \<Longrightarrow> same_fs w1 w2 \<Longrightarrow> same_fs w w2"
  by (simp add: same_fs_def)

lemma keeps_fs_bnd [keeps_fs_intros]:
  assumes "keeps_fs m" and "\<And>x. keeps_fs (k x)"
  shows "keeps_fs (bnd m k)"
  unfolding keeps_fs_def
proof
  fix w
  obtain r w1 where "m w = (r, w1)" by (cases "m w")
  moreover have "same_fs w w1" using assms(1) calculation by (metis keeps_fs_def snd_conv)
  moreover have "same_fs w1 (snd (k x w1))" for x using assms(2) by (simp add: keeps_fs_def)
  ultimately show "same_fs w (snd (bnd m k w))"
    by (auto simp: bnd_def split: sum.splits intro: same_fs_trans)
qed

lemma keeps_fs_prims [keeps_fs_intros]:
  "keeps_fs (ret x)" "keeps_fs (raise e)" "keeps_fs (lift r)" "keeps_fs (print s)"
  "keeps_fs (heap_upd f)" "keeps_fs (heap_new g)" "keeps_fs (heap_get g')" "keeps_fs (heap_try g'')"
  "keeps_fs (isfile p)" "keeps_fs (isdir p)" "keeps_fs (read_file p)" "keeps_fs get_world"
  by (auto simp: keeps_fs_def same_fs_def ret_def raise_def lift_def print_def heap_upd_def heap_new_def
      heap_get_def heap_try_def isfile_def isdir_def read_file_def get_world_def split: prod.splits option.splits)

lemma keeps_fs_values [keeps_fs_intros]:
  "keeps_fs (first xs)" "keeps_fs (as_str v)" "keeps_fs (as_obj v)" "keeps_fs (as_int u)"
  by (simp_all add: first_def as_str_def as_obj_def as_int_def keeps_fs_prims split: list.splits option.splits pyval.splits)

lemma keeps_fs_paths [keeps_fs_intros]: "keeps_fs (path_exists p)" "keeps_fs (getsize p)"
  by (auto simp: keeps_fs_def same_fs_def path_exists_def getsize_def bnd_def read_file_def ret_def split: option.splits)

lemma keeps_fs_if [keeps_fs_intros]: "keeps_fs m \<Longrightarrow> keeps_fs n \<Longrightarrow> keeps_fs (if b then m else n)"
  by simp

lemma keeps_fs_Let [keeps_fs_intros]: "(\<And>x. keeps_fs (m x)) \<Longrightarrow> keeps_fs (let x = a in m x)"
  by simp

lemma keeps_fs_option [keeps_fs_intros]:
  "keeps_fs m \<Longrightarrow> (\<And>x. keeps_fs (n x)) \<Longrightarrow> keeps_fs (case v of None \<Rightarrow> m | Some x \<Rightarrow> n x)"
  by (cases v) auto

lemma keeps_fs_prod [keeps_fs_intros]: "(\<And>x y. keeps_fs (n x y)) \<Longrightarrow> keeps_fs (case v of (x, y) \<Rightarrow> n x y)"
  by (cases v) auto

lemma keeps_fs_forM [keeps_fs_intros]: "(\<And>x. keeps_fs (f x)) \<Longrightarrow> keeps_fs (forM xs f)"
  by (induction xs) (auto intro: keeps_fs_intros)

lemma keeps_fs_foldM [keeps_fs_intros]: "(\<And>s x. keeps_fs (f s x)) \<Longrightarrow> keeps_fs (foldM f s xs)"
  by (induction xs arbitrary: s) (auto intro: keeps_fs_intros)

text \<open>A script that only computes, then opens its output, prints and writes: when it fails, no
  file was touched.\<close>

lemma fails_before_write:
  assumes m: "keeps_fs m" and err: "bnd m (\<lambda>x. seq (open_write p) (seq (print (msg x)) (bnd (heap_get (g x)) (write_file p)))) w = (Inl e, w')"
  shows "w_files w' = w_files w"
proof -
  obtain r w1 where r: "m w = (r, w1)" by (cases "m w")
  have fs: "w_files w1 = w_files w" using m r by (metis keeps_fs_def same_fs_def snd_conv)
  show ?thesis
    using err r fs
    by (cases r) (auto simp: bnd_def write_file_def print_def heap_get_def writable_path_def split: if_splits)
qed

end
