(* ===== verification/Etree.thy ===== *)
theory Etree
  imports Pymonad
begin

text \<open>
  The interface to \<^verbatim>\<open>lxml.etree\<close>, a package outside the repository, as a record of the
  operations the scripts call.  Documents live in a heap of type \<open>'h\<close>, nodes are references
  of type \<open>'n\<close>; what the scripts can observe of a node is an \<open>xnode\<close>.  The locale \<open>etree\<close>
  states the documented behaviour of the operations as laws, one equation per operation for
  what every node looks like afterwards; \<open>Etree_Ref\<close> shows that a heap with these laws
  exists.  Every definition of the scripts takes the record as its first argument.
\<close>

record 'n xnode =
  n_tag :: string
  n_attrib :: "(string \<times> string) list"
  n_text :: "string option"
  n_children :: "'n list"
  n_parent :: "'n option"

record ('h, 'n) lxml =
  x_node :: "'h \<Rightarrow> 'n \<Rightarrow> 'n xnode"
  x_xpath :: "'h \<Rightarrow> 'n \<Rightarrow> string \<Rightarrow> pyerr + 'n list"
  x_element :: "'h \<Rightarrow> string \<Rightarrow> (string \<times> string) list \<Rightarrow> 'n \<times> 'h"
  x_set :: "'n \<Rightarrow> string \<Rightarrow> string \<Rightarrow> 'h \<Rightarrow> 'h"
  x_del :: "'n \<Rightarrow> string \<Rightarrow> 'h \<Rightarrow> 'h"
  x_settext :: "'n \<Rightarrow> string \<Rightarrow> 'h \<Rightarrow> 'h"
  x_insert :: "'n \<Rightarrow> nat \<Rightarrow> 'n \<Rightarrow> 'h \<Rightarrow> 'h"
  x_append :: "'n \<Rightarrow> 'n \<Rightarrow> 'h \<Rightarrow> 'h"
  x_remove :: "'n \<Rightarrow> 'n \<Rightarrow> 'h \<Rightarrow> 'h"
  x_deepcopy :: "'n \<Rightarrow> 'h \<Rightarrow> 'n \<times> 'h"
  x_parse :: "string \<Rightarrow> 'h \<Rightarrow> pyerr + 'n \<times> 'h"
  x_tostring :: "'h \<Rightarrow> 'n \<Rightarrow> string"

subsection \<open>The calls as the scripts write them\<close>

definition xtag :: "('h, 'n) lxml \<Rightarrow> 'n \<Rightarrow> ('h, string) py" where
  "xtag E n = heap_get (\<lambda>h. n_tag (x_node E h n))"

text \<open>\<^verbatim>\<open>node.get(key)\<close>: \<open>None\<close> when there is no such attribute.\<close>

definition xget :: "('h, 'n) lxml \<Rightarrow> 'n \<Rightarrow> string \<Rightarrow> ('h, string option) py" where
  "xget E n k = heap_get (\<lambda>h. map_of (n_attrib (x_node E h n)) k)"

text \<open>\<^verbatim>\<open>node.attrib[key]\<close>: a missing attribute is a \<^verbatim>\<open>KeyError\<close>.\<close>

definition xattr :: "('h, 'n) lxml \<Rightarrow> 'n \<Rightarrow> string \<Rightarrow> ('h, string) py" where
  "xattr E n k =
     heap_try (\<lambda>h. case map_of (n_attrib (x_node E h n)) k of
                     None \<Rightarrow> Inl (KeyError k) | Some v \<Rightarrow> Inr v)"

definition xtext :: "('h, 'n) lxml \<Rightarrow> 'n \<Rightarrow> ('h, string option) py" where
  "xtext E n = heap_get (\<lambda>h. n_text (x_node E h n))"

definition xchildren :: "('h, 'n) lxml \<Rightarrow> 'n \<Rightarrow> ('h, 'n list) py" where
  "xchildren E n = heap_get (\<lambda>h. n_children (x_node E h n))"

definition xgetparent :: "('h, 'n) lxml \<Rightarrow> 'n \<Rightarrow> ('h, 'n option) py" where
  "xgetparent E n = heap_get (\<lambda>h. n_parent (x_node E h n))"

definition xpath :: "('h, 'n) lxml \<Rightarrow> 'n \<Rightarrow> string \<Rightarrow> ('h, 'n list) py" where
  "xpath E n q = heap_try (\<lambda>h. x_xpath E h n q)"

text \<open>\<^verbatim>\<open>node.xpath(q)[0]\<close>.\<close>

definition xpath0 :: "('h, 'n) lxml \<Rightarrow> 'n \<Rightarrow> string \<Rightarrow> ('h, 'n) py" where
  "xpath0 E n q = bnd (xpath E n q) first"

text \<open>\<^verbatim>\<open>node.findall(tag)\<close>, \<^verbatim>\<open>node.find(tag)\<close> and \<^verbatim>\<open>node.findall("*")\<close>: children by tag.  A comment or
  processing instruction has no name; its tag is the empty string here, which equals no name.\<close>

definition xfindall :: "('h, 'n) lxml \<Rightarrow> 'n \<Rightarrow> string \<Rightarrow> ('h, 'n list) py" where
  "xfindall E n t = heap_get (\<lambda>h. filter (\<lambda>c. n_tag (x_node E h c) = t) (n_children (x_node E h n)))"

definition xfind :: "('h, 'n) lxml \<Rightarrow> 'n \<Rightarrow> string \<Rightarrow> ('h, 'n option) py" where
  "xfind E n t = heap_get (\<lambda>h. List.find (\<lambda>c. n_tag (x_node E h c) = t) (n_children (x_node E h n)))"

definition xelements :: "('h, 'n) lxml \<Rightarrow> 'n \<Rightarrow> ('h, 'n list) py" where
  "xelements E n = heap_get (\<lambda>h. filter (\<lambda>c. n_tag (x_node E h c) \<noteq> []) (n_children (x_node E h n)))"

definition xlook :: "('h, 'n) lxml \<Rightarrow> 'n \<Rightarrow> ('h, 'n xnode) py" where
  "xlook E n = heap_get (\<lambda>h. x_node E h n)"

text \<open>\<^verbatim>\<open>etree.Element(tag, **attrs)\<close>.\<close>

definition element :: "('h, 'n) lxml \<Rightarrow> string \<Rightarrow> (string \<times> pyval) list \<Rightarrow> ('h, 'n) py" where
  "element E t as = bnd (lift (attr_strs as)) (\<lambda>as'. heap_new (\<lambda>h. x_element E h t as'))"

definition xappend :: "('h, 'n) lxml \<Rightarrow> 'n \<Rightarrow> 'n \<Rightarrow> ('h, unit) py" where
  "xappend E p c = heap_upd (x_append E p c)"

definition xinsert :: "('h, 'n) lxml \<Rightarrow> 'n \<Rightarrow> nat \<Rightarrow> 'n \<Rightarrow> ('h, unit) py" where
  "xinsert E p i c = heap_upd (x_insert E p i c)"

text \<open>\<^verbatim>\<open>parent.remove(child)\<close>: a \<^verbatim>\<open>ValueError\<close> when it is not a child.\<close>

definition xremove :: "('h, 'n) lxml \<Rightarrow> 'n \<Rightarrow> 'n \<Rightarrow> ('h, unit) py" where
  "xremove E p c =
     bnd (xchildren E p) (\<lambda>cs. if c \<in> set cs then heap_upd (x_remove E p c)
                               else raise (ValueError ''Element is not a child of this node.''))"

definition xset :: "('h, 'n) lxml \<Rightarrow> 'n \<Rightarrow> string \<Rightarrow> string \<Rightarrow> ('h, unit) py" where
  "xset E n k v = heap_upd (x_set E n k v)"

text \<open>\<^verbatim>\<open>del node.attrib[key]\<close>.\<close>

definition xdel :: "('h, 'n) lxml \<Rightarrow> 'n \<Rightarrow> string \<Rightarrow> ('h, unit) py" where
  "xdel E n k = seq (xattr E n k) (heap_upd (x_del E n k))"

definition xsettext :: "('h, 'n) lxml \<Rightarrow> 'n \<Rightarrow> string \<Rightarrow> ('h, unit) py" where
  "xsettext E n s = heap_upd (x_settext E n s)"

definition xdeepcopy :: "('h, 'n) lxml \<Rightarrow> 'n \<Rightarrow> ('h, 'n) py" where
  "xdeepcopy E n = heap_new (x_deepcopy E n)"

text \<open>\<^verbatim>\<open>etree.SubElement(parent, tag, **attrs)\<close>: a new element appended to the parent.\<close>

definition subelement :: "('h, 'n) lxml \<Rightarrow> 'n \<Rightarrow> string \<Rightarrow> (string \<times> pyval) list \<Rightarrow> ('h, 'n) py" where
  "subelement E p t as = bnd (element E t as) (\<lambda>n. seq (xappend E p n) (ret n))"

text \<open>\<^verbatim>\<open>etree.parse(path, parser).getroot()\<close>: reads the file and builds a document.\<close>

definition xparse :: "('h, 'n) lxml \<Rightarrow> string \<Rightarrow> ('h, 'n) py" where
  "xparse E path =
     bnd (read_file path) (\<lambda>c w.
       case x_parse E c (w_heap w) of
         Inl e \<Rightarrow> (Inl e, w)
       | Inr (n, h') \<Rightarrow> (Inr n, w\<lparr>w_heap := h'\<rparr>))"

definition xtostring :: "('h, 'n) lxml \<Rightarrow> 'n \<Rightarrow> ('h, string) py" where
  "xtostring E n = heap_get (\<lambda>h. x_tostring E h n)"

lemma keeps_fs_lxml [keeps_fs_intros]:
  "keeps_fs (xtag E n)" "keeps_fs (xget E n k)" "keeps_fs (xattr E n k)" "keeps_fs (xtext E n)"
  "keeps_fs (xchildren E n)" "keeps_fs (xgetparent E n)" "keeps_fs (xpath E n q)" "keeps_fs (xpath0 E n q)"
  "keeps_fs (element E t as)" "keeps_fs (xappend E n c)" "keeps_fs (xinsert E n i c)" "keeps_fs (xremove E n c)"
  "keeps_fs (xset E n k v)" "keeps_fs (xdel E n k)" "keeps_fs (xsettext E n s)" "keeps_fs (xdeepcopy E n)"
  "keeps_fs (subelement E n t as)" "keeps_fs (xtostring E n)"
  "keeps_fs (xfindall E n t)" "keeps_fs (xfind E n t)" "keeps_fs (xelements E n)" "keeps_fs (xlook E n)"
  unfolding xtag_def xget_def xattr_def xtext_def xchildren_def xgetparent_def xpath_def xpath0_def
    element_def xappend_def xinsert_def xremove_def xset_def xdel_def xsettext_def xdeepcopy_def
    subelement_def xtostring_def xfindall_def xfind_def xelements_def xlook_def
  by (intro keeps_fs_intros)+

lemma keeps_fs_xparse [keeps_fs_intros]: "keeps_fs (xparse E p)"
proof -
  have "keeps_fs (\<lambda>w. case x_parse E c (w_heap w) of Inl e \<Rightarrow> (Inl e, w) | Inr (n, h') \<Rightarrow> (Inr n, w\<lparr>w_heap := h'\<rparr>))" for c
    by (auto simp: keeps_fs_def same_fs_def split: sum.splits prod.splits)
  then show ?thesis unfolding xparse_def by (intro keeps_fs_intros)
qed

subsection \<open>How the operations change what is observed\<close>

type_synonym 'n view = "'n \<Rightarrow> 'n xnode"

definition upd_attr :: "string \<Rightarrow> string \<Rightarrow> (string \<times> string) list \<Rightarrow> (string \<times> string) list" where
  "upd_attr k v as =
     (if k \<in> fst ` set as then map (\<lambda>(a, b). if a = k then (a, v) else (a, b)) as
      else as @ [(k, v)])"

definition new_node :: "string \<Rightarrow> (string \<times> string) list \<Rightarrow> 'n xnode" where
  "new_node t as =
     \<lparr>n_tag = t, n_attrib = as, n_text = None, n_children = [], n_parent = None\<rparr>"

text \<open>Taking \<open>c\<close> out of wherever it is.\<close>

definition detach :: "'n \<Rightarrow> 'n view \<Rightarrow> 'n view" where
  "detach c f = (\<lambda>q. (f q)\<lparr>n_children := removeAll c (n_children (f q)),
                           n_parent := (if q = c then None else n_parent (f q))\<rparr>)"

text \<open>Moving \<open>c\<close> below \<open>p\<close>, at position \<open>i\<close>.\<close>

definition attach :: "'n \<Rightarrow> nat \<Rightarrow> 'n \<Rightarrow> 'n view \<Rightarrow> 'n view" where
  "attach p i c f =
     (let g = detach c f in
      (\<lambda>q. (g q)\<lparr>n_children := (if q = p then take i (n_children (g q)) @ c # drop i (n_children (g q))
                               else n_children (g q)),
                 n_parent := (if q = c then Some p else n_parent (g q))\<rparr>))"

definition attach_last :: "'n \<Rightarrow> 'n \<Rightarrow> 'n view \<Rightarrow> 'n view" where
  "attach_last p c f = attach p (length (n_children (detach c f p))) c f"

text \<open>A well-formed view over the allocated nodes: only allocated nodes have children or are
  children, no node occurs twice among the children of a node, and the parent links agree
  with the child lists.\<close>

definition wf_view :: "'n set \<Rightarrow> 'n view \<Rightarrow> bool" where
  "wf_view A f \<longleftrightarrow>
     (\<forall>p. distinct (n_children (f p)) \<and> set (n_children (f p)) \<subseteq> A \<and> (p \<notin> A \<longrightarrow> n_children (f p) = []))
     \<and> (\<forall>p c. c \<in> set (n_children (f p)) \<longleftrightarrow> n_parent (f c) = Some p)"

text \<open>Moving \<open>c\<close> below \<open>p\<close> makes no cycle: \<open>p\<close> is not inside the subtree of \<open>c\<close>.\<close>

definition child_rel :: "'n view \<Rightarrow> ('n \<times> 'n) set" where
  "child_rel f = {(p, c). c \<in> set (n_children (f p))}"

definition may_attach :: "'n view \<Rightarrow> 'n \<Rightarrow> 'n \<Rightarrow> bool" where
  "may_attach f p c \<longleftrightarrow> (c, p) \<notin> (child_rel f)\<^sup>*"

subsection \<open>Trees below a node\<close>

datatype xtree = XT (xt_tag: string) (xt_attrib: "(string \<times> string) list")
                    (xt_text: "string option") (xt_children: "xtree list")

text \<open>The tree below \<open>n\<close> is \<open>t\<close>, and all of its nodes are in \<open>S\<close>.\<close>

fun has_tree :: "'n set \<Rightarrow> 'n view \<Rightarrow> 'n \<Rightarrow> xtree \<Rightarrow> bool"
  and has_trees :: "'n set \<Rightarrow> 'n view \<Rightarrow> 'n list \<Rightarrow> xtree list \<Rightarrow> bool" where
  "has_tree S f n (XT t as tx ts) \<longleftrightarrow>
     n \<in> S \<and> n_tag (f n) = t \<and> n_attrib (f n) = as \<and> n_text (f n) = tx \<and> has_trees S f (n_children (f n)) ts"
| "has_trees S f ns [] \<longleftrightarrow> ns = []"
| "has_trees S f ns (t # ts) \<longleftrightarrow> (\<exists>m ms. ns = m # ms \<and> has_tree S f m t \<and> has_trees S f ms ts)"

text \<open>A new tree \<open>t\<close> with root \<open>n\<close> and no parent was built; all that existed is unchanged.\<close>

definition builds :: "'n set \<Rightarrow> 'n view \<Rightarrow> 'n \<Rightarrow> xtree \<Rightarrow> 'n set \<Rightarrow> 'n view \<Rightarrow> bool" where
  "builds A f n t A' f' \<longleftrightarrow>
     wf_view A' f' \<and> A \<subseteq> A' \<and> (\<forall>q \<in> A. f' q = f q) \<and> n_parent (f' n) = None \<and> has_tree (A' - A) f' n t"

text \<open>The new trees \<open>ts\<close> were added between \<open>pre\<close> and \<open>post\<close> below \<open>p\<close>; nothing else changed.\<close>

definition grows :: "'n set \<Rightarrow> 'n view \<Rightarrow> 'n \<Rightarrow> 'n list \<Rightarrow> xtree list \<Rightarrow> 'n list \<Rightarrow> 'n set \<Rightarrow> 'n view \<Rightarrow> bool" where
  "grows A f p pre ts post A' f' \<longleftrightarrow>
     wf_view A' f' \<and> A \<subseteq> A' \<and> p \<in> A \<and> n_children (f p) = pre @ post \<and> (\<forall>q \<in> A - {p}. f' q = f q)
     \<and> (\<exists>ns. f' p = (f p)\<lparr>n_children := pre @ ns @ post\<rparr> \<and> has_trees (A' - A) f' ns ts)"

text \<open>Added after the existing children.\<close>

abbreviation adds :: "'n set \<Rightarrow> 'n view \<Rightarrow> 'n \<Rightarrow> xtree list \<Rightarrow> 'n set \<Rightarrow> 'n view \<Rightarrow> bool" where
  "adds A f p ts A' f' \<equiv> grows A f p (n_children (f p)) ts [] A' f'"

text \<open>The tree below a node does not depend on parent links.\<close>

definition same_data :: "'n xnode \<Rightarrow> 'n xnode \<Rightarrow> bool" where
  "same_data a b \<longleftrightarrow> n_tag a = n_tag b \<and> n_attrib a = n_attrib b \<and> n_text a = n_text b
                     \<and> n_children a = n_children b"

lemma has_tree_cong:
  "has_tree S f n t \<Longrightarrow> S \<subseteq> S' \<Longrightarrow> \<forall>q \<in> S. same_data (f' q) (f q) \<Longrightarrow> has_tree S' f' n t"
  "has_trees S f ns ts \<Longrightarrow> S \<subseteq> S' \<Longrightarrow> \<forall>q \<in> S. same_data (f' q) (f q) \<Longrightarrow> has_trees S' f' ns ts"
proof (induction S f n t and S f ns ts rule: has_tree_has_trees.induct)
  case (1 S f n t as tx ts)
  then show ?case by (auto simp: same_data_def)
qed auto

lemma has_tree_frame:
  assumes "S \<subseteq> S'" and "\<forall>q \<in> S. f' q = f q"
  shows "has_tree S f n t \<Longrightarrow> has_tree S' f' n t" and "has_trees S f ns ts \<Longrightarrow> has_trees S' f' ns ts"
  using assms by (auto elim!: has_tree_cong simp: same_data_def)

lemma has_trees_append:
  "has_trees S f ms ts \<Longrightarrow> has_trees S f ns us \<Longrightarrow> has_trees S f (ms @ ns) (ts @ us)"
  by (induction ts arbitrary: ms) auto

lemma has_trees_length: "has_trees S f ns ts \<Longrightarrow> length ns = length ts"
  by (induction ts arbitrary: ns) auto

lemma has_trees_nth: "has_trees S f ns ts \<Longrightarrow> i < length ts \<Longrightarrow> has_tree S f (ns ! i) (ts ! i)"
proof (induction ts arbitrary: ns i)
  case (Cons t ts)
  then show ?case by (cases i) auto
qed simp

lemma has_tree_root: "has_tree S f n t \<Longrightarrow> n \<in> S"
  by (cases t) simp

lemma has_trees_subset: "has_trees S f ns ts \<Longrightarrow> set ns \<subseteq> S"
proof (induction ts arbitrary: ns)
  case (Cons t ts)
  then obtain m ms where "ns = m # ms" "has_tree S f m t" "has_trees S f ms ts" by auto
  with Cons.IH [of ms] show ?case by (auto dest: has_tree_root)
qed simp

text \<open>A node without a parent is below no other node.\<close>

lemma has_tree_without_root:
  "has_tree S f n t \<Longrightarrow> wf_view A f \<Longrightarrow> n_parent (f r) = None \<Longrightarrow> n \<noteq> r \<Longrightarrow>
     has_tree (S - {r}) f n t"
  "has_trees S f ns ts \<Longrightarrow> wf_view A f \<Longrightarrow> n_parent (f r) = None \<Longrightarrow> r \<notin> set ns \<Longrightarrow>
     has_trees (S - {r}) f ns ts"
proof (induction S f n t and S f ns ts rule: has_tree_has_trees.induct)
  case (1 S f n t as tx ts)
  then have "r \<notin> set (n_children (f n))" by (auto simp: wf_view_def)
  with 1 show ?case by auto
qed auto

lemma has_trees_without_root:
  assumes "wf_view A f" and "n_parent (f n) = None" and "has_tree S f n (XT t as tx cs)"
  shows "has_trees (S - {n}) f (n_children (f n)) cs"
proof -
  have "n \<notin> set (n_children (f n))" using assms(1,2) by (auto simp: wf_view_def)
  then show ?thesis using has_tree_without_root(2) [of S f _ cs A n] assms by auto
qed

lemma wf_viewD:
  assumes "wf_view A f"
  shows "distinct (n_children (f p))" and "set (n_children (f p)) \<subseteq> A"
    and "p \<notin> A \<Longrightarrow> n_children (f p) = []"
    and "c \<in> set (n_children (f p)) \<longleftrightarrow> n_parent (f c) = Some p"
  using assms by (auto simp: wf_view_def)

lemma wf_view_same_links:
  assumes "wf_view A f" and "\<And>q. n_children (g q) = n_children (f q)" and "\<And>q. n_parent (g q) = n_parent (f q)"
  shows "wf_view A g"
  using assms by (simp add: wf_view_def)

lemma grows_trans:
  assumes 1: "grows A f p pre ts post A1 f1" and 2: "adds A1 f1 p us A2 f2" and post: "post = []"
  shows "grows A f p pre (ts @ us) [] A2 f2"
proof -
  from 1 post obtain ns where A1: "A \<subseteq> A1" "p \<in> A" "n_children (f p) = pre" "\<forall>q \<in> A - {p}. f1 q = f q"
    and f1: "f1 p = (f p)\<lparr>n_children := pre @ ns\<rparr>" "has_trees (A1 - A) f1 ns ts"
    by (auto simp: grows_def)
  from 2 f1 obtain ms where A2: "wf_view A2 f2" "A1 \<subseteq> A2" "\<forall>q \<in> A1 - {p}. f2 q = f1 q"
    and f2: "f2 p = (f1 p)\<lparr>n_children := (pre @ ns) @ ms\<rparr>" "has_trees (A2 - A1) f2 ms us"
    by (auto simp: grows_def)
  have "has_trees (A2 - A) f2 ns ts"
    by (rule has_tree_frame(2) [OF _ _ f1(2)]) (use A1 A2 in auto)
  moreover have "has_trees (A2 - A) f2 ms us"
    by (rule has_tree_frame(2) [OF _ _ f2(2)]) (use A1 A2 in auto)
  ultimately have "has_trees (A2 - A) f2 (ns @ ms) (ts @ us)" by (rule has_trees_append)
  moreover have "f2 p = (f p)\<lparr>n_children := pre @ ns @ ms\<rparr>" using f1 f2 by simp
  moreover have "\<forall>q \<in> A - {p}. f2 q = f q" using A1 A2 by (metis DiffD1 DiffD2 DiffI subsetD)
  ultimately show ?thesis
    using A1 A2 unfolding grows_def by (intro conjI exI [of _ "ns @ ms"]) auto
qed

lemma adds_trans: "adds A f p ts A1 f1 \<Longrightarrow> adds A1 f1 p us A2 f2 \<Longrightarrow> adds A f p (ts @ us) A2 f2"
  by (rule grows_trans) auto

lemma adds_refl: "wf_view A f \<Longrightarrow> p \<in> A \<Longrightarrow> adds A f p [] A f"
  by (simp add: grows_def)

lemma adds_wf: "grows A f p pre ts post A' f' \<Longrightarrow> wf_view A' f'"
  by (simp add: grows_def)

lemma adds_mem: "grows A f p pre ts post A' f' \<Longrightarrow> q \<in> A \<Longrightarrow> q \<in> A'"
  by (auto simp: grows_def)

lemma adds_other: "grows A f p pre ts post A' f' \<Longrightarrow> q \<in> A \<Longrightarrow> q \<noteq> p \<Longrightarrow> f' q = f q"
  by (auto simp: grows_def)

text \<open>Moving a parentless node with no cycle: the parts of the view that change.\<close>

lemma detach_root:
  assumes "wf_view A f" and "n_parent (f c) = None"
  shows "detach c f = f"
proof
  fix q
  have "c \<notin> set (n_children (f q))" using assms by (simp add: wf_viewD(4))
  then show "detach c f q = f q"
    using assms(2) by (auto simp: detach_def removeAll_id)
qed

lemma attach_root:
  assumes "wf_view A f" and "n_parent (f c) = None" and "p \<noteq> c"
  shows "attach p i c f =
     f(p := (f p)\<lparr>n_children := take i (n_children (f p)) @ c # drop i (n_children (f p))\<rparr>,
       c := (f c)\<lparr>n_parent := Some p\<rparr>)"
  using detach_root [OF assms(1,2)] assms(3) by (auto simp: attach_def Let_def fun_eq_iff)

lemma attach_last_root:
  assumes "wf_view A f" and "n_parent (f c) = None" and "p \<noteq> c"
  shows "attach_last p c f =
     f(p := (f p)\<lparr>n_children := n_children (f p) @ [c]\<rparr>, c := (f c)\<lparr>n_parent := Some p\<rparr>)"
  using attach_root [OF assms] by (simp add: attach_last_def detach_root [OF assms(1,2)])

lemma wf_attach_root:
  assumes wf: "wf_view A f" and root: "n_parent (f c) = None" and ne: "p \<noteq> c" and mem: "p \<in> A" "c \<in> A"
  shows "wf_view A (attach p i c f)"
proof -
  let ?cs = "n_children (f p)"
  have notin: "c \<notin> set (n_children (f q))" for q using wf root by (simp add: wf_viewD(4))
  have set_eq: "set (take i ?cs @ c # drop i ?cs) = insert c (set ?cs)"
    by (metis Un_insert_right append_take_drop_id list.simps(15) set_append)
  have "distinct (take i ?cs @ drop i ?cs)" using wf_viewD(1) [OF wf, of p] by simp
  then have "distinct (take i ?cs @ c # drop i ?cs)"
    using notin [of p] by (auto dest: in_set_takeD in_set_dropD simp del: append_take_drop_id)
  then show ?thesis
    using wf mem ne root notin set_eq unfolding attach_root [OF wf root ne]
    by (auto simp: wf_view_def simp del: set_append)
qed


lemma wf_new:
  assumes "wf_view A f" and "n \<notin> A"
  shows "wf_view (insert n A) (f(n := new_node t as))"
proof -
  have "n \<notin> set (n_children (f q))" for q using wf_viewD(2) [OF assms(1), of q] assms(2) by auto
  moreover have "n_children (f n) = []" using wf_viewD(3) [OF assms(1)] assms(2) by simp
  moreover have "n_parent (f c) \<noteq> Some n" for c
    using calculation(2) wf_viewD(4) [OF assms(1), of c n] by simp
  ultimately show ?thesis
    using assms(1) by (auto simp: wf_view_def new_node_def)
qed

lemma may_attach_outside:
  assumes "has_tree S f n t" and "p \<notin> S"
  shows "may_attach f p n"
proof -
  have tree: "has_tree S f n t \<Longrightarrow> \<forall>m \<in> set (n_children (f n)). \<exists>u. has_tree S f m u" for n t
  proof (cases t)
    fix t' as tx ts assume "has_tree S f n t" "t = XT t' as tx ts"
    then have "has_trees S f (n_children (f n)) ts" by simp
    then show ?thesis
      by (metis has_trees_length has_trees_nth in_set_conv_nth)
  qed
  have "(n, q) \<in> (child_rel f)\<^sup>* \<Longrightarrow> \<exists>u. has_tree S f q u" for q
  proof (induction rule: rtrancl_induct)
    case base
    with assms(1) show ?case by blast
  next
    case (step y z)
    with tree show ?case by (auto simp: child_rel_def)
  qed
  then show ?thesis using assms(2) by (auto simp: may_attach_def dest: has_tree_root)
qed

lemma builds_attach:
  assumes b: "builds A f n t A1 f1" and p: "p \<in> A"
    and cs: "n_children (f p) = pre @ post" and i: "i = length pre"
  shows "grows A f p pre [t] post A1 (attach p i n f1)"
    and "p \<in> A1" and "n \<in> A1" and "may_attach f1 p n" and "n \<notin> set (n_children (f1 p))"
proof -
  from b have wf: "wf_view A1 f1" and sub: "A \<subseteq> A1" and same: "\<forall>q \<in> A. f1 q = f q"
    and root: "n_parent (f1 n) = None" and tree: "has_tree (A1 - A) f1 n t"
    by (auto simp: builds_def)
  show n: "n \<in> A1" and p1: "p \<in> A1" using tree sub p by (auto dest: has_tree_root)
  have "n \<notin> A" using tree by (auto dest: has_tree_root)
  with p have ne: "p \<noteq> n" by auto
  have kids: "n_children (f1 p) = pre @ post" using same p cs by simp
  show "n \<notin> set (n_children (f1 p))" using wf root by (simp add: wf_viewD(4))
  show "may_attach f1 p n" using may_attach_outside [OF tree] p by simp
  have eq: "attach p i n f1 = f1(p := (f1 p)\<lparr>n_children := pre @ n # post\<rparr>, n := (f1 n)\<lparr>n_parent := Some p\<rparr>)"
    using attach_root [OF wf root ne] kids i by simp
  have "has_tree (A1 - A) (attach p i n f1) n t"
    using tree by (rule has_tree_cong(1)) (use p in \<open>auto simp: eq same_data_def\<close>)
  moreover have "attach p i n f1 p = (f p)\<lparr>n_children := pre @ [n] @ post\<rparr>"
    using same p ne by (simp add: eq)
  moreover have "\<forall>q \<in> A - {p}. attach p i n f1 q = f q"
    using same \<open>n \<notin> A\<close> by (auto simp: eq)
  ultimately show "grows A f p pre [t] post A1 (attach p i n f1)"
    using wf_attach_root [OF wf root ne p1 n, of i] sub p cs
    unfolding grows_def by (intro conjI exI [of _ "[n]"]) auto
qed

lemma attach_last_eq:
  assumes "wf_view A f" and "n_parent (f c) = None"
  shows "attach_last p c f = attach p (length (n_children (f p))) c f"
  by (simp add: attach_last_def detach_root [OF assms])

lemma builds_attach_last:
  assumes "builds A f n t A1 f1" and "p \<in> A"
  shows "adds A f p [t] A1 (attach_last p n f1)"
proof -
  have "f1 p = f p" using assms by (simp add: builds_def)
  then have "attach_last p n f1 = attach p (length (n_children (f p))) n f1"
    using assms(1) attach_last_eq [of A1 f1 n p] by (simp add: builds_def)
  then show ?thesis using builds_attach(1) [OF assms, of _ "[]"] by simp
qed

text \<open>Building inside out: a tree appended to the root of a tree that is still detached.\<close>

lemma builds_nested:
  assumes n: "builds A f n (XT t as tx cs) A1 f1" and a: "grows A1 f1 n (n_children (f1 n)) us [] A2 f2"
  shows "builds A f n (XT t as tx (cs @ us)) A2 f2"
proof -
  from n have sub: "A \<subseteq> A1" and same: "\<forall>q \<in> A. f1 q = f q" and root: "n_parent (f1 n) = None"
    and tree: "has_tree (A1 - A) f1 n (XT t as tx cs)" by (auto simp: builds_def)
  from a obtain ns where wf2: "wf_view A2 f2" and sub2: "A1 \<subseteq> A2" and same2: "\<forall>q \<in> A1 - {n}. f2 q = f1 q"
    and f2: "f2 n = (f1 n)\<lparr>n_children := n_children (f1 n) @ ns\<rparr>" and new: "has_trees (A2 - A1) f2 ns us"
    by (auto simp: grows_def)
  have nA: "n \<notin> A" using has_tree_root [OF tree] by simp
  have wf1: "wf_view A1 f1" using n by (simp add: builds_def)
  have "has_trees (A1 - A - {n}) f1 (n_children (f1 n)) cs"
    using tree root wf1 by (auto intro: has_trees_without_root)
  then have "has_trees (A2 - A) f2 (n_children (f1 n)) cs"
    using has_tree_frame(2) [of "A1 - A - {n}" "A2 - A" f2 f1] sub2 same2 by auto
  moreover have "has_trees (A2 - A) f2 ns us"
    using has_tree_frame(2) [of "A2 - A1" "A2 - A" f2 f2] sub new by auto
  ultimately have "has_tree (A2 - A) f2 n (XT t as tx (cs @ us))"
    using tree f2 sub2 by (auto intro: has_trees_append)
  moreover have "\<forall>q \<in> A. f2 q = f q" using same same2 sub nA by (metis DiffI empty_iff insert_iff subsetD)
  ultimately show ?thesis
    using wf2 sub sub2 f2 root by (auto simp: builds_def)
qed

text \<open>A node has one tree, and is not inside the trees below it.\<close>

lemma has_tree_unique:
  "has_tree S f n t \<Longrightarrow> has_tree S f n t' \<Longrightarrow> t = t'"
  "has_trees S f ns ts \<Longrightarrow> has_trees S f ns ts' \<Longrightarrow> ts = ts'"
proof (induction S f n t and S f ns ts arbitrary: t' and ts' rule: has_tree_has_trees.induct)
  case (1 S f n t as tx ts)
  then show ?case by (cases t') auto
next
  case (2 S f ns)
  then show ?case by (cases ts') auto
next
  case (3 S f ns t ts)
  then show ?case by (cases ts') auto
qed

lemma has_tree_smaller:
  "has_tree S f m u \<Longrightarrow> has_tree S f n t \<Longrightarrow> size u < size t \<Longrightarrow> has_tree (S - {n}) f m u"
  "has_trees S f ms us \<Longrightarrow> has_tree S f n t \<Longrightarrow> size_list size us < size t \<Longrightarrow> has_trees (S - {n}) f ms us"
proof (induction S f m u and S f ms us rule: has_tree_has_trees.induct)
  case (1 S f m t' as tx ts)
  have "m \<noteq> n"
    using has_tree_unique(1) [OF 1(2), of t] 1(3,4) by auto
  with 1 show ?case by auto
qed auto

text \<open>Growing the root of a tree that was just added below \<open>p\<close>.\<close>

lemma has_tree_grows:
  assumes tree: "has_tree (A1 - A) f1 c (XT t as tx cs)" and a: "adds A1 f1 c us A2 f2" and sub: "A \<subseteq> A1"
  shows "has_tree (A2 - A) f2 c (XT t as tx (cs @ us))"
proof -
  from a obtain ns where A2: "A1 \<subseteq> A2" "\<forall>q \<in> A1 - {c}. f2 q = f1 q"
    and f2: "f2 c = (f1 c)\<lparr>n_children := n_children (f1 c) @ ns\<rparr>" "has_trees (A2 - A1) f2 ns us"
    by (auto simp: grows_def)
  have "has_trees (A1 - A - {c}) f1 (n_children (f1 c)) cs"
    using has_tree_smaller(2) [OF _ tree, of "n_children (f1 c)" cs] tree by simp
  then have "has_trees (A2 - A) f2 (n_children (f1 c)) cs"
    using has_tree_frame(2) [of "A1 - A - {c}" "A2 - A" f2 f1] A2 by auto
  moreover have "has_trees (A2 - A) f2 ns us"
    using has_tree_frame(2) [of "A2 - A1" "A2 - A" f2 f2] sub f2(2) by auto
  ultimately show ?thesis
    using tree f2(1) A2(1) by (auto intro: has_trees_append)
qed

lemma wf_detach:
  assumes "wf_view A f" shows "wf_view A (detach c f)"
  using assms by (auto simp: wf_view_def detach_def distinct_removeAll)

subsection \<open>Location paths\<close>

text \<open>
  The queries of the scripts are mostly paths of child steps, each a tag and possibly attribute
  tests.  \<open>xwalk\<close> and \<open>xabs\<close> are what such a path selects, \<open>render_path\<close> is its text, and
  \<open>xpath_law\<close> says that the query language evaluates that text as the path.
\<close>

type_synonym xstep = "string \<times> (string \<times> string) list"

definition step_ok :: "'n view \<Rightarrow> xstep \<Rightarrow> 'n \<Rightarrow> bool" where
  "step_ok f s c \<longleftrightarrow> n_tag (f c) = fst s \<and> list_all (\<lambda>(k, v). map_of (n_attrib (f c)) k = Some v) (snd s)"

fun xwalk :: "'n view \<Rightarrow> 'n \<Rightarrow> xstep list \<Rightarrow> 'n list" where
  "xwalk f n [] = [n]"
| "xwalk f n (s # ss) = concat (map (\<lambda>c. xwalk f c ss) (filter (step_ok f s) (n_children (f n))))"

fun xabs :: "'n view \<Rightarrow> 'n \<Rightarrow> xstep list \<Rightarrow> 'n list" where
  "xabs f n [] = []"
| "xabs f n (s # ss) = (if step_ok f s n then xwalk f n ss else [])"

definition render_step :: "xstep \<Rightarrow> string" where
  "render_step s = fst s @ concat (map (\<lambda>(k, v). ''[@'' @ k @ ''='' @ sq v @ '']'') (snd s))"

definition render_path :: "xstep list \<Rightarrow> string" where
  "render_path ss = concat (map (\<lambda>s. ''/'' @ render_step s) ss)"

definition xpath_law :: "('h, 'n) lxml \<Rightarrow> xstep list \<Rightarrow> bool" where
  "xpath_law E ss \<longleftrightarrow>
     (\<forall>h n. n_parent (x_node E h n) = None \<longrightarrow> x_xpath E h n (render_path ss) = Inr (xabs (x_node E h) n ss))"

text \<open>The same for a path relative to the node, written without the leading slash.\<close>

definition xpath_rel_law :: "('h, 'n) lxml \<Rightarrow> xstep list \<Rightarrow> bool" where
  "xpath_rel_law E ss \<longleftrightarrow> (\<forall>h n. x_xpath E h n (tl (render_path ss)) = Inr (xwalk (x_node E h) n ss))"

text \<open>Growing a node that the path does not step through leaves the selection as it is.\<close>

lemma xwalk_grows:
  assumes g: "grows A f p pre us post A' f'" and wf: "wf_view A f"
  shows "n \<in> A \<Longrightarrow> ss \<noteq> [] \<Longrightarrow> n \<noteq> p \<Longrightarrow> n_tag (f p) \<notin> fst ` set (butlast ss) \<Longrightarrow>
         xwalk f' n ss = xwalk f n ss"
proof (induction ss arbitrary: n)
  case (Cons s ss)
  have kids: "n_children (f' n) = n_children (f n)" "set (n_children (f n)) \<subseteq> A"
    using adds_other [OF g Cons.prems(1,3)] wf_viewD(2) [OF wf] by auto
  have step: "step_ok f' s c = step_ok f s c" if "c \<in> A" for c
    using that g by (cases "c = p") (auto simp: step_ok_def grows_def)
  have walk: "xwalk f' c ss = xwalk f c ss" if "c \<in> A" "step_ok f s c" for c
  proof (cases ss)
    case (Cons s' ss')
    have "n_tag (f p) \<noteq> fst s" "n_tag (f p) \<notin> fst ` set (butlast ss)"
      using Cons.prems(4) Cons by auto
    then show ?thesis using that Cons.IH [of c] Cons by (auto simp: step_ok_def)
  qed simp
  have "filter (step_ok f' s) (n_children (f n)) = filter (step_ok f s) (n_children (f n))"
    using kids(2) step by (auto intro!: filter_cong)
  then show ?case using kids walk by (auto intro!: arg_cong [where f = concat] map_cong)
qed simp

lemma xabs_grows:
  assumes g: "grows A f p pre us post A' f'" and wf: "wf_view A f" and n: "n \<in> A" "n \<noteq> p"
    and tag: "n_tag (f p) \<notin> fst ` set (butlast (tl ss))"
  shows "xabs f' n ss = xabs f n ss"
proof (cases ss)
  case (Cons s ss')
  have "f' n = f n" using adds_other [OF g n] .
  then have "step_ok f' s n = step_ok f s n" by (simp add: step_ok_def)
  moreover have "xwalk f' n ss' = xwalk f n ss'"
  proof (cases "ss' = []")
    case False
    then show ?thesis using xwalk_grows [OF g wf n(1) _ n(2)] tag Cons by simp
  qed simp
  ultimately show ?thesis using Cons by simp
qed simp

text \<open>Nor does it matter where the view grows when no step of the path asks for a tag of the new trees.\<close>

lemma xwalk_grows_tags:
  assumes g: "grows A f p pre us post A' f'" and wf: "wf_view A f"
  shows "n \<in> A \<Longrightarrow> \<forall>u \<in> set us. xt_tag u \<notin> fst ` set ss \<Longrightarrow> xwalk f' n ss = xwalk f n ss"
proof (induction ss arbitrary: n)
  case (Cons s ss)
  obtain ns where ns: "f' p = (f p)\<lparr>n_children := pre @ ns @ post\<rparr>" "has_trees (A' - A) f' ns us"
    and kids: "n_children (f p) = pre @ post"
    using g by (auto simp: grows_def)
  have step: "step_ok f' s c = step_ok f s c" if "c \<in> A" for c
    using that g by (cases "c = p") (auto simp: step_ok_def grows_def)
  have new: "\<not> step_ok f' s c" if c: "c \<in> set ns" for c
  proof -
    from c obtain i where i: "i < length ns" "c = ns ! i" by (auto simp: in_set_conv_nth)
    then have i': "i < length us" using has_trees_length [OF ns(2)] by simp
    then have "has_tree (A' - A) f' c (us ! i)" using has_trees_nth [OF ns(2)] i(2) by simp
    then have "n_tag (f' c) = xt_tag (us ! i)" by (cases "us ! i") simp
    then show ?thesis using Cons.prems(2) nth_mem [OF i'] by (auto simp: step_ok_def)
  qed
  have sub: "set (n_children (f n)) \<subseteq> A" by (rule wf_viewD(2) [OF wf])
  have old: "filter (step_ok f' s) xs = filter (step_ok f s) xs" if "set xs \<subseteq> A" for xs
    using that step by (auto intro!: filter_cong)
  have "filter (step_ok f' s) (n_children (f' n)) = filter (step_ok f s) (n_children (f n))"
  proof (cases "n = p")
    case True
    have "filter (step_ok f' s) ns = []" using new by (simp add: filter_empty_conv)
    then show ?thesis using True ns(1) kids old sub by simp
  next
    case False
    then show ?thesis using adds_other [OF g Cons.prems(1)] old [OF sub] by simp
  qed
  moreover have "xwalk f' c ss = xwalk f c ss" if "c \<in> set (n_children (f n))" for c
    using that sub Cons.IH [of c] Cons.prems(2) by auto
  ultimately show ?case by (auto intro!: arg_cong [where f = concat] map_cong)
qed simp

lemma xabs_grows_tags:
  assumes g: "grows A f p pre us post A' f'" and wf: "wf_view A f" and n: "n \<in> A"
    and tag: "\<forall>u \<in> set us. xt_tag u \<notin> fst ` set ss"
  shows "xabs f' n ss = xabs f n ss"
proof (cases ss)
  case (Cons s ss')
  have "step_ok f' s n = step_ok f s n"
    using n g by (cases "n = p") (auto simp: step_ok_def grows_def)
  then show ?thesis using xwalk_grows_tags [OF g wf n, of ss'] tag Cons by auto
qed simp

lemma xwalk_mem: "wf_view A f \<Longrightarrow> n \<in> A \<Longrightarrow> set (xwalk f n ss) \<subseteq> A"
proof (induction ss arbitrary: n)
  case (Cons s ss)
  then show ?case using wf_viewD(2) [OF Cons.prems(1), of n] by auto
qed simp

text \<open>A path selects no node twice: the nodes below two different nodes differ.\<close>

lemma xwalk_distinct: "wf_view A f \<Longrightarrow> distinct (xwalk f n ss)"
proof -
  assume wf: "wf_view A f"
  have up: "(up ^^ length ss) (Some c) = Some n"
    if "c \<in> set (xwalk f n ss)" "up = (\<lambda>x. Option.bind x (\<lambda>m. n_parent (f m)))" for c n ss up
    using that
  proof (induction ss arbitrary: n)
    case (Cons s ss)
    then obtain m where "m \<in> set (n_children (f n))" "c \<in> set (xwalk f m ss)" by auto
    then show ?case using Cons.IH [of m] Cons.prems(2) wf_viewD(4) [OF wf] by simp
  qed simp
  show "distinct (xwalk f n ss)"
  proof (induction ss arbitrary: n)
    case (Cons s ss)
    let ?ms = "filter (step_ok f s) (n_children (f n))"
    have disj: "set (xwalk f a ss) \<inter> set (xwalk f b ss) = {}" if "a \<noteq> b" for a b
      using up [of _ a ss] up [of _ b ss] that by fastforce
    have "distinct (concat (map (\<lambda>c. xwalk f c ss) ms))" if "distinct ms" for ms
      using that
    proof (induction ms)
      case (Cons a ms)
      then have "set (xwalk f a ss) \<inter> set (xwalk f b ss) = {}" if "b \<in> set ms" for b using that disj [of a b] by auto
      then show ?case using Cons \<open>\<And>n. distinct (xwalk f n ss)\<close> by auto
    qed simp
    moreover have "distinct ?ms" using wf_viewD(1) [OF wf] by simp
    ultimately show ?case by simp
  qed simp
qed

lemma xabs_mem: "wf_view A f \<Longrightarrow> n \<in> A \<Longrightarrow> set (xabs f n ss) \<subseteq> A"
  by (cases ss) (auto dest: xwalk_mem)

text \<open>What is selected matches the last step.\<close>

lemma xwalk_last: "ss \<noteq> [] \<Longrightarrow> c \<in> set (xwalk f n ss) \<Longrightarrow> step_ok f (last ss) c"
proof (induction ss arbitrary: n)
  case (Cons s ss)
  then show ?case by (cases "ss = []") auto
qed simp

lemma xabs_last: "c \<in> set (xabs f n ss) \<Longrightarrow> step_ok f (last ss) c"
  by (cases ss rule: list.exhaust; cases "tl ss = []") (auto dest: xwalk_last split: if_splits)

subsection \<open>The same relations between worlds\<close>

definition ok_world :: "('h, 'n) lxml \<Rightarrow> ('h \<Rightarrow> 'n set) \<Rightarrow> 'h world \<Rightarrow> bool" where
  "ok_world E nodes w \<longleftrightarrow> wf_view (nodes (w_heap w)) (x_node E (w_heap w))"

definition wbuilds :: "('h, 'n) lxml \<Rightarrow> ('h \<Rightarrow> 'n set) \<Rightarrow> 'h world \<Rightarrow> 'n \<Rightarrow> xtree \<Rightarrow> 'h world \<Rightarrow> bool" where
  "wbuilds E nodes w n t w' \<longleftrightarrow>
     builds (nodes (w_heap w)) (x_node E (w_heap w)) n t (nodes (w_heap w')) (x_node E (w_heap w'))
     \<and> same_fs w w'"

definition wgrows :: "('h, 'n) lxml \<Rightarrow> ('h \<Rightarrow> 'n set) \<Rightarrow> 'h world \<Rightarrow> 'n \<Rightarrow> 'n list \<Rightarrow> xtree list \<Rightarrow> 'n list \<Rightarrow> 'h world \<Rightarrow> bool" where
  "wgrows E nodes w p pre ts post w' \<longleftrightarrow>
     grows (nodes (w_heap w)) (x_node E (w_heap w)) p pre ts post (nodes (w_heap w')) (x_node E (w_heap w'))
     \<and> same_fs w w'"

abbreviation wadds :: "('h, 'n) lxml \<Rightarrow> ('h \<Rightarrow> 'n set) \<Rightarrow> 'h world \<Rightarrow> 'n \<Rightarrow> xtree list \<Rightarrow> 'h world \<Rightarrow> bool" where
  "wadds E nodes w p ts w' \<equiv> wgrows E nodes w p (n_children (x_node E (w_heap w) p)) ts [] w'"

lemma same_fs_out [simp]:
  "same_fs (w\<lparr>w_out := o1\<rparr>) w' = same_fs w w'" "same_fs w (w'\<lparr>w_out := o1\<rparr>) = same_fs w w'"
  "same_fs w (w'\<lparr>w_heap := h\<rparr>) = same_fs w w'"
  by (simp_all add: same_fs_def)

lemma world_out [simp]:
  "ok_world E nodes (w\<lparr>w_out := o1\<rparr>) = ok_world E nodes w"
  "wbuilds E nodes (w\<lparr>w_out := o1\<rparr>) n t w' = wbuilds E nodes w n t w'"
  "wbuilds E nodes w n t (w'\<lparr>w_out := o1\<rparr>) = wbuilds E nodes w n t w'"
  "wgrows E nodes (w\<lparr>w_out := o1\<rparr>) p pre ts post w' = wgrows E nodes w p pre ts post w'"
  "wgrows E nodes w p pre ts post (w'\<lparr>w_out := o1\<rparr>) = wgrows E nodes w p pre ts post w'"
  by (simp_all add: ok_world_def wbuilds_def wgrows_def)

lemma wadds_trans:
  "wadds E nodes w p ts w1 \<Longrightarrow> wadds E nodes w1 p us w2 \<Longrightarrow> wadds E nodes w p (ts @ us) w2"
  unfolding wgrows_def by (auto intro: adds_trans same_fs_trans)

lemma wadds_refl: "ok_world E nodes w \<Longrightarrow> p \<in> nodes (w_heap w) \<Longrightarrow> wadds E nodes w p [] w"
  unfolding wgrows_def by (simp add: ok_world_def adds_refl)

lemma wgrows_ok: "wgrows E nodes w p pre ts post w' \<Longrightarrow> ok_world E nodes w'"
  by (auto simp: wgrows_def ok_world_def dest: adds_wf)

lemma wgrows_mem: "wgrows E nodes w p pre ts post w' \<Longrightarrow> q \<in> nodes (w_heap w) \<Longrightarrow> q \<in> nodes (w_heap w')"
  by (auto simp: wgrows_def dest: adds_mem)

lemma wgrows_other:
  "wgrows E nodes w p pre ts post w' \<Longrightarrow> q \<in> nodes (w_heap w) \<Longrightarrow> q \<noteq> p \<Longrightarrow>
     x_node E (w_heap w') q = x_node E (w_heap w) q"
  by (auto simp: wgrows_def dest: adds_other)

text \<open>Even the grown node keeps its tag, attributes and text.\<close>

lemma wgrows_attrib:
  "wgrows E nodes w p pre ts post w' \<Longrightarrow> q \<in> nodes (w_heap w) \<Longrightarrow>
     n_attrib (x_node E (w_heap w') q) = n_attrib (x_node E (w_heap w) q)
     \<and> n_tag (x_node E (w_heap w') q) = n_tag (x_node E (w_heap w) q)
     \<and> n_text (x_node E (w_heap w') q) = n_text (x_node E (w_heap w) q)"
  by (cases "q = p") (auto simp: wgrows_def grows_def)

lemma wgrows_kid:
  assumes "wgrows E nodes w p pre ts post w'" and "ok_world E nodes w" and "m \<in> set (n_children (x_node E (w_heap w) c))"
  shows "n_attrib (x_node E (w_heap w') m) = n_attrib (x_node E (w_heap w) m)"
proof -
  have "set (n_children (x_node E (w_heap w) c)) \<subseteq> nodes (w_heap w)"
    by (rule wf_viewD(2)) (use assms(2) in \<open>simp add: ok_world_def\<close>)
  then have "m \<in> nodes (w_heap w)" using assms(3) by auto
  then show ?thesis using wgrows_attrib [OF assms(1)] by simp
qed

text \<open>A query whose path does not step through the grown node selects what it selected before.\<close>

lemma xabs_wgrows:
  assumes "wgrows E nodes w p pre ts post w'" and "ok_world E nodes w" and "doc \<in> nodes (w_heap w)"
    and "doc \<noteq> p" and "n_tag (x_node E (w_heap w) p) \<notin> fst ` set (butlast (tl ss))"
  shows "xabs (x_node E (w_heap w')) doc ss = xabs (x_node E (w_heap w)) doc ss"
  using assms xabs_grows by (metis ok_world_def wgrows_def)

lemma xabs_wgrows_tags:
  assumes "wgrows E nodes w p pre ts post w'" and "ok_world E nodes w" and "doc \<in> nodes (w_heap w)"
    and "\<forall>u \<in> set ts. xt_tag u \<notin> fst ` set ss"
  shows "xabs (x_node E (w_heap w')) doc ss = xabs (x_node E (w_heap w)) doc ss"
  using assms(1,2) by (intro xabs_grows_tags [OF _ _ assms(3,4)]) (auto simp: ok_world_def wgrows_def)

lemma xpath_law_query:
  "xpath_law E ss \<Longrightarrow> n_parent (x_node E (w_heap w) doc) = None \<Longrightarrow>
     x_xpath E (w_heap w) doc (render_path ss) = Inr (xabs (x_node E (w_heap w)) doc ss)"
  by (simp add: xpath_law_def)

lemma xabs_head_mem:
  "ok_world E nodes w \<Longrightarrow> doc \<in> nodes (w_heap w) \<Longrightarrow> xabs (x_node E (w_heap w)) doc ss = p # r \<Longrightarrow>
     p \<in> nodes (w_heap w) \<and> n_tag (x_node E (w_heap w) p) = fst (last ss)"
  using xabs_mem [of "nodes (w_heap w)" "x_node E (w_heap w)" doc ss] xabs_last [of p "x_node E (w_heap w)" doc ss]
  by (auto simp: ok_world_def step_ok_def)

lemma wbuilds_ok: "wbuilds E nodes w n t w' \<Longrightarrow> ok_world E nodes w'"
  by (simp add: wbuilds_def ok_world_def builds_def)

text \<open>The trees a loop adds, one per element, with the local variables stepping along.\<close>

fun collect :: "('s \<Rightarrow> 'a \<Rightarrow> 'b) \<Rightarrow> ('s \<Rightarrow> 'a \<Rightarrow> 's) \<Rightarrow> 's \<Rightarrow> 'a list \<Rightarrow> 'b list" where
  "collect g st s [] = []"
| "collect g st s (x # xs) = g s x # collect g st (st s x) xs"

lemma collect_snoc: "collect g st s (xs @ [x]) = collect g st s xs @ [g (foldl st s xs) x]"
  by (induction xs arbitrary: s) auto

text \<open>A loop whose body adds below \<open>p\<close> adds all of it.\<close>

lemma runs_forM_adds:
  assumes w: "ok_world E nodes w" "p \<in> nodes (w_heap w)"
    and body: "\<And>x vs v. x \<in> set xs \<Longrightarrow> wadds E nodes w p vs v \<Longrightarrow> runs (f x) v (\<lambda>_. wadds E nodes v p (g x))"
  shows "runs (forM xs f) w (\<lambda>_. wadds E nodes w p (concat (map g xs)))"
proof (rule runs_forM)
  show "wadds E nodes w p (concat (map g [])) w" using wadds_refl [OF w] by simp
next
  fix pre x post v
  assume "xs = pre @ x # post" and v: "wadds E nodes w p (concat (map g pre)) v"
  then show "runs (f x) v (\<lambda>_. wadds E nodes w p (concat (map g (pre @ [x]))))"
    using runs_mono [OF body [OF _ v]] wadds_trans [OF v] by simp
qed

lemma runs_foldM_adds:
  assumes w: "ok_world E nodes w" "p \<in> nodes (w_heap w)"
    and body: "\<And>x s vs v. x \<in> set xs \<Longrightarrow> wadds E nodes w p vs v \<Longrightarrow>
                 runs (f s x) v (\<lambda>s' v'. s' = st s x \<and> wadds E nodes v p [g s x] v')"
  shows "runs (foldM f s xs) w (\<lambda>s' w'. s' = foldl st s xs \<and> wadds E nodes w p (collect g st s xs) w')"
proof (rule runs_foldM)
  show "s = foldl st s [] \<and> wadds E nodes w p (collect g st s []) w" using wadds_refl [OF w] by simp
next
  fix pre x post t v
  assume "xs = pre @ x # post" and v: "t = foldl st s pre \<and> wadds E nodes w p (collect g st s pre) v"
  then show "runs (f t x) v (\<lambda>s' w'. s' = foldl st s (pre @ [x]) \<and> wadds E nodes w p (collect g st s (pre @ [x])) w')"
    using runs_mono [OF body [of x "collect g st s pre" v t]] wadds_trans [of E nodes w p _ v]
    by (auto simp: collect_snoc)
qed

text \<open>The same when the body adds several trees, or none.\<close>

lemma runs_foldM_adds_list:
  assumes w: "ok_world E nodes w" "p \<in> nodes (w_heap w)"
    and body: "\<And>x s vs v. x \<in> set xs \<Longrightarrow> wadds E nodes w p vs v \<Longrightarrow>
                 runs (f s x) v (\<lambda>s' v'. s' = st s x \<and> wadds E nodes v p (g s x) v')"
  shows "runs (foldM f s xs) w (\<lambda>s' w'. s' = foldl st s xs \<and> wadds E nodes w p (concat (collect g st s xs)) w')"
proof (rule runs_foldM)
  show "s = foldl st s [] \<and> wadds E nodes w p (concat (collect g st s [])) w" using wadds_refl [OF w] by simp
next
  fix pre x post t v
  assume "xs = pre @ x # post" and v: "t = foldl st s pre \<and> wadds E nodes w p (concat (collect g st s pre)) v"
  then show "runs (f t x) v (\<lambda>s' w'. s' = foldl st s (pre @ [x]) \<and> wadds E nodes w p (concat (collect g st s (pre @ [x]))) w')"
    using runs_mono [OF body [of x "concat (collect g st s pre)" v t]] wadds_trans [of E nodes w p _ v]
    by (auto simp: collect_snoc)
qed

lemma collect_map: "collect (\<lambda>_. g) st s xs = map g xs"
  by (induction xs arbitrary: s) auto

lemma collect_nth:
  "collect g (\<lambda>s x. s + k x) s xs =
     map (\<lambda>i. g (s + sum_list (map k (take i xs))) (xs ! i)) [0..<length xs]"
  for s :: int
proof (induction xs arbitrary: s)
  case (Cons x xs)
  have "[0..<length (x # xs)] = 0 # map Suc [0..<length xs]"
    by (simp add: upt_conv_Cons map_Suc_upt del: upt_Suc)
  then show ?case by (simp add: Cons.IH add.assoc)
qed simp

text \<open>The value of an attribute, as \<^verbatim>\<open>node.get(key)\<close> returns it.\<close>

abbreviation attr_of :: "('h, 'n) lxml \<Rightarrow> 'h world \<Rightarrow> 'n \<Rightarrow> string \<Rightarrow> string option" where
  "attr_of E w n k \<equiv> map_of (n_attrib (x_node E (w_heap w) n)) k"

lemma runs_xget [wp]: "runs (xget E n k) w Q \<longleftrightarrow> Q (attr_of E w n k) w"
  by (simp add: xget_def wp)

lemma runs_xtag [wp]: "runs (xtag E n) w Q \<longleftrightarrow> Q (n_tag (x_node E (w_heap w) n)) w"
  by (simp add: xtag_def wp)

lemma runs_xtext [wp]: "runs (xtext E n) w Q \<longleftrightarrow> Q (n_text (x_node E (w_heap w) n)) w"
  by (simp add: xtext_def wp)

lemma runs_xchildren [wp]: "runs (xchildren E n) w Q \<longleftrightarrow> Q (n_children (x_node E (w_heap w) n)) w"
  by (simp add: xchildren_def wp)

lemma runs_xgetparent [wp]: "runs (xgetparent E n) w Q \<longleftrightarrow> Q (n_parent (x_node E (w_heap w) n)) w"
  by (simp add: xgetparent_def wp)

lemma runs_xfindall [wp]:
  "runs (xfindall E n t) w Q \<longleftrightarrow>
     Q (filter (\<lambda>c. n_tag (x_node E (w_heap w) c) = t) (n_children (x_node E (w_heap w) n))) w"
  by (simp add: xfindall_def wp)

lemma runs_xfind [wp]:
  "runs (xfind E n t) w Q \<longleftrightarrow>
     Q (List.find (\<lambda>c. n_tag (x_node E (w_heap w) c) = t) (n_children (x_node E (w_heap w) n))) w"
  by (simp add: xfind_def wp)

lemma runs_xelements [wp]:
  "runs (xelements E n) w Q \<longleftrightarrow>
     Q (filter (\<lambda>c. n_tag (x_node E (w_heap w) c) \<noteq> []) (n_children (x_node E (w_heap w) n))) w"
  by (simp add: xelements_def wp)

lemma runs_xlook [wp]: "runs (xlook E n) w Q \<longleftrightarrow> Q (x_node E (w_heap w) n) w"
  by (simp add: xlook_def wp)

lemma runs_xattr [wp]: "runs (xattr E n k) w Q \<longleftrightarrow> (\<exists>v. attr_of E w n k = Some v \<and> Q v w)"
  by (auto simp: xattr_def wp split: option.splits)

lemma runs_xpath [wp]: "runs (xpath E n q) w Q \<longleftrightarrow> (\<exists>ns. x_xpath E (w_heap w) n q = Inr ns \<and> Q ns w)"
  by (simp add: xpath_def wp)

lemma runs_xpath0 [wp]:
  "runs (xpath0 E n q) w Q \<longleftrightarrow> (\<exists>p r. x_xpath E (w_heap w) n q = Inr (p # r) \<and> Q p w)"
  by (auto simp: xpath0_def wp)

lemma runs_xparse [wp]:
  "runs (xparse E path) w Q \<longleftrightarrow> (\<exists>c n h. w_files w path = Some c \<and> x_parse E c (w_heap w) = Inr (n, h) \<and> Q n (w\<lparr>w_heap := h\<rparr>))"
  by (auto simp: xparse_def runs_def bnd_def read_file_def split: sum.splits prod.splits option.splits)

lemma runs_xtostring [wp]: "runs (xtostring E n) w Q \<longleftrightarrow> Q (x_tostring E (w_heap w) n) w"
  by (simp add: xtostring_def wp)

subsection \<open>The laws\<close>

locale etree =
  fixes E :: "('h, 'n) lxml" and nodes :: "'h \<Rightarrow> 'n set"
  assumes element_fresh: "fst (x_element E h t as) \<notin> nodes h"
    and element_nodes: "nodes (snd (x_element E h t as)) = insert (fst (x_element E h t as)) (nodes h)"
    and element_view:
      "x_node E (snd (x_element E h t as)) = (x_node E h)(fst (x_element E h t as) := new_node t as)"
    and set_nodes: "n \<in> nodes h \<Longrightarrow> nodes (x_set E n k v h) = nodes h"
    and set_view:
      "n \<in> nodes h \<Longrightarrow> x_node E (x_set E n k v h) =
         (x_node E h)(n := (x_node E h n)\<lparr>n_attrib := upd_attr k v (n_attrib (x_node E h n))\<rparr>)"
    and del_nodes: "n \<in> nodes h \<Longrightarrow> nodes (x_del E n k h) = nodes h"
    and del_view:
      "n \<in> nodes h \<Longrightarrow> x_node E (x_del E n k h) =
         (x_node E h)(n := (x_node E h n)\<lparr>n_attrib := filter (\<lambda>(a, b). a \<noteq> k) (n_attrib (x_node E h n))\<rparr>)"
    and settext_nodes: "n \<in> nodes h \<Longrightarrow> nodes (x_settext E n s h) = nodes h"
    and settext_view:
      "n \<in> nodes h \<Longrightarrow> x_node E (x_settext E n s h) =
         (x_node E h)(n := (x_node E h n)\<lparr>n_text := Some s\<rparr>)"
    and append_nodes: "p \<in> nodes h \<Longrightarrow> c \<in> nodes h \<Longrightarrow> nodes (x_append E p c h) = nodes h"
    and append_view:
      "p \<in> nodes h \<Longrightarrow> c \<in> nodes h \<Longrightarrow> may_attach (x_node E h) p c \<Longrightarrow>
         x_node E (x_append E p c h) = attach_last p c (x_node E h)"
    and insert_nodes: "p \<in> nodes h \<Longrightarrow> c \<in> nodes h \<Longrightarrow> nodes (x_insert E p i c h) = nodes h"
    and insert_view:
      "p \<in> nodes h \<Longrightarrow> c \<in> nodes h \<Longrightarrow> may_attach (x_node E h) p c \<Longrightarrow>
         c \<notin> set (n_children (x_node E h p)) \<Longrightarrow>
         x_node E (x_insert E p i c h) = attach p i c (x_node E h)"
    and remove_nodes: "p \<in> nodes h \<Longrightarrow> nodes (x_remove E p c h) = nodes h"
    and remove_view:
      "p \<in> nodes h \<Longrightarrow> c \<in> set (n_children (x_node E h p)) \<Longrightarrow>
         x_node E (x_remove E p c h) = detach c (x_node E h)"
    and deepcopy_builds:
      "wf_view (nodes h) (x_node E h) \<Longrightarrow> has_tree (nodes h) (x_node E h) n u \<Longrightarrow>
         builds (nodes h) (x_node E h) (fst (x_deepcopy E n h)) u
           (nodes (snd (x_deepcopy E n h))) (x_node E (snd (x_deepcopy E n h)))"
    and parse_builds:
      "wf_view (nodes h) (x_node E h) \<Longrightarrow> x_parse E s h = Inr (n, h') \<Longrightarrow>
         \<exists>u. builds (nodes h) (x_node E h) n u (nodes h') (x_node E h')"

begin

lemma runs_element:
  assumes "ok_world E nodes w" and "attr_strs as = Inr as'"
    and "\<And>n w'. wbuilds E nodes w n (XT t as' None []) w' \<Longrightarrow> Q n w'"
  shows "runs (element E t as) w Q"
proof -
  let ?n = "fst (x_element E (w_heap w) t as')" and ?h = "snd (x_element E (w_heap w) t as')"
  have "element E t as w = (Inr ?n, w\<lparr>w_heap := ?h\<rparr>)"
    using assms(2) by (simp add: element_def py_simps)
  moreover have "wf_view (nodes ?h) (x_node E ?h)"
    using wf_new [OF _ element_fresh] assms(1)
    by (simp add: element_nodes element_view ok_world_def)
  then have "wbuilds E nodes w ?n (XT t as' None []) (w\<lparr>w_heap := ?h\<rparr>)"
    using element_fresh [of "w_heap w" t as']
    by (auto simp: wbuilds_def builds_def element_nodes element_view new_node_def)
  ultimately show ?thesis using assms(3) by (simp add: runs_def)
qed

text \<open>Putting a freshly built tree in its place.\<close>

lemma runs_insert_built:
  assumes b: "wbuilds E nodes w n t w1" and p: "p \<in> nodes (w_heap w)"
    and cs: "n_children (x_node E (w_heap w) p) = pre @ post" and i: "i = length pre"
    and Q: "\<And>w'. wgrows E nodes w p pre [t] post w' \<Longrightarrow> Q () w'"
  shows "runs (xinsert E p i n) w1 Q"
proof -
  let ?h1 = "w_heap w1" and ?w = "w1\<lparr>w_heap := x_insert E p i n (w_heap w1)\<rparr>"
  from b have b': "builds (nodes (w_heap w)) (x_node E (w_heap w)) n t (nodes ?h1) (x_node E ?h1)"
    by (simp add: wbuilds_def)
  note at = builds_attach [OF b' p cs i]
  have "wgrows E nodes w p pre [t] post ?w"
    using b at(1) insert_nodes [OF at(2,3)] insert_view [OF at(2,3,4,5)]
    by (simp add: wgrows_def wbuilds_def)
  then show ?thesis using Q by (auto simp: xinsert_def wp)
qed

lemma runs_append_built:
  assumes b: "wbuilds E nodes w n t w1" and p: "p \<in> nodes (w_heap w)"
    and Q: "\<And>w'. wadds E nodes w p [t] w' \<Longrightarrow> Q () w'"
  shows "runs (xappend E p n) w1 Q"
proof -
  let ?h1 = "w_heap w1" and ?w = "w1\<lparr>w_heap := x_append E p n (w_heap w1)\<rparr>"
  from b have b': "builds (nodes (w_heap w)) (x_node E (w_heap w)) n t (nodes ?h1) (x_node E ?h1)"
    by (simp add: wbuilds_def)
  note at = builds_attach [OF b' p append_Nil2 [symmetric] refl]
  have "wadds E nodes w p [t] ?w"
    using b builds_attach_last [OF b' p] append_nodes [OF at(2,3)] append_view [OF at(2,3,4)]
    by (simp add: wgrows_def wbuilds_def)
  then show ?thesis using Q by (auto simp: xappend_def wp)
qed

lemma runs_subelement:
  assumes "ok_world E nodes w" and "p \<in> nodes (w_heap w)" and "attr_strs as = Inr as'"
    and Q: "\<And>n w'. wadds E nodes w p [XT t as' None []] w' \<Longrightarrow> Q n w'"
  shows "runs (subelement E p t as) w Q"
  unfolding subelement_def runs_bnd
  by (rule runs_element [OF assms(1,3)], rule runs_append_built [OF _ assms(2)])
    (auto simp: wp intro: Q)

text \<open>The same, with what is known of the new node.\<close>

lemma runs_subelement_node:
  assumes "ok_world E nodes w" and "p \<in> nodes (w_heap w)" and "attr_strs as = Inr as'"
    and Q: "\<And>n w'. wadds E nodes w p [XT t as' None []] w' \<Longrightarrow> n \<in> nodes (w_heap w') - nodes (w_heap w) \<Longrightarrow>
              n_children (x_node E (w_heap w') p) = n_children (x_node E (w_heap w) p) @ [n] \<Longrightarrow>
              n_children (x_node E (w_heap w') n) = [] \<Longrightarrow> Q n w'"
  shows "runs (subelement E p t as) w Q"
  unfolding subelement_def runs_bnd
proof (rule runs_element [OF assms(1,3)])
  fix n w1
  assume b: "wbuilds E nodes w n (XT t as' None []) w1"
  then have n: "n \<in> nodes (w_heap w1)" "n \<notin> nodes (w_heap w)" "p \<in> nodes (w_heap w1)" "p \<noteq> n"
    and kids: "n_children (x_node E (w_heap w1) n) = []" "n_parent (x_node E (w_heap w1) n) = None"
    and wf: "wf_view (nodes (w_heap w1)) (x_node E (w_heap w1))"
    and same: "x_node E (w_heap w1) p = x_node E (w_heap w) p"
    using assms(2) by (auto simp: wbuilds_def builds_def)
  let ?w = "w1\<lparr>w_heap := x_append E p n (w_heap w1)\<rparr>"
  have "may_attach (x_node E (w_heap w1)) p n"
    using may_attach_outside [of "nodes (w_heap w1) - nodes (w_heap w)" "x_node E (w_heap w1)" n _ p] b assms(2)
    unfolding wbuilds_def builds_def by blast
  then have view: "x_node E (x_append E p n (w_heap w1)) = attach_last p n (x_node E (w_heap w1))"
    and nodes: "nodes (x_append E p n (w_heap w1)) = nodes (w_heap w1)"
    using append_view [OF n(3,1)] append_nodes [OF n(3,1)] by simp_all
  have "runs (xappend E p n) w1 (\<lambda>_. wadds E nodes w p [XT t as' None []])"
    by (rule runs_append_built [OF b assms(2)])
  then have "wadds E nodes w p [XT t as' None []] ?w" by (simp add: xappend_def wp)
  then have "Q n ?w"
    by (rule Q) (use n kids same in \<open>simp_all add: nodes view attach_last_root [OF wf kids(2) n(4)]\<close>)
  then show "runs (xappend E p n) w1 (\<lambda>x w1. runs (ret n) w1 Q)" by (simp add: xappend_def wp)
qed

text \<open>The same for the root of a tree that is not yet in a document.\<close>

lemma wbuilds_nested:
  "wbuilds E nodes w n (XT t as tx cs) w1 \<Longrightarrow> wadds E nodes w1 n us w2 \<Longrightarrow>
     wbuilds E nodes w n (XT t as tx (cs @ us)) w2"
  unfolding wbuilds_def wgrows_def by (auto intro: builds_nested same_fs_trans)

lemma wbuilds_mem: "wbuilds E nodes w n t w' \<Longrightarrow> n \<in> nodes (w_heap w')"
  by (auto simp: wbuilds_def builds_def dest: has_tree_root)

lemma runs_subelement_built:
  assumes b: "wbuilds E nodes w n (XT t as tx cs) w1" and "attr_strs bs = Inr bs'"
    and Q: "\<And>m w'. wbuilds E nodes w n (XT t as tx (cs @ [XT u bs' None []])) w' \<Longrightarrow> Q m w'"
  shows "runs (subelement E n u bs) w1 Q"
  by (rule runs_subelement [OF wbuilds_ok [OF b] wbuilds_mem [OF b] assms(2)])
    (rule Q, erule wbuilds_nested [OF b])

lemma runs_append_nested:
  assumes n: "wbuilds E nodes w n (XT t as tx cs) w1" and m: "wbuilds E nodes w1 m u w2"
    and Q: "\<And>w'. wbuilds E nodes w n (XT t as tx (cs @ [u])) w' \<Longrightarrow> Q () w'"
  shows "runs (xappend E n m) w2 Q"
  by (rule runs_append_built [OF m wbuilds_mem [OF n]]) (rule Q, erule wbuilds_nested [OF n])

end

end
