(* ===== verification/Etree_Ref.thy ===== *)
theory Etree_Ref
  imports Etree
begin

text \<open>
  A reference heap that satisfies the laws of \<open>etree\<close>: nodes are numbers, allocated in
  order.  It is a parameter of nothing in the scripts; it shows that the laws can hold
  together and is the concrete instance at which the theorems are applied.  What a file
  parses to and what a query selects stay parameters of the instance (\<open>docs\<close>, \<open>xq\<close>).
\<close>

record rheap =
  r_next :: nat
  r_view :: "nat view"

definition ref_nodes :: "rheap \<Rightarrow> nat set" where
  "ref_nodes h = {n. n < r_next h}"

definition ref_new :: "rheap \<Rightarrow> string \<Rightarrow> (string \<times> string) list \<Rightarrow> nat \<times> rheap" where
  "ref_new h t as =
     (r_next h, h\<lparr>r_next := Suc (r_next h), r_view := (r_view h)(r_next h := new_node t as)\<rparr>)"

definition ref_map :: "(nat view \<Rightarrow> nat view) \<Rightarrow> rheap \<Rightarrow> rheap" where
  "ref_map g h = h\<lparr>r_view := g (r_view h)\<rparr>"

text \<open>Building a tree from scratch, and reading the tree below a node.\<close>

fun ref_build :: "xtree \<Rightarrow> rheap \<Rightarrow> nat \<times> rheap"
  and ref_builds :: "nat \<Rightarrow> xtree list \<Rightarrow> rheap \<Rightarrow> rheap" where
  "ref_build (XT t as tx ts) h =
     (let (n, h1) = ref_new h t as;
          h2 = ref_map (\<lambda>f. f(n := (f n)\<lparr>n_text := tx\<rparr>)) h1
      in (n, ref_builds n ts h2))"
| "ref_builds p [] h = h"
| "ref_builds p (t # ts) h =
     (let (m, h1) = ref_build t h
      in ref_builds p ts (ref_map (attach_last p m) h1))"

fun ref_reify :: "nat \<Rightarrow> nat view \<Rightarrow> nat \<Rightarrow> xtree" where
  "ref_reify 0 f n = XT (n_tag (f n)) (n_attrib (f n)) (n_text (f n)) []"
| "ref_reify (Suc k) f n =
     XT (n_tag (f n)) (n_attrib (f n)) (n_text (f n)) (map (ref_reify k f) (n_children (f n)))"

definition ref_lxml ::
  "(string \<Rightarrow> xtree option) \<Rightarrow> (nat view \<Rightarrow> nat \<Rightarrow> string \<Rightarrow> pyerr + nat list) \<Rightarrow> (rheap, nat) lxml" where
  "ref_lxml docs xq =
     \<lparr>x_node = r_view,
      x_xpath = (\<lambda>h n q. xq (r_view h) n q),
      x_element = ref_new,
      x_set = (\<lambda>n k v. ref_map (\<lambda>f. f(n := (f n)\<lparr>n_attrib := upd_attr k v (n_attrib (f n))\<rparr>))),
      x_del = (\<lambda>n k. ref_map (\<lambda>f. f(n := (f n)\<lparr>n_attrib := filter (\<lambda>(a, b). a \<noteq> k) (n_attrib (f n))\<rparr>))),
      x_settext = (\<lambda>n s. ref_map (\<lambda>f. f(n := (f n)\<lparr>n_text := Some s\<rparr>))),
      x_insert = (\<lambda>p i c. ref_map (attach p i c)),
      x_append = (\<lambda>p c. ref_map (attach_last p c)),
      x_remove = (\<lambda>p c. ref_map (detach c)),
      x_deepcopy = (\<lambda>n h. ref_build (ref_reify (r_next h) (r_view h) n) h),
      x_parse = (\<lambda>s h. case docs s of None \<Rightarrow> Inl XMLError | Some t \<Rightarrow> Inr (ref_build t h)),
      x_tostring = (\<lambda>h n. n_tag (r_view h n))\<rparr>"

subsection \<open>Building\<close>

lemma ref_new_builds:
  assumes "wf_view (ref_nodes h) (r_view h)"
  shows "builds (ref_nodes h) (r_view h) (fst (ref_new h t as)) (XT t as None [])
           (ref_nodes (snd (ref_new h t as))) (r_view (snd (ref_new h t as)))"
proof -
  have "ref_nodes (snd (ref_new h t as)) = insert (r_next h) (ref_nodes h)"
    by (auto simp: ref_nodes_def ref_new_def)
  then show ?thesis
    using wf_new [OF assms, of "r_next h" t as]
    by (auto simp: builds_def ref_new_def ref_nodes_def new_node_def)
qed

lemma builds_settext:
  assumes "builds A f n (XT t as tx cs) A1 f1"
  shows "builds A f n (XT t as tx' cs) A1 (f1(n := (f1 n)\<lparr>n_text := tx'\<rparr>))"
proof -
  have wf: "wf_view A1 f1" and root: "n_parent (f1 n) = None" and tree: "has_tree (A1 - A) f1 n (XT t as tx cs)"
    using assms by (auto simp: builds_def)
  let ?g = "f1(n := (f1 n)\<lparr>n_text := tx'\<rparr>)"
  have "has_trees (A1 - A - {n}) f1 (n_children (f1 n)) cs" by (rule has_trees_without_root [OF wf root tree])
  then have "has_trees (A1 - A) ?g (n_children (f1 n)) cs"
    using has_tree_frame(2) [of "A1 - A - {n}" "A1 - A" ?g f1] by auto
  moreover have "wf_view A1 ?g" by (rule wf_view_same_links [OF wf]) auto
  ultimately show ?thesis
    using assms by (auto simp: builds_def dest: has_tree_root)
qed

lemma ref_build_builds:
  "wf_view (ref_nodes h) (r_view h) \<Longrightarrow>
     builds (ref_nodes h) (r_view h) (fst (ref_build u h)) u
       (ref_nodes (snd (ref_build u h))) (r_view (snd (ref_build u h)))"
  "wf_view (ref_nodes h) (r_view h) \<Longrightarrow> p \<in> ref_nodes h \<Longrightarrow>
     adds (ref_nodes h) (r_view h) p us (ref_nodes (ref_builds p us h)) (r_view (ref_builds p us h))"
proof (induction u h and p us h rule: ref_build_ref_builds.induct)
  case (1 t as tx ts h)
  let ?n = "fst (ref_new h t as)" and ?h1 = "snd (ref_new h t as)"
  let ?h2 = "ref_map (\<lambda>f. f(?n := (f ?n)\<lparr>n_text := tx\<rparr>)) ?h1"
  have b: "builds (ref_nodes h) (r_view h) ?n (XT t as tx []) (ref_nodes ?h2) (r_view ?h2)"
    using builds_settext [OF ref_new_builds [OF 1(2), of t as], of tx]
    by (simp add: ref_map_def ref_nodes_def)
  then have wf: "wf_view (ref_nodes ?h2) (r_view ?h2)" and mem: "?n \<in> ref_nodes ?h2"
    by (auto simp: builds_def)
  have "adds (ref_nodes ?h2) (r_view ?h2) ?n ts (ref_nodes (ref_builds ?n ts ?h2)) (r_view (ref_builds ?n ts ?h2))"
    using 1(1) [OF _ refl, of ?n ?h1] wf mem by simp
  then show ?case
    using builds_nested [OF b] by (simp add: split_def Let_def)
next
  case (2 p h)
  then show ?case by (simp add: adds_refl)
next
  case (3 p t ts h)
  let ?m = "fst (ref_build t h)" and ?h1 = "snd (ref_build t h)"
  let ?h2 = "ref_map (attach_last p ?m) ?h1"
  have "builds (ref_nodes h) (r_view h) ?m t (ref_nodes ?h1) (r_view ?h1)"
    using 3(1) [OF 3(3)] .
  then have a: "adds (ref_nodes h) (r_view h) p [t] (ref_nodes ?h2) (r_view ?h2)"
    using builds_attach_last [OF _ 3(4)] by (simp add: ref_map_def ref_nodes_def)
  have "adds (ref_nodes ?h2) (r_view ?h2) p ts (ref_nodes (ref_builds p ts ?h2)) (r_view (ref_builds p ts ?h2))"
    using 3(2) [of "(?m, ?h1)" ?m ?h1] adds_wf [OF a] adds_mem [OF a 3(4)] by simp
  then show ?case
    using adds_trans [OF a] by (simp add: split_def Let_def)
qed

subsection \<open>Reading a tree with enough fuel\<close>

lemma reify_has_tree:
  "has_tree S f n t \<Longrightarrow> finite S \<Longrightarrow> card S \<le> k \<Longrightarrow> ref_reify k f n = t"
proof (induction k arbitrary: S n t)
  case 0
  then show ?case by (auto dest: has_tree_root)
next
  case (Suc k)
  obtain t' as tx ts where t: "t = XT t' as tx ts" by (cases t)
  have n: "n \<in> S" using Suc.prems(1) by (rule has_tree_root)
  then have card: "card (S - {n}) \<le> k" using Suc.prems by (simp add: card_Diff_singleton)
  have "has_trees (S - {n}) f (n_children (f n)) ts"
    using has_tree_smaller(2) [of S f _ ts n t] Suc.prems(1) t by simp
  then have len: "length (n_children (f n)) = length ts"
    and kids: "\<forall>i < length ts. has_tree (S - {n}) f (n_children (f n) ! i) (ts ! i)"
    by (auto dest: has_trees_length has_trees_nth)
  have "map (ref_reify k f) (n_children (f n)) = ts"
    using len kids Suc.IH [of "S - {n}"] card Suc.prems(2) by (auto intro!: nth_equalityI)
  then show ?case using Suc.prems(1) t by simp
qed

interpretation ref: etree "ref_lxml docs xq" ref_nodes
proof (unfold_locales, goal_cases)
  case (16 h n u)
  have "ref_nodes h = {..< r_next h}" by (auto simp: ref_nodes_def)
  then have "ref_reify (r_next h) (r_view h) n = u"
    using reify_has_tree [of "ref_nodes h" "r_view h" n u "r_next h"] 16(2) by (simp add: ref_lxml_def)
  then show ?case using ref_build_builds(1) [of h u] 16(1) by (simp add: ref_lxml_def)
next
  case (17 h s n h')
  then show ?case
    using ref_build_builds(1) [of h] by (auto simp: ref_lxml_def split: option.splits) (metis fst_conv snd_conv)
qed (auto simp: ref_lxml_def ref_new_def ref_map_def ref_nodes_def)


subsection \<open>Small worlds\<close>

text \<open>A world whose \<open>n\<close> nodes have the given tags and attributes and no links, with no files.\<close>

definition flat_world :: "nat \<Rightarrow> (nat \<Rightarrow> string \<times> (string \<times> string) list) \<Rightarrow> rheap world" where
  "flat_world n g =
     \<lparr>w_heap = \<lparr>r_next = n, r_view = (\<lambda>i. case g i of (t, as) \<Rightarrow> new_node t as)\<rparr>,
      w_out = [], w_files = (\<lambda>_. None), w_dirs = (\<lambda>_. False)\<rparr>"

lemma ok_flat_world [simp]: "ok_world (ref_lxml docs xq) ref_nodes (flat_world n g)"
  by (auto simp: ok_world_def wf_view_def ref_lxml_def flat_world_def new_node_def split: prod.splits)

lemma flat_nodes [simp]: "i \<in> ref_nodes (w_heap (flat_world n g)) \<longleftrightarrow> i < n"
  by (simp add: ref_nodes_def flat_world_def)

lemma flat_node [simp]:
  "x_node (ref_lxml docs xq) (w_heap (flat_world n g)) i = (case g i of (t, as) \<Rightarrow> new_node t as)"
  by (simp add: ref_lxml_def flat_world_def)

lemma ref_xpath [simp]: "x_xpath (ref_lxml docs xq) h i q = xq (r_view h) i q"
  by (simp add: ref_lxml_def)


text \<open>A world whose documents are given as a table of nodes; the check of the table is a
  computation.\<close>

definition nd :: "string \<Rightarrow> (string \<times> string) list \<Rightarrow> nat list \<Rightarrow> nat option \<Rightarrow> nat xnode" where
  "nd t as cs p = \<lparr>n_tag = t, n_attrib = as, n_text = None, n_children = cs, n_parent = p\<rparr>"

definition table_view :: "nat xnode list \<Rightarrow> nat view" where
  "table_view tb n = (if n < length tb then tb ! n else new_node [] [])"

definition table_ok :: "nat xnode list \<Rightarrow> bool" where
  "table_ok tb \<longleftrightarrow>
     list_all (\<lambda>p. distinct (n_children (tb ! p))
                   \<and> list_all (\<lambda>c. c < length tb \<and> n_parent (tb ! c) = Some p) (n_children (tb ! p))
                   \<and> (case n_parent (tb ! p) of
                        None \<Rightarrow> True
                      | Some q \<Rightarrow> q < length tb \<and> List.member (n_children (tb ! q)) p)) [0..<length tb]"

definition table_world :: "nat xnode list \<Rightarrow> rheap world" where
  "table_world tb =
     \<lparr>w_heap = \<lparr>r_next = length tb, r_view = table_view tb\<rparr>,
      w_out = [], w_files = (\<lambda>_. None), w_dirs = (\<lambda>_. False)\<rparr>"

lemma table_view_wf:
  assumes "table_ok tb"
  shows "wf_view {n. n < length tb} (table_view tb)"
proof -
  have row: "distinct (n_children (tb ! p))" "c \<in> set (n_children (tb ! p)) \<Longrightarrow> c < length tb \<and> n_parent (tb ! c) = Some p"
    "n_parent (tb ! p) = Some q \<Longrightarrow> q < length tb \<and> p \<in> set (n_children (tb ! q))" if "p < length tb" for p c q
    using assms that by (auto simp: table_ok_def list_all_iff dest!: bspec [where x = p])
  show ?thesis
    unfolding wf_view_def
  proof (intro conjI allI impI)
    fix p c
    show "c \<in> set (n_children (table_view tb p)) \<longleftrightarrow> n_parent (table_view tb c) = Some p"
      by (cases "p < length tb"; cases "c < length tb") (auto simp: table_view_def new_node_def dest: row)
  qed (auto simp: table_view_def new_node_def dest: row)
qed

lemma ok_table_world: "table_ok tb \<Longrightarrow> ok_world (ref_lxml docs xq) ref_nodes (table_world tb)"
  using table_view_wf by (simp add: ok_world_def ref_lxml_def table_world_def ref_nodes_def)

lemma table_nodes [simp]: "i \<in> ref_nodes (w_heap (table_world tb)) \<longleftrightarrow> i < length tb"
  by (simp add: ref_nodes_def table_world_def)

lemma table_node [simp]: "x_node (ref_lxml docs xq) (w_heap (table_world tb)) = table_view tb"
  by (simp add: ref_lxml_def table_world_def)

text \<open>What a file parses to in a world without nodes.\<close>

definition demo_parsed :: "xtree \<Rightarrow> nat \<times> rheap" where
  "demo_parsed u = ref_build u \<lparr>r_next = 0, r_view = (\<lambda>_. new_node [] [])\<rparr>"

lemma demo_parsed_built:
  "wf_view (ref_nodes (snd (demo_parsed u))) (r_view (snd (demo_parsed u)))"
  "has_tree (ref_nodes (snd (demo_parsed u))) (r_view (snd (demo_parsed u))) (fst (demo_parsed u)) u"
proof -
  let ?h = "\<lparr>r_next = 0, r_view = (\<lambda>_. new_node [] [])\<rparr>"
  have "wf_view (ref_nodes ?h) (r_view ?h)" by (auto simp: wf_view_def new_node_def)
  from ref_build_builds(1) [OF this, of u]
  show "wf_view (ref_nodes (snd (demo_parsed u))) (r_view (snd (demo_parsed u)))"
    "has_tree (ref_nodes (snd (demo_parsed u))) (r_view (snd (demo_parsed u))) (fst (demo_parsed u)) u"
    by (auto simp: builds_def demo_parsed_def ref_nodes_def)
qed

text \<open>A world without nodes, with the files \<open>fs\<close>.\<close>

definition files_world :: "(string \<rightharpoonup> string) \<Rightarrow> rheap world" where
  "files_world fs = (flat_world 0 (\<lambda>_. ([], [])))\<lparr>w_files := fs\<rparr>"

lemma files_world_parse:
  "x_parse (ref_lxml (\<lambda>_. Some u) xq) c (w_heap (files_world fs)) = Inr (fst (demo_parsed u), snd (demo_parsed u))"
  by (simp add: ref_lxml_def demo_parsed_def files_world_def flat_world_def new_node_def)

text \<open>The queries of the given paths, evaluated as the paths say.\<close>

definition path_query :: "xstep list list \<Rightarrow> nat view \<Rightarrow> nat \<Rightarrow> string \<Rightarrow> pyerr + nat list" where
  "path_query ps f n q =
     (case List.find (\<lambda>ss. render_path ss = q) ps of None \<Rightarrow> Inl XMLError | Some ss \<Rightarrow> Inr (xabs f n ss))"

lemma path_query_law:
  assumes "ss \<in> set ps" and "\<And>s'. s' \<in> set ps \<Longrightarrow> render_path s' = render_path ss \<Longrightarrow> s' = ss"
  shows "xpath_law (ref_lxml docs (path_query ps)) ss"
proof -
  have "List.find (\<lambda>s'. render_path s' = render_path ss) ps = Some ss"
    using assms by (induction ps) auto
  then show ?thesis by (simp add: xpath_law_def path_query_def) (simp add: ref_lxml_def)
qed

text \<open>Queries of relative paths, evaluated as the paths say.\<close>

definition rel_query :: "xstep list list \<Rightarrow> nat view \<Rightarrow> nat \<Rightarrow> string \<Rightarrow> pyerr + nat list" where
  "rel_query ps f n q =
     (case List.find (\<lambda>ss. tl (render_path ss) = q) ps of None \<Rightarrow> Inl XMLError | Some ss \<Rightarrow> Inr (xwalk f n ss))"

lemma rel_query_law:
  assumes "ss \<in> set ps" and "\<And>s'. s' \<in> set ps \<Longrightarrow> tl (render_path s') = tl (render_path ss) \<Longrightarrow> s' = ss"
  shows "xpath_rel_law (ref_lxml docs (rel_query ps)) ss"
proof -
  have "List.find (\<lambda>s'. tl (render_path s') = tl (render_path ss)) ps = Some ss"
    using assms by (induction ps) auto
  then show ?thesis by (simp add: xpath_rel_law_def rel_query_def) (simp add: ref_lxml_def)
qed

end
