(* ===== verification/Compose.thy ===== *)
theory Compose
  imports Etree_Ref
begin

text \<open>
  \<^verbatim>\<open>policy/xml/mirageos/compose.py\<close>: the script that joins the component specification of a
  unikernel into the MirageOS system policy.  It adds the component, one physical channel per
  channel the component requires, the channel mappings of the unikernel subject and the
  flipped channels of the NIC Linux subject at consecutive virtual addresses, and extends the
  boot parameters.
\<close>

definition POLICY_TEMPLATE :: string where "POLICY_TEMPLATE = ''mirage-solo5.xml''"
definition COMPONENT_SPEC :: string where "COMPONENT_SPEC = ''component_unikernel.xml''"
definition SUBJECT_NAME :: string where "SUBJECT_NAME = ''unikernel''"
definition LINUX_NAME :: string where "LINUX_NAME = ''nic_linux''"
definition LINUX_BASE_ADDR :: int where "LINUX_BASE_ADDR = 0xe03000000"
definition LINUX_BOOTPARAM :: string where "LINUX_BOOTPARAM = ''unikernel_iface''"
definition OUT_SPEC_PATH :: string where "OUT_SPEC_PATH = ''../'' @ POLICY_TEMPLATE"
definition RESET_VAR_NAME :: string where "RESET_VAR_NAME = ''resetable''"

text \<open>The body of each loop is a definition of its own.\<close>

definition add_physical_channel ::
  "('h, 'n) lxml \<Rightarrow> 'n \<Rightarrow> string \<Rightarrow> 'n \<Rightarrow> ('h, unit) py" where
  "add_physical_channel E phys_channels subject_name comp_chan =
     bnd (xget E comp_chan ''logical'') (\<lambda>name.
     bnd (xget E comp_chan ''size'') (\<lambda>size.
     bnd (as_obj name) (\<lambda>name.
     let phys_name = subject_name @ ''_'' @ replace_str ''|'' ''_'' name in
     bnd (as_str size) (\<lambda>size.
     seq (print (''* Adding physical channel '' @ sq phys_name @ '' with size '' @ size)) (
     seq (subelement E phys_channels ''channel'' [(''name'', PStr phys_name), (''size'', PStr size)])
       (ret ()))))))"

definition add_physical_channels ::
  "('h, 'n) lxml \<Rightarrow> 'n \<Rightarrow> 'n list \<Rightarrow> string \<Rightarrow> ('h, unit) py" where
  "add_physical_channels E doc comp_channels subject_name =
     bnd (xpath0 E doc ''/system/channels'') (\<lambda>phys_channels.
     forM comp_channels (add_physical_channel E phys_channels subject_name))"

definition add_channel_mapping :: "('h, 'n) lxml \<Rightarrow> 'n \<Rightarrow> string \<Rightarrow> 'n \<Rightarrow> ('h, unit) py" where
  "add_channel_mapping E subj_comp subject_name comp_chan =
     bnd (xget E comp_chan ''logical'') (\<lambda>log_name.
     bnd (as_obj log_name) (\<lambda>log_name.
     let phys_name = subject_name @ ''_'' @ replace_str ''|'' ''_'' log_name in
     seq (print (''* Adding subject channel mapping for '' @ sq log_name)) (
     seq (subelement E subj_comp ''map'' [(''logical'', PStr log_name), (''physical'', PStr phys_name)])
       (ret ()))))"

definition add_subject_channel_mappings ::
  "('h, 'n) lxml \<Rightarrow> 'n \<Rightarrow> 'n list \<Rightarrow> string \<Rightarrow> ('h, unit) py" where
  "add_subject_channel_mappings E doc comp_channels subject_name =
     bnd (xpath0 E doc (''/system/subjects/subject[@name='' @ sq subject_name @ '']/component'')) (\<lambda>subj_comp.
     forM comp_channels (add_channel_mapping E subj_comp subject_name))"

definition add_linux_channel ::
  "('h, 'n) lxml \<Rightarrow> 'n \<Rightarrow> string \<Rightarrow> int \<Rightarrow> 'n \<Rightarrow> ('h, int) py" where
  "add_linux_channel E subj_channels subject_name address comp_chan =
     bnd (xtag E comp_chan) (\<lambda>tag.
     let chan_type = (if tag = ''writer'' then ''reader'' else ''writer'') in
     bnd (xget E comp_chan ''logical'') (\<lambda>log_name.
     bnd (xget E comp_chan ''size'') (\<lambda>size.
     bnd (lift (ada_hex_to_int (of_opt size))) (\<lambda>size.
     bnd (as_obj log_name) (\<lambda>log_name.
     let phys_name = subject_name @ ''_'' @ replace_str ''|'' ''_'' log_name in
     bnd (lift (int_to_ada_hex (PInt address))) (\<lambda>addr_str.
     seq (print (''* Adding NIC Linux channel '' @ chan_type @ '' '' @ sq phys_name @ '' @ '' @ addr_str)) (
     seq (subelement E subj_channels chan_type
            [(''logical'', PStr log_name), (''physical'', PStr phys_name), (''virtualAddress'', PStr addr_str)]) (
     bnd (as_int size) (\<lambda>size.
     ret (address + size))))))))))"

definition add_linux_channels ::
  "('h, 'n) lxml \<Rightarrow> 'n \<Rightarrow> 'n list \<Rightarrow> string \<Rightarrow> ('h, unit) py" where
  "add_linux_channels E doc comp_channels subject_name =
     bnd (xpath0 E doc (''/system/subjects/subject[@name='' @ sq LINUX_NAME @ '']/channels'')) (\<lambda>subj_channels.
     seq (foldM (add_linux_channel E subj_channels subject_name) LINUX_BASE_ADDR comp_channels)
       (ret ()))"

definition copy_reset_variable :: "('h, 'n) lxml \<Rightarrow> 'n \<Rightarrow> string \<Rightarrow> ('h, unit) py" where
  "copy_reset_variable E doc subject_name =
     bnd (xpath0 E doc (''/system/components/component[@name='' @ sq subject_name
            @ '']/config/boolean[@name='' @ sq RESET_VAR_NAME @ '']'')) (\<lambda>comp_rst.
     bnd (xpath0 E doc ''/system/config'') (\<lambda>sys_config.
     bnd (xget E comp_rst ''value'') (\<lambda>value.
     seq (subelement E sys_config ''boolean''
            [(''name'', PStr (subject_name @ ''_'' @ RESET_VAR_NAME)), (''value'', of_opt value)])
       (ret ()))))"

definition extend_subject_bootparams ::
  "('h, 'n) lxml \<Rightarrow> 'n \<Rightarrow> string \<Rightarrow> string \<Rightarrow> ('h, unit) py" where
  "extend_subject_bootparams E doc subject_name bootparams =
     seq (print (''* Extending boot parameters of subject '' @ sq subject_name @ '' with '' @ sq bootparams)) (
     bnd (xpath0 E doc (''/system/subjects/subject[@name='' @ sq subject_name @ '']/bootparams'')) (\<lambda>subj_params.
     bnd (xtext E subj_params) (\<lambda>text.
     let params = (case text of
                     Some t \<Rightarrow> if length t > 0 then t @ '' '' @ bootparams else bootparams
                   | None \<Rightarrow> bootparams) in
     xsettext E subj_params params)))"

definition set_subject_bootparams ::
  "('h, 'n) lxml \<Rightarrow> 'n \<Rightarrow> 'n \<Rightarrow> string \<Rightarrow> ('h, unit) py" where
  "set_subject_bootparams E doc comp_spec subject_name =
     bnd (xpath E comp_spec (''/component/config/string'' @ ''[@name='' @ sq ''bootparams'' @ '']'')) (\<lambda>comp_params.
     if length comp_params > 0
     then bnd (first comp_params) (\<lambda>p.
          bnd (xget E p ''value'') (\<lambda>value.
          bnd (as_str value) (\<lambda>value.
          extend_subject_bootparams E doc subject_name value)))
     else ret ())"

text \<open>The interface list: the logical names of the reader channels, comma separated.\<close>

definition iface_step :: "('h, 'n) lxml \<Rightarrow> string \<Rightarrow> 'n \<Rightarrow> ('h, string) py" where
  "iface_step E ifaces comp_chan =
     bnd (xtag E comp_chan) (\<lambda>tag.
     if tag = ''reader''
     then bnd (xget E comp_chan ''logical'') (\<lambda>log_name.
          bnd (as_obj log_name) (\<lambda>log_name.
          let log_name = rstrip ''|in'' log_name;
              ifaces = (if length ifaces > 0 then ifaces @ '','' else ifaces) in
          ret (ifaces @ log_name)))
     else ret ifaces)"

definition add_linux_bootparams :: "('h, 'n) lxml \<Rightarrow> 'n \<Rightarrow> 'n list \<Rightarrow> ('h, unit) py" where
  "add_linux_bootparams E doc comp_channels =
     bnd (foldM (iface_step E) [] comp_channels) (\<lambda>ifaces.
     extend_subject_bootparams E doc LINUX_NAME (LINUX_BOOTPARAM @ ''='' @ ifaces))"

definition add_component :: "('h, 'n) lxml \<Rightarrow> 'n \<Rightarrow> 'n \<Rightarrow> ('h, unit) py" where
  "add_component E doc comp_doc =
     bnd (xpath0 E doc ''/system/components'') (\<lambda>components.
     bnd (xget E comp_doc ''name'') (\<lambda>name.
     bnd (as_str name) (\<lambda>name.
     seq (print (''* Adding component '' @ sq name)) (
     bnd (xdeepcopy E comp_doc) (\<lambda>copy.
     xappend E components copy)))))"

text \<open>The script itself.\<close>

definition compose_main :: "('h, 'n) lxml \<Rightarrow> ('h, unit) py" where
  "compose_main E =
     bnd (xparse E POLICY_TEMPLATE) (\<lambda>doc.
     bnd (xparse E COMPONENT_SPEC) (\<lambda>cspec_doc.
     bnd (xpath E cspec_doc ''/component/requires/channels/*'') (\<lambda>comp_channels.
     seq (print (''Creating system policy '' @ sq OUT_SPEC_PATH)) (
     seq (add_component E doc cspec_doc) (
     seq (add_physical_channels E doc comp_channels SUBJECT_NAME) (
     seq (add_subject_channel_mappings E doc comp_channels SUBJECT_NAME) (
     seq (add_linux_channels E doc comp_channels SUBJECT_NAME) (
     seq (add_linux_bootparams E doc comp_channels) (
     seq (set_subject_bootparams E doc cspec_doc SUBJECT_NAME) (
     seq (copy_reset_variable E doc SUBJECT_NAME) (
     seq (open_write OUT_SPEC_PATH) (
     seq (print (''Writing system policy to '' @ sq OUT_SPEC_PATH)) (
     bnd (xtostring E doc) (\<lambda>s.
     write_file OUT_SPEC_PATH s))))))))))))))"


subsection \<open>The channels\<close>

text \<open>A channel element of the component specification: its logical name and a size that is a
  valid Ada literal for a non-negative number.\<close>

definition channel_node ::
  "('h, 'n) lxml \<Rightarrow> ('h \<Rightarrow> 'n set) \<Rightarrow> 'h world \<Rightarrow> 'n \<Rightarrow> string \<Rightarrow> string \<Rightarrow> int \<Rightarrow> bool" where
  "channel_node E nodes w c l s k \<longleftrightarrow>
     c \<in> nodes (w_heap w) \<and> attr_of E w c ''logical'' = Some l \<and> attr_of E w c ''size'' = Some s
     \<and> ada_hex_to_int (PStr s) = Inr (PInt k) \<and> 0 \<le> k"

definition phys_name :: "string \<Rightarrow> string \<Rightarrow> string" where
  "phys_name subject_name l = subject_name @ ''_'' @ replace_str ''|'' ''_'' l"

definition flip_role :: "string \<Rightarrow> string" where
  "flip_role t = (if t = ''writer'' then ''reader'' else ''writer'')"

lemma channel_node_grows:
  "wgrows E nodes w p pre ts post w' \<Longrightarrow> channel_node E nodes w c l s k \<Longrightarrow> channel_node E nodes w' c l s k"
  by (auto simp: channel_node_def wgrows_mem dest: wgrows_attrib)

text \<open>The trees each of the three loops adds for one channel.\<close>

definition channel_tree :: "string \<Rightarrow> string \<Rightarrow> string \<Rightarrow> xtree" where
  "channel_tree subj l s = XT ''channel'' [(''name'', phys_name subj l), (''size'', s)] None []"

definition map_tree :: "string \<Rightarrow> string \<Rightarrow> xtree" where
  "map_tree subj l = XT ''map'' [(''logical'', l), (''physical'', phys_name subj l)] None []"

definition linux_tree :: "string \<Rightarrow> string \<Rightarrow> string \<Rightarrow> int \<Rightarrow> xtree" where
  "linux_tree subj t l a =
     XT (flip_role t)
        [(''logical'', l), (''physical'', phys_name subj l), (''virtualAddress'', int_to_ada_hex_int a)] None []"

context etree
begin

lemma runs_add_physical_channel:
  assumes w: "ok_world E nodes w" and p: "p \<in> nodes (w_heap w)" and c: "channel_node E nodes w c l s k"
  shows "runs (add_physical_channel E p subj c) w (\<lambda>_. wadds E nodes w p [channel_tree subj l s])"
  using c
  by (auto simp: add_physical_channel_def wp channel_node_def Let_def w p channel_tree_def phys_name_def
      intro!: runs_print runs_subelement)

lemma runs_add_channel_mapping:
  assumes w: "ok_world E nodes w" and p: "p \<in> nodes (w_heap w)" and c: "channel_node E nodes w c l s k"
  shows "runs (add_channel_mapping E p subj c) w (\<lambda>_. wadds E nodes w p [map_tree subj l])"
  using c
  by (auto simp: add_channel_mapping_def wp channel_node_def Let_def w p map_tree_def phys_name_def
      intro!: runs_print runs_subelement)

lemma runs_add_linux_channel:
  assumes w: "ok_world E nodes w" and p: "p \<in> nodes (w_heap w)" and c: "channel_node E nodes w c l s k"
  shows "runs (add_linux_channel E p subj a c) w
           (\<lambda>a' w'. a' = a + k \<and> wadds E nodes w p [linux_tree subj (n_tag (x_node E (w_heap w) c)) l a] w')"
  using c
  by (auto simp: add_linux_channel_def wp channel_node_def Let_def w p linux_tree_def phys_name_def flip_role_def
      intro!: runs_print runs_subelement)

lemma runs_add_physical_channels:
  assumes w: "ok_world E nodes w" and p: "p \<in> nodes (w_heap w)"
    and q: "x_xpath E (w_heap w) doc ''/system/channels'' = Inr (p # r)"
    and c: "\<And>c. c \<in> set chans \<Longrightarrow> channel_node E nodes w c (lg c) (sz c) (k c)"
  shows "runs (add_physical_channels E doc chans subj) w
           (\<lambda>_. wadds E nodes w p (map (\<lambda>c. channel_tree subj (lg c) (sz c)) chans))"
proof -
  have "runs (add_physical_channel E p subj c) v (\<lambda>_. wadds E nodes v p [channel_tree subj (lg c) (sz c)])"
    if "c \<in> set chans" "wadds E nodes w p vs v" for c vs v
    by (rule runs_add_physical_channel [OF wgrows_ok [OF that(2)] wgrows_mem [OF that(2) p]
          channel_node_grows [OF that(2) c [OF that(1)]]])
  from runs_forM_adds [OF w p this] show ?thesis
    using q by (simp add: add_physical_channels_def wp concat_map_singleton)
qed

lemma runs_add_subject_channel_mappings:
  assumes w: "ok_world E nodes w" and p: "p \<in> nodes (w_heap w)"
    and q: "x_xpath E (w_heap w) doc (''/system/subjects/subject[@name='' @ sq subj @ '']/component'') = Inr (p # r)"
    and c: "\<And>c. c \<in> set chans \<Longrightarrow> channel_node E nodes w c (lg c) (sz c) (k c)"
  shows "runs (add_subject_channel_mappings E doc chans subj) w
           (\<lambda>_. wadds E nodes w p (map (\<lambda>c. map_tree subj (lg c)) chans))"
proof -
  have "runs (add_channel_mapping E p subj c) v (\<lambda>_. wadds E nodes v p [map_tree subj (lg c)])"
    if "c \<in> set chans" "wadds E nodes w p vs v" for c vs v
    by (rule runs_add_channel_mapping [OF wgrows_ok [OF that(2)] wgrows_mem [OF that(2) p]
          channel_node_grows [OF that(2) c [OF that(1)]]])
  from runs_forM_adds [OF w p this] show ?thesis
    using q by (simp add: add_subject_channel_mappings_def wp concat_map_singleton)
qed

lemma runs_add_linux_channels:
  assumes w: "ok_world E nodes w" and p: "p \<in> nodes (w_heap w)"
    and q: "x_xpath E (w_heap w) doc (''/system/subjects/subject[@name='' @ sq LINUX_NAME @ '']/channels'') = Inr (p # r)"
    and c: "\<And>c. c \<in> set chans \<Longrightarrow> channel_node E nodes w c (lg c) (sz c) (k c)"
  shows "runs (add_linux_channels E doc chans subj) w
           (\<lambda>_. wadds E nodes w p
              (map (\<lambda>i. linux_tree subj (n_tag (x_node E (w_heap w) (chans ! i))) (lg (chans ! i))
                                  (LINUX_BASE_ADDR + sum_list (map k (take i chans)))) [0..<length chans]))"
proof -
  let ?g = "\<lambda>a c. linux_tree subj (n_tag (x_node E (w_heap w) c)) (lg c) a"
  have body: "runs (add_linux_channel E p subj a c) v (\<lambda>a' v'. a' = a + k c \<and> wadds E nodes v p [?g a c] v')"
    if "c \<in> set chans" "wadds E nodes w p vs v" for c a vs v
  proof -
    have "c \<in> nodes (w_heap w)" using c [OF that(1)] by (simp add: channel_node_def)
    then have "n_tag (x_node E (w_heap v) c) = n_tag (x_node E (w_heap w) c)"
      using wgrows_attrib [OF that(2)] by simp
    then show ?thesis
      using runs_add_linux_channel [OF wgrows_ok [OF that(2)] wgrows_mem [OF that(2) p]
          channel_node_grows [OF that(2) c [OF that(1)]], of subj a] by simp
  qed
  have "runs (foldM (add_linux_channel E p subj) LINUX_BASE_ADDR chans) w
          (\<lambda>_. wadds E nodes w p (collect ?g (\<lambda>a c. a + k c) LINUX_BASE_ADDR chans))"
    by (rule runs_mono, rule runs_foldM_adds [OF w p], erule (1) body) blast
  then show ?thesis
    using q by (simp add: add_linux_channels_def wp collect_nth)
qed

lemma runs_extend_subject_bootparams:
  assumes p: "p \<in> nodes (w_heap w)"
    and q: "x_xpath E (w_heap w) doc (''/system/subjects/subject[@name='' @ sq subj @ '']/bootparams'') = Inr (p # r)"
  shows "runs (extend_subject_bootparams E doc subj bp) w
           (\<lambda>_ w'. x_node E (w_heap w') = (x_node E (w_heap w))(p := (x_node E (w_heap w) p)
                     \<lparr>n_text := Some (case n_text (x_node E (w_heap w) p) of
                         None \<Rightarrow> bp | Some t \<Rightarrow> if t = [] then bp else t @ '' '' @ bp)\<rparr>)
                   \<and> same_fs w w')"
  using q p
  by (auto simp: extend_subject_bootparams_def wp xsettext_def settext_view Let_def
      intro!: runs_print split: option.splits)

end

subsection \<open>The interface list\<close>

lemma runs_iface_fold:
  assumes lg: "\<And>c. c \<in> set chans \<Longrightarrow> n_tag (x_node E (w_heap w) c) = ''reader'' \<Longrightarrow>
                attr_of E w c ''logical'' = Some (lg c) \<and> rstrip ''|in'' (lg c) \<noteq> []"
  shows "runs (foldM (iface_step E) [] chans) w
           (\<lambda>ifaces w'. w' = w \<and> ifaces = join_str '','' (map (\<lambda>c. rstrip ''|in'' (lg c))
                                    (filter (\<lambda>c. n_tag (x_node E (w_heap w) c) = ''reader'') chans)))"
proof (rule runs_foldM)
  fix pre c post t v
  let ?names = "\<lambda>cs. map (\<lambda>c. rstrip ''|in'' (lg c)) (filter (\<lambda>c. n_tag (x_node E (w_heap w) c) = ''reader'') cs)"
  assume split: "chans = pre @ c # post" and I: "v = w \<and> t = join_str '','' (?names pre)"
  have "set pre \<subseteq> set chans" using split by auto
  then have "\<forall>x \<in> set (?names pre). x \<noteq> []" using lg by (simp add: subset_iff)
  then have "join_str '','' (?names pre) = [] \<longleftrightarrow> ?names pre = []" by (rule join_Nil_iff)
  then have "t = [] \<longleftrightarrow> ?names pre = []" using I by simp
  then have step: "t = [] \<Longrightarrow> join_str '','' (?names pre @ [x]) = x"
    "t \<noteq> [] \<Longrightarrow> join_str '','' (?names pre @ [x]) = t @ CHR '','' # x" for x
    using I join_snoc [of "?names pre" "'',''" x] by simp_all
  from I have v: "v = w" by simp
  show "runs (iface_step E t c) v (\<lambda>t v. v = w \<and> t = join_str '','' (?names (pre @ [c])))"
  proof (cases "n_tag (x_node E (w_heap w) c) = ''reader''")
    case True
    with lg [of c] split have "attr_of E w c ''logical'' = Some (lg c)" by simp
    then show ?thesis
      using True step unfolding v by (cases "t = []") (simp_all add: iface_step_def wp)
  next
    case False
    then show ?thesis using I by (simp add: iface_step_def wp)
  qed
qed simp

subsection \<open>The script\<close>

text \<open>All statements before the output is opened.\<close>

definition compose_steps :: "('h, 'n) lxml \<Rightarrow> ('h, 'n) py" where
  "compose_steps E =
     bnd (xparse E POLICY_TEMPLATE) (\<lambda>doc.
     bnd (xparse E COMPONENT_SPEC) (\<lambda>cspec_doc.
     bnd (xpath E cspec_doc ''/component/requires/channels/*'') (\<lambda>comp_channels.
     seq (print (''Creating system policy '' @ sq OUT_SPEC_PATH)) (
     seq (add_component E doc cspec_doc) (
     seq (add_physical_channels E doc comp_channels SUBJECT_NAME) (
     seq (add_subject_channel_mappings E doc comp_channels SUBJECT_NAME) (
     seq (add_linux_channels E doc comp_channels SUBJECT_NAME) (
     seq (add_linux_bootparams E doc comp_channels) (
     seq (set_subject_bootparams E doc cspec_doc SUBJECT_NAME) (
     seq (copy_reset_variable E doc SUBJECT_NAME) (
     ret doc)))))))))))"

lemma compose_main_steps:
  "compose_main E = bnd (compose_steps E) (\<lambda>doc.
     seq (open_write OUT_SPEC_PATH) (seq (print (''Writing system policy to '' @ sq OUT_SPEC_PATH))
       (bnd (heap_get (\<lambda>h. x_tostring E h doc)) (write_file OUT_SPEC_PATH))))"
  by (simp add: compose_main_def compose_steps_def bnd_assoc ret_bnd xtostring_def)

lemma keeps_fs_extend [keeps_fs_intros]: "keeps_fs (extend_subject_bootparams E doc s b)"
  unfolding extend_subject_bootparams_def by (intro keeps_fs_intros)

lemma keeps_fs_compose_steps: "keeps_fs (compose_steps E)"
  unfolding compose_steps_def add_component_def add_physical_channels_def add_physical_channel_def
    add_subject_channel_mappings_def add_channel_mapping_def add_linux_channels_def add_linux_channel_def
    add_linux_bootparams_def iface_step_def set_subject_bootparams_def copy_reset_variable_def
  by (intro keeps_fs_intros)

subsection \<open>Properties\<close>

text \<open>C8. For a component whose channels have logical names and valid sizes,
  \<^verbatim>\<open>add_linux_channels\<close> returns normally and appends to the channels of the Linux subject
  exactly one element per component channel, in order: the role is flipped, the physical name
  is that of the physical channel, and the virtual addresses are laid out back to back from
  \<^verbatim>\<open>LINUX_BASE_ADDR\<close>: each address reads back as the base plus the sizes of the channels before
  it, so that the regions are in ascending order and do not overlap.\<close>

theorem add_linux_channels_layout:
  assumes "etree E nodes" and "ok_world E nodes w" and "p \<in> nodes (w_heap w)"
    and "x_xpath E (w_heap w) doc (''/system/subjects/subject[@name='' @ sq LINUX_NAME @ '']/channels'') = Inr (p # r)"
    and "\<And>c. c \<in> set chans \<Longrightarrow> channel_node E nodes w c (lg c) (sz c) (k c)"
  shows "\<exists>ts. runs (add_linux_channels E doc chans subj) w (\<lambda>_. wadds E nodes w p ts)
     \<and> length ts = length chans
     \<and> (\<forall>i < length chans.
          xt_tag (ts ! i) = (if n_tag (x_node E (w_heap w) (chans ! i)) = ''writer'' then ''reader'' else ''writer'')
          \<and> map_of (xt_attrib (ts ! i)) ''physical'' = Some (phys_name subj (lg (chans ! i)))
          \<and> (\<exists>a. map_of (xt_attrib (ts ! i)) ''virtualAddress'' = Some a
                \<and> ada_hex_to_int (PStr a) = Inr (PInt (LINUX_BASE_ADDR + sum_list (map k (take i chans))))))
     \<and> (\<forall>i j. i < j \<and> j < length chans \<longrightarrow>
          LINUX_BASE_ADDR + sum_list (map k (take i chans)) + k (chans ! i)
            \<le> LINUX_BASE_ADDR + sum_list (map k (take j chans)))"
proof -
  let ?a = "\<lambda>i. LINUX_BASE_ADDR + sum_list (map k (take i chans))"
  let ?ts = "map (\<lambda>i. linux_tree subj (n_tag (x_node E (w_heap w) (chans ! i))) (lg (chans ! i)) (?a i)) [0..<length chans]"
  have nonneg: "0 \<le> k c" if "c \<in> set chans" for c using assms(5) [OF that] by (simp add: channel_node_def)
  have pos: "0 < ?a i" for i
  proof -
    have "0 \<le> sum_list (map k (take i chans))"
      by (auto intro!: sum_list_nonneg nonneg dest: in_set_takeD)
    then show ?thesis by (simp add: LINUX_BASE_ADDR_def)
  qed
  have read: "ada_hex_to_int (PStr (int_to_ada_hex_int (?a i))) = Inr (PInt (?a i))" for i
    using ada_hex_roundtrip_nat [of "nat (?a i)"] pos [of i] by simp
  have mono: "?a i + k (chans ! i) \<le> ?a j" if "i < j" "j < length chans" for i j
    using sum_take_Suc_le [of i j chans k] that nonneg by simp
  have "runs (add_linux_channels E doc chans subj) w (\<lambda>_. wadds E nodes w p ?ts)"
    by (rule etree.runs_add_linux_channels [OF assms])
  then show ?thesis
    using read mono by (intro exI [of _ ?ts]) (auto simp: linux_tree_def flip_role_def)
qed

text \<open>A network device with an input and an output channel of one megabyte each.\<close>

definition demo_channels :: "rheap world" where
  "demo_channels = flat_world 3 (\<lambda>i.
     if i = 1 then (''reader'', [(''logical'', ''net0|in''), (''size'', ''16#0010_0000#'')])
     else if i = 2 then (''writer'', [(''logical'', ''net0|out''), (''size'', ''16#0010_0000#'')])
     else (''channels'', []))"

abbreviation demo_lxml :: "(rheap, nat) lxml" where
  "demo_lxml \<equiv> ref_lxml (\<lambda>_. None) (\<lambda>f n q. Inr [0])"

lemma demo_size: "ada_hex_to_int (PStr ''16#0010_0000#'') = Inr (PInt 0x100000)"
  by (simp add: ada_hex_eval)

lemma demo_channel_nodes:
  "c \<in> set [1, 2] \<Longrightarrow> channel_node demo_lxml ref_nodes demo_channels c
     (if c = 1 then ''net0|in'' else ''net0|out'') ''16#0010_0000#'' 0x100000"
  using demo_size by (auto simp: channel_node_def demo_channels_def new_node_def)

theorem add_linux_channels_layout_witness:
  "\<exists>ts. runs (add_linux_channels demo_lxml 0 [1, 2] ''unikernel'') demo_channels (\<lambda>_. wadds demo_lxml ref_nodes demo_channels 0 ts)
     \<and> length ts = 2 \<and> xt_tag (ts ! 0) = ''writer'' \<and> xt_tag (ts ! 1) = ''reader''
     \<and> map_of (xt_attrib (ts ! 0)) ''physical'' = Some ''unikernel_net0_in''
     \<and> (\<exists>a. map_of (xt_attrib (ts ! 1)) ''virtualAddress'' = Some a \<and> ada_hex_to_int (PStr a) = Inr (PInt 0xe03100000))"
proof -
  have "0 \<in> ref_nodes (w_heap demo_channels)" and "ok_world demo_lxml ref_nodes demo_channels"
    by (simp_all add: demo_channels_def)
  from add_linux_channels_layout [OF ref.etree_axioms this(2,1), of 0 "[]" "[1, 2]",
      OF _ demo_channel_nodes, where subj = "''unikernel''"]
  obtain ts where ts: "runs (add_linux_channels demo_lxml 0 [1, 2] ''unikernel'') demo_channels
                         (\<lambda>_. wadds demo_lxml ref_nodes demo_channels 0 ts)" "length ts = 2"
    and el: "\<forall>i < 2. xt_tag (ts ! i) = (if n_tag (x_node demo_lxml (w_heap demo_channels) ([1, 2] ! i)) = ''writer'' then ''reader'' else ''writer'')
          \<and> map_of (xt_attrib (ts ! i)) ''physical'' = Some (phys_name ''unikernel'' (if [1, 2] ! i = (1::nat) then ''net0|in'' else ''net0|out''))
          \<and> (\<exists>a. map_of (xt_attrib (ts ! i)) ''virtualAddress'' = Some a
                \<and> ada_hex_to_int (PStr a) = Inr (PInt (LINUX_BASE_ADDR + sum_list (map (\<lambda>_. 0x100000) (take i [1, 2::nat])))))"
    by auto
  have "phys_name ''unikernel'' ''net0|in'' = ''unikernel_net0_in''"
    by (simp add: phys_name_def replace_char_char)
  then show ?thesis
    using ts el [rule_format, of 0] el [rule_format, of 1]
    by (auto simp: demo_channels_def new_node_def LINUX_BASE_ADDR_def)
qed

definition system_channels_path :: "xstep list" where
  "system_channels_path = [(''system'', []), (''channels'', [])]"

definition subject_path :: "string \<Rightarrow> string \<Rightarrow> xstep list" where
  "subject_path name t = [(''system'', []), (''subjects'', []), (''subject'', [(''name'', name)]), (t, [])]"

lemma render_subject_path:
  "render_path (subject_path name t) = ''/system/subjects/subject[@name='' @ sq name @ '']/'' @ t"
  by (simp add: render_path_def render_step_def subject_path_def)

lemma subject_path_inner: "fst ` set (butlast (tl (subject_path name t))) = {''subjects'', ''subject''}"
  by (simp add: subject_path_def)

context etree
begin

lemma runs_compose_channels:
  assumes w: "ok_world E nodes w" and doc: "doc \<in> nodes (w_heap w)"
    and root: "n_parent (x_node E (w_heap w) doc) = None"
    and laws: "xpath_law E system_channels_path" "xpath_law E (subject_path subj ''component'')"
      "xpath_law E (subject_path LINUX_NAME ''channels'')"
    and p1: "xabs (x_node E (w_heap w)) doc system_channels_path = p1 # r1"
    and p2: "xabs (x_node E (w_heap w)) doc (subject_path subj ''component'') = p2 # r2"
    and p3: "xabs (x_node E (w_heap w)) doc (subject_path LINUX_NAME ''channels'') = p3 # r3"
    and chans: "\<And>c. c \<in> set chans \<Longrightarrow> channel_node E nodes w c (lg c) (sz c) (k c)"
  shows "runs (seq (add_physical_channels E doc chans subj)
                 (seq (add_subject_channel_mappings E doc chans subj) (add_linux_channels E doc chans subj))) w
            (\<lambda>_ w3. \<exists>w1 w2. wadds E nodes w p1 (map (\<lambda>c. channel_tree subj (lg c) (sz c)) chans) w1
               \<and> wadds E nodes w1 p2 (map (\<lambda>c. map_tree subj (lg c)) chans) w2
               \<and> wadds E nodes w2 p3 (map (\<lambda>i. linux_tree subj (n_tag (x_node E (w_heap w) (chans ! i))) (lg (chans ! i))
                                  (LINUX_BASE_ADDR + sum_list (map k (take i chans)))) [0..<length chans]) w3)"
proof -
  note path_defs = system_channels_path_def subject_path_def
  have tag: "n_tag (x_node E (w_heap w) doc) = ''system''"
    using p1 by (auto simp: path_defs step_ok_def split: if_splits)
  have mem: "p1 \<in> nodes (w_heap w)" "p2 \<in> nodes (w_heap w)" "p3 \<in> nodes (w_heap w)"
    and tags: "n_tag (x_node E (w_heap w) p1) = ''channels''" "n_tag (x_node E (w_heap w) p2) = ''component''"
    using xabs_head_mem [OF w doc p1] xabs_head_mem [OF w doc p2] xabs_head_mem [OF w doc p3]
    by (simp_all add: path_defs)
  have ne: "doc \<noteq> p1" "doc \<noteq> p2" using tag tags by auto
  have q1: "x_xpath E (w_heap w) doc ''/system/channels'' = Inr (p1 # r1)"
    using xpath_law_query [OF laws(1) root] p1 by (simp add: system_channels_path_def render_path_def render_step_def)
  have step2: "runs (add_subject_channel_mappings E doc chans subj) w1
                 (\<lambda>_. wadds E nodes w1 p2 (map (\<lambda>c. map_tree subj (lg c)) chans))"
    if g: "wadds E nodes w p1 ts w1" for ts w1
  proof (rule runs_add_subject_channel_mappings [OF wgrows_ok [OF g] wgrows_mem [OF g mem(2)]])
    have "n_parent (x_node E (w_heap w1) doc) = None" using wgrows_other [OF g doc ne(1)] root by simp
    then show "x_xpath E (w_heap w1) doc (''/system/subjects/subject[@name='' @ sq subj @ '']/component'') = Inr (p2 # r2)"
      using xpath_law_query [OF laws(2), of w1 doc] xabs_wgrows [OF g w doc ne(1), of "subject_path subj ''component''"]
        p2 tags by (simp add: render_subject_path subject_path_inner)
  qed (rule channel_node_grows [OF g chans])
  have step3: "runs (add_linux_channels E doc chans subj) w2
      (\<lambda>_. wadds E nodes w2 p3 (map (\<lambda>i. linux_tree subj (n_tag (x_node E (w_heap w) (chans ! i))) (lg (chans ! i))
                                  (LINUX_BASE_ADDR + sum_list (map k (take i chans)))) [0..<length chans]))"
    if g1: "wadds E nodes w p1 ts w1" and g2: "wadds E nodes w1 p2 us w2" for ts us w1 w2
  proof -
    have d1: "doc \<in> nodes (w_heap w1)" using wgrows_mem [OF g1 doc] .
    have "n_parent (x_node E (w_heap w2) doc) = None"
      using wgrows_other [OF g1 doc ne(1)] wgrows_other [OF g2 d1 ne(2)] root by simp
    moreover have "n_tag (x_node E (w_heap w1) p2) = ''component''"
      using wgrows_attrib [OF g1 mem(2)] tags by simp
    ultimately have q3: "x_xpath E (w_heap w2) doc (''/system/subjects/subject[@name='' @ sq LINUX_NAME @ '']/channels'') = Inr (p3 # r3)"
      using xpath_law_query [OF laws(3), of w2 doc] xabs_wgrows [OF g1 w doc ne(1), of "subject_path LINUX_NAME ''channels''"]
        xabs_wgrows [OF g2 wgrows_ok [OF g1] d1 ne(2), of "subject_path LINUX_NAME ''channels''"] p3 tags
      by (simp add: render_subject_path subject_path_inner)
    have ch: "channel_node E nodes w2 c (lg c) (sz c) (k c)" if "c \<in> set chans" for c
      using channel_node_grows [OF g2 channel_node_grows [OF g1 chans [OF that]]] .
    have "n_tag (x_node E (w_heap w2) c) = n_tag (x_node E (w_heap w) c)" if "c \<in> set chans" for c
    proof -
      have c: "c \<in> nodes (w_heap w)" using chans [OF that] by (simp add: channel_node_def)
      show ?thesis using wgrows_attrib [OF g1 c] wgrows_attrib [OF g2 wgrows_mem [OF g1 c]] by simp
    qed
    then have "map (\<lambda>i. linux_tree subj (n_tag (x_node E (w_heap w2) (chans ! i))) (lg (chans ! i)) (a i)) [0..<length chans]
        = map (\<lambda>i. linux_tree subj (n_tag (x_node E (w_heap w) (chans ! i))) (lg (chans ! i)) (a i)) [0..<length chans]" for a
      by simp
    then show ?thesis
      using runs_add_linux_channels [OF wgrows_ok [OF g2] wgrows_mem [OF g2 wgrows_mem [OF g1 mem(3)]] q3 ch, of chans subj]
      by (simp only:)
  qed
  show ?thesis
    unfolding runs_bnd
    by (rule runs_mono [OF runs_add_physical_channels [OF w mem(1) q1 chans]], assumption,
        rule runs_mono [OF step2], assumption, rule runs_mono [OF step3], assumption+, blast)
qed

end

text \<open>C9. The three loops over the component channels agree: run one after the other as the script
  does, they return normally, add a physical channel, a mapping of the unikernel subject and a
  channel of the Linux subject for every component channel, and the physical name is the same in
  all three, so every mapping and every Linux channel refers to a physical channel that was added.
  The queries are assumed to select what their paths say.\<close>

theorem compose_channels_agree:
  assumes E: "etree E nodes" and w: "ok_world E nodes w" and doc: "doc \<in> nodes (w_heap w)"
    and root: "n_parent (x_node E (w_heap w) doc) = None"
    and laws: "xpath_law E system_channels_path" "xpath_law E (subject_path subj ''component'')"
      "xpath_law E (subject_path LINUX_NAME ''channels'')"
    and p1: "xabs (x_node E (w_heap w)) doc system_channels_path = p1 # r1"
    and p2: "xabs (x_node E (w_heap w)) doc (subject_path subj ''component'') = p2 # r2"
    and p3: "xabs (x_node E (w_heap w)) doc (subject_path LINUX_NAME ''channels'') = p3 # r3"
    and chans: "\<And>c. c \<in> set chans \<Longrightarrow> channel_node E nodes w c (lg c) (sz c) (k c)"
  shows "\<exists>ts us vs. runs (seq (add_physical_channels E doc chans subj)
                 (seq (add_subject_channel_mappings E doc chans subj) (add_linux_channels E doc chans subj))) w
            (\<lambda>_ w3. \<exists>w1 w2. wadds E nodes w p1 ts w1 \<and> wadds E nodes w1 p2 us w2 \<and> wadds E nodes w2 p3 vs w3)
         \<and> length ts = length chans \<and> length us = length chans \<and> length vs = length chans
         \<and> (\<forall>i < length chans. \<exists>name. map_of (xt_attrib (ts ! i)) ''name'' = Some name
              \<and> map_of (xt_attrib (us ! i)) ''physical'' = Some name \<and> map_of (xt_attrib (vs ! i)) ''physical'' = Some name)"
  by (intro exI conjI, rule etree.runs_compose_channels [OF assms], assumption)
    (auto simp: channel_tree_def map_tree_def linux_tree_def)

definition demo_policy :: "nat xnode list" where
  "demo_policy =
     [nd ''system'' [] [1, 2] None, nd ''channels'' [] [] (Some 0), nd ''subjects'' [] [3, 4] (Some 0),
      nd ''subject'' [(''name'', ''unikernel'')] [5] (Some 2), nd ''subject'' [(''name'', ''nic_linux'')] [6, 9] (Some 2),
      nd ''component'' [] [] (Some 3), nd ''channels'' [] [] (Some 4),
      nd ''reader'' [(''logical'', ''net0|in''), (''size'', ''16#0010_0000#'')] [] None,
      nd ''writer'' [(''logical'', ''net0|out''), (''size'', ''16#0010_0000#'')] [] None,
      nd ''bootparams'' [] [] (Some 4)]"

abbreviation demo_policy_lxml :: "(rheap, nat) lxml" where
  "demo_policy_lxml \<equiv> ref_lxml (\<lambda>_. None)
     (path_query [system_channels_path, subject_path ''unikernel'' ''component'',
                  subject_path LINUX_NAME ''channels'', subject_path LINUX_NAME ''bootparams''])"

lemma demo_policy_ok: "table_ok demo_policy"
  by code_simp

lemma demo_policy_paths:
  "xabs (table_view demo_policy) 0 system_channels_path = [1]"
  "xabs (table_view demo_policy) 0 (subject_path ''unikernel'' ''component'') = [5]"
  "xabs (table_view demo_policy) 0 (subject_path LINUX_NAME ''channels'') = [6]"
  "xabs (table_view demo_policy) 0 (subject_path LINUX_NAME ''bootparams'') = [9]"
  by code_simp+

lemma demo_policy_laws:
  "xpath_law demo_policy_lxml system_channels_path"
  "xpath_law demo_policy_lxml (subject_path ''unikernel'' ''component'')"
  "xpath_law demo_policy_lxml (subject_path LINUX_NAME ''channels'')"
  "xpath_law demo_policy_lxml (subject_path LINUX_NAME ''bootparams'')"
  by (rule path_query_law;
      auto simp: system_channels_path_def subject_path_def render_path_def render_step_def sq_def LINUX_NAME_def)+

lemma demo_policy_channel:
  "c \<in> set [7, 8] \<Longrightarrow> channel_node demo_policy_lxml ref_nodes (table_world demo_policy) c
     (if c = 7 then ''net0|in'' else ''net0|out'') ''16#0010_0000#'' 0x100000"
  using demo_size by (auto simp: channel_node_def demo_policy_def nd_def table_view_def)

theorem compose_channels_agree_witness:
  "\<exists>ts us vs. runs (seq (add_physical_channels demo_policy_lxml 0 [7, 8] ''unikernel'')
                 (seq (add_subject_channel_mappings demo_policy_lxml 0 [7, 8] ''unikernel'')
                      (add_linux_channels demo_policy_lxml 0 [7, 8] ''unikernel''))) (table_world demo_policy)
            (\<lambda>_ w3. \<exists>w1 w2. wadds demo_policy_lxml ref_nodes (table_world demo_policy) 1 ts w1
                  \<and> wadds demo_policy_lxml ref_nodes w1 5 us w2 \<and> wadds demo_policy_lxml ref_nodes w2 6 vs w3)
         \<and> length ts = 2 \<and> length us = 2 \<and> length vs = 2
         \<and> (\<forall>i < 2. \<exists>name. map_of (xt_attrib (ts ! i)) ''name'' = Some name
              \<and> map_of (xt_attrib (us ! i)) ''physical'' = Some name \<and> map_of (xt_attrib (vs ! i)) ''physical'' = Some name)"
proof -
  have "n_parent (table_view demo_policy 0) = None" by code_simp
  moreover have "0 < length demo_policy" by code_simp
  ultimately show ?thesis
    using compose_channels_agree [of demo_policy_lxml ref_nodes "table_world demo_policy" 0 "''unikernel''" 1 "[]" 5 "[]" 6 "[]" "[7, 8]",
        OF ref.etree_axioms ok_table_world [OF demo_policy_ok] _ _ demo_policy_laws(1,2,3) _ _ _ demo_policy_channel]
    by (simp add: demo_policy_paths numeral_2_eq_2)
qed

text \<open>C14. The interface name the script derives from a reader channel \<^verbatim>\<open><device>|in\<close> is the device
  name exactly when that name is empty or does not end in one of the characters \<^verbatim>\<open>|\<close>, \<^verbatim>\<open>i\<close> or
  \<^verbatim>\<open>n\<close>: \<^verbatim>\<open>rstrip("|in")\<close> strips characters, not the suffix, so a device \<^verbatim>\<open>main\<close> becomes \<^verbatim>\<open>ma\<close>.\<close>

theorem iface_name_exact_iff:
  assumes "n_tag (x_node E (w_heap w) c) = ''reader''" and "attr_of E w c ''logical'' = Some (dev @ ''|in'')"
  shows "runs (iface_step E [] c) w (\<lambda>name w'. w' = w \<and> (name = dev \<longleftrightarrow> dev = [] \<or> last dev \<notin> set ''|in''))"
  using assms rstrip_strips [of "''|in''" "''|in''" dev] rstrip_eq_iff [of "''|in''" dev]
  by (simp add: iface_step_def wp)

theorem iface_name_exact_iff_witness:
  "runs (iface_step demo_lxml [] 0) (flat_world 1 (\<lambda>_. (''reader'', [(''logical'', ''main|in'')])))
     (\<lambda>name w'. w' = flat_world 1 (\<lambda>_. (''reader'', [(''logical'', ''main|in'')]))
        \<and> (name = ''main'' \<longleftrightarrow> ''main'' = [] \<or> last ''main'' \<notin> set ''|in''))"
  by (rule iface_name_exact_iff) (simp_all add: new_node_def)

text \<open>C12. \<^verbatim>\<open>add_linux_bootparams\<close> sets the boot parameters of the Linux subject to what they were,
  followed by \<^verbatim>\<open>unikernel_iface=\<close> and the stems of the logical names of the reader channels separated by
  commas; no other node and no file changes.  The stem of a name is what is left without its longest suffix of
  the characters \<^verbatim>\<open>|\<close>, \<^verbatim>\<open>i\<close> and \<^verbatim>\<open>n\<close>, here not empty: of \<^verbatim>\<open><device>|in\<close> it is the device name if that ends in none
  of them, and a part of it otherwise.\<close>

theorem linux_bootparams_interfaces:
  assumes "etree E nodes" and "p \<in> nodes (w_heap w)"
    and "x_xpath E (w_heap w) doc (''/system/subjects/subject[@name='' @ sq LINUX_NAME @ '']/bootparams'') = Inr (p # r)"
    and "\<And>c. c \<in> set chans \<Longrightarrow> n_tag (x_node E (w_heap w) c) = ''reader'' \<Longrightarrow>
           attr_of E w c ''logical'' = Some (stem c @ tail c) \<and> set (tail c) \<subseteq> set ''|in'' \<and> stem c \<noteq> [] \<and> last (stem c) \<notin> set ''|in''"
  shows "runs (add_linux_bootparams E doc chans) w
           (\<lambda>_ w'. x_node E (w_heap w') = (x_node E (w_heap w))(p := (x_node E (w_heap w) p)
              \<lparr>n_text := Some ((case n_text (x_node E (w_heap w) p) of None \<Rightarrow> [] | Some t \<Rightarrow> if t = [] then [] else t @ '' '')
                 @ ''unikernel_iface='' @ join_str '','' (map stem (filter (\<lambda>c. n_tag (x_node E (w_heap w) c) = ''reader'') chans)))\<rparr>)
              \<and> same_fs w w')"
proof -
  let ?rd = "\<lambda>c. n_tag (x_node E (w_heap w) c) = ''reader''"
  have strip: "rstrip ''|in'' (stem c @ tail c) = stem c" if "c \<in> set chans" "?rd c" for c
    using rstrip_strips [of "tail c" "''|in''" "stem c"] rstrip_id [of "stem c" "''|in''"] assms(4) [OF that] by simp
  then have names: "map (\<lambda>c. rstrip ''|in'' (stem c @ tail c)) (filter ?rd chans) = map stem (filter ?rd chans)"
    by auto
  have ifs: "runs (foldM (iface_step E) [] chans) w
     (\<lambda>ifaces w'. w' = w \<and> ifaces = join_str '','' (map (\<lambda>c. rstrip ''|in'' (stem c @ tail c)) (filter ?rd chans)))"
    by (rule runs_iface_fold) (use assms(4) strip in auto)
  note ext = etree.runs_extend_subject_bootparams [OF assms(1,2,3)]
  show ?thesis
    unfolding add_linux_bootparams_def runs_bnd
    by (rule runs_mono [OF ifs], elim conjE, hypsubst, rule runs_mono [OF ext])
      (auto simp: names LINUX_BOOTPARAM_def split: option.splits)
qed

theorem linux_bootparams_interfaces_witness:
  "runs (add_linux_bootparams demo_policy_lxml 0 [7, 8]) (table_world demo_policy)
     (\<lambda>_ w'. n_text (x_node demo_policy_lxml (w_heap w') 9) = Some ''unikernel_iface=net0'')"
proof -
  have path: "n_parent (table_view demo_policy 0) = None" by code_simp
  have q: "x_xpath demo_policy_lxml (w_heap (table_world demo_policy)) 0
             (''/system/subjects/subject[@name='' @ sq LINUX_NAME @ '']/bootparams'') = Inr [9]"
    using xpath_law_query [OF demo_policy_laws(4), of "table_world demo_policy" 0] path
    by (simp add: render_subject_path demo_policy_paths del: ref_xpath)
  have tb: "n_tag (table_view demo_policy 7) = ''reader''" "n_tag (table_view demo_policy 8) = ''writer''"
    "map_of (n_attrib (table_view demo_policy 7)) ''logical'' = Some ''net0|in''"
    "n_text (table_view demo_policy 9) = None" "9 < length demo_policy"
    by code_simp+
  have "runs (add_linux_bootparams demo_policy_lxml 0 [7, 8]) (table_world demo_policy)
     (\<lambda>_ w'. x_node demo_policy_lxml (w_heap w') = (x_node demo_policy_lxml (w_heap (table_world demo_policy)))
        (9 := (x_node demo_policy_lxml (w_heap (table_world demo_policy)) 9)
              \<lparr>n_text := Some ((case n_text (x_node demo_policy_lxml (w_heap (table_world demo_policy)) 9) of None \<Rightarrow> [] | Some t \<Rightarrow> if t = [] then [] else t @ '' '')
                 @ ''unikernel_iface='' @ join_str '','' (map (\<lambda>_. ''net0'')
                     (filter (\<lambda>c. n_tag (x_node demo_policy_lxml (w_heap (table_world demo_policy)) c) = ''reader'') [7, 8])))\<rparr>)
        \<and> same_fs (table_world demo_policy) w')"
    by (rule linux_bootparams_interfaces [OF ref.etree_axioms _ q, where tail = "\<lambda>_. ''|in''"]) (use tb in auto)
  then show ?thesis
    by (rule runs_mono) (simp add: tb)
qed

text \<open>C13. A failed run of the script changes no file: whenever it raises, whatever the reason
  (a missing section, an unreadable policy, an output directory that does not exist), every
  file is as it was, in particular the generated policy.\<close>

theorem compose_failure_keeps_files:
  assumes "compose_main E w = (Inl e, w')"
  shows "w_files w' = w_files w"
  by (rule fails_before_write [OF keeps_fs_compose_steps assms [unfolded compose_main_steps]])

theorem compose_failure_keeps_files_witness:
  "w_files (snd (compose_main demo_lxml (flat_world 0 (\<lambda>_. ([], []))))) = w_files (flat_world 0 (\<lambda>_. ([], [])))"
proof -
  have "xparse demo_lxml POLICY_TEMPLATE (flat_world 0 (\<lambda>_. ([], []))) = (Inl OSError, flat_world 0 (\<lambda>_. ([], [])))"
    by (simp add: xparse_def bnd_def read_file_def flat_world_def)
  then have eq: "compose_main demo_lxml (flat_world 0 (\<lambda>_. ([], []))) = (Inl OSError, flat_world 0 (\<lambda>_. ([], [])))"
    unfolding compose_main_def by (rule bnd_err)
  show ?thesis using compose_failure_keeps_files [OF eq] unfolding eq by (simp only: snd_conv)
qed

end
