(* ===== verification/Dep_Graph.thy ===== *)
theory Dep_Graph
  imports Prelude
begin

text \<open>
  The class \<^verbatim>\<open>Graph\<close> of \<^verbatim>\<open>tools/plugins/documentation/doc_transfer.py\<close>: the dependency graph
  between subjects, components and libraries.  The node and edge sets only grow by \<^verbatim>\<open>add\<close>; they
  are lists without repetition, and no result depends on their order.  The search terminates
  because the set of reached nodes grows in every round and stays within the nodes of the graph;
  the main result is that it returns exactly the nodes of the transitive closure.
\<close>

type_synonym gname = "string option"

text \<open>A name and a kind, \<^verbatim>\<open>'l'\<close>, \<^verbatim>\<open>'c'\<close> or \<^verbatim>\<open>'s'\<close>.\<close>

type_synonym gnode = "gname \<times> char"

record dep_graph =
  g_nodes :: "gnode list"
  g_edges :: "(gnode \<times> gnode) list"

definition new_graph :: dep_graph where
  "new_graph = \<lparr>g_nodes = [], g_edges = []\<rparr>"

definition add_node :: "gnode \<Rightarrow> dep_graph \<Rightarrow> dep_graph" where
  "add_node n g = g\<lparr>g_nodes := (if n \<in> set (g_nodes g) then g_nodes g else g_nodes g @ [n])\<rparr>"

definition add_edge :: "gnode \<Rightarrow> gnode \<Rightarrow> dep_graph \<Rightarrow> dep_graph" where
  "add_edge m n g = g\<lparr>g_edges := (if (m, n) \<in> set (g_edges g) then g_edges g else g_edges g @ [(m, n)])\<rparr>"

definition get_peers :: "dep_graph \<Rightarrow> gnode \<Rightarrow> gnode set" where
  "get_peers g n = set (filter (\<lambda>x. (n, x) \<in> set (g_edges g)) (g_nodes g))"

definition peers_of_all :: "dep_graph \<Rightarrow> gnode set \<Rightarrow> gnode set" where
  "peers_of_all g S = \<Union> (get_peers g ` S)"

text \<open>The \<^verbatim>\<open>while\<close> loop over the two sets \<^verbatim>\<open>reachable\<close> and \<^verbatim>\<open>reachable_new\<close>.\<close>

function reach_loop :: "dep_graph \<Rightarrow> gnode set \<Rightarrow> gnode set \<Rightarrow> gnode set" where
  "reach_loop g reachable reachable_new =
     (if reachable_new \<noteq> {}
      then (let working_list = peers_of_all g reachable_new in
            if working_list \<subseteq> reachable then reachable
            else reach_loop g (reachable \<union> working_list) working_list)
      else reachable)"
  by pat_completeness auto
termination
proof (relation "measure (\<lambda>(g, r, n). card (set (g_nodes g) - r))", goal_cases)
  case (2 g reachable reachable_new working_list)
  have "working_list \<subseteq> set (g_nodes g)"
    by (auto simp: 2(2) peers_of_all_def get_peers_def)
  with 2(3) have "set (g_nodes g) - (reachable \<union> working_list) \<subset> set (g_nodes g) - reachable"
    by blast
  then show ?case by (simp add: psubset_card_mono)
qed simp

declare reach_loop.simps [simp del]

definition get_reachable_nodes :: "dep_graph \<Rightarrow> gnode \<Rightarrow> gnode set" where
  "get_reachable_nodes g n = reach_loop g (get_peers g n) (get_peers g n)"

subsection \<open>The search computes the transitive closure\<close>

text \<open>One step of the relation the search follows: an edge to a node of the graph.\<close>

definition dep_rel :: "dep_graph \<Rightarrow> (gnode \<times> gnode) set" where
  "dep_rel g = {(m, n). (m, n) \<in> set (g_edges g) \<and> n \<in> set (g_nodes g)}"

lemma get_peers_rel: "x \<in> get_peers g n \<longleftrightarrow> (n, x) \<in> dep_rel g"
  by (auto simp: get_peers_def dep_rel_def)

lemma peers_of_all_rel: "peers_of_all g S = dep_rel g `` S"
  by (auto simp: peers_of_all_def get_peers_rel)

text \<open>The loop invariant: what was reached is reachable, contains the first peers, and is closed
  under steps except from the nodes reached last.\<close>

lemma reach_loop_invariant:
  assumes "dep_rel g `` {n} \<subseteq> r" and "r \<subseteq> (dep_rel g)\<^sup>+ `` {n}"
    and "new \<subseteq> r" and "dep_rel g `` (r - new) \<subseteq> r"
  shows "reach_loop g r new = (dep_rel g)\<^sup>+ `` {n}"
  using assms
proof (induction g r new rule: reach_loop.induct)
  case (1 g r new)
  let ?wl = "peers_of_all g new" and ?R = "dep_rel g"
  have closed: "?R\<^sup>+ `` {n} \<subseteq> r" if "?R `` r \<subseteq> r"
  proof
    fix y assume "y \<in> ?R\<^sup>+ `` {n}"
    then have "(n, y) \<in> ?R\<^sup>+" by simp
    then show "y \<in> r" by (induction rule: trancl_induct) (use "1.prems"(1) that in auto)
  qed
  have split: "?R `` r \<subseteq> r \<union> ?wl"
    using "1.prems"(3,4) by (auto simp: peers_of_all_rel)
  show ?case
  proof (cases "new = {} \<or> ?wl \<subseteq> r")
    case True
    then have "?R `` r \<subseteq> r" using split by (auto simp: peers_of_all_rel)
    then have "?R\<^sup>+ `` {n} = r" using closed "1.prems"(2) by blast
    then show ?thesis using True by (auto simp: reach_loop.simps [of g r new] Let_def)
  next
    case False
    have wl: "?wl \<subseteq> ?R\<^sup>+ `` {n}"
    proof
      fix y assume "y \<in> ?wl"
      then obtain x where "x \<in> new" "(x, y) \<in> ?R" by (auto simp: peers_of_all_rel)
      moreover have "(n, x) \<in> ?R\<^sup>+" using calculation(1) "1.prems"(2,3) by blast
      ultimately show "y \<in> ?R\<^sup>+ `` {n}" by auto
    qed
    have "reach_loop g (r \<union> ?wl) ?wl = ?R\<^sup>+ `` {n}"
      using False "1.prems" wl split by (intro "1.IH" [OF _ refl]) auto
    then show ?thesis using False by (simp add: reach_loop.simps [of g r new] Let_def)
  qed
qed

lemma get_reachable_trancl: "get_reachable_nodes g n = (dep_rel g)\<^sup>+ `` {n}"
  unfolding get_reachable_nodes_def
  by (rule reach_loop_invariant) (auto simp: get_peers_rel)

lemma get_reachable_subset: "get_reachable_nodes g n \<subseteq> set (g_nodes g)"
  unfolding get_reachable_trancl by (auto simp: dep_rel_def elim: trancl.cases)

text \<open>C3. The search returns exactly the nodes of the graph that are reachable from the given node by
  one or more edges, for every graph, cyclic ones included; it is a total function.\<close>

theorem get_reachable_nodes_correct:
  "x \<in> get_reachable_nodes g n \<longleftrightarrow>
     (n, x) \<in> {(a, b). (a, b) \<in> set (g_edges g) \<and> b \<in> set (g_nodes g)}\<^sup>+"
  by (simp add: get_reachable_trancl dep_rel_def)

end
