(* ===== verification/Doc_Transfer.thy ===== *)
theory Doc_Transfer
  imports Dep_Graph Etree_Ref
begin

text \<open>
  \<^verbatim>\<open>tools/plugins/documentation/doc_transfer.py\<close>: transfers the \<^verbatim>\<open>doc\<close> nodes of the joined policy
  to the places in the policy in format B that stand for the same resource.  The rules, which the
  code writes as dictionaries of closures, are values of the datatype \<open>action\<close>; the nested
  dictionary of insertions is the datatype \<open>expansion\<close>.  A dictionary is an association list in
  insertion order.  The order in which Python iterates over a set is not specified, so it is a
  parameter (\<open>it\<close>).
\<close>

subsection \<open>Components and the subjects that depend on them\<close>

type_synonym c2s_map = "gname \<rightharpoonup> gname set"

text \<open>\<^verbatim>\<open>(name, kind)\<close> depends on the libraries below its \<^verbatim>\<open>depends\<close> element.\<close>

definition add_depends :: "('h, 'n) lxml \<Rightarrow> char \<Rightarrow> gname \<Rightarrow> dep_graph \<Rightarrow> 'n \<Rightarrow> ('h, dep_graph) py" where
  "add_depends E kind name g elem =
     bnd (xfind E elem ''depends'') (\<lambda>depends.
     case depends of
       None \<Rightarrow> ret g
     | Some d \<Rightarrow>
         bnd (xfindall E d ''library'') (\<lambda>deps.
         foldM (\<lambda>g dep. bnd (xget E dep ''ref'') (\<lambda>rf.
                         ret (add_edge (name, kind) (rf, CHR ''l'') g))) g deps))"

definition add_comp_node ::
  "('h, 'n) lxml \<Rightarrow> char \<Rightarrow> c2s_map \<times> dep_graph \<Rightarrow> 'n \<Rightarrow> ('h, c2s_map \<times> dep_graph) py" where
  "add_comp_node E kind st elem =
     (case st of (c2s, g) \<Rightarrow>
      bnd (xget E elem ''name'') (\<lambda>name.
      bnd (add_depends E kind name (add_node (name, kind) g) elem) (\<lambda>g.
      ret (c2s(name \<mapsto> {}), g))))"

text \<open>The \<^verbatim>\<open>component\<close> of a subject counts only when its reference is present and not empty.\<close>

definition add_subj_node :: "('h, 'n) lxml \<Rightarrow> dep_graph \<Rightarrow> 'n \<Rightarrow> ('h, dep_graph) py" where
  "add_subj_node E g subj =
     bnd (xget E subj ''name'') (\<lambda>name.
     let g = add_node (name, CHR ''s'') g in
     bnd (xfind E subj ''component'') (\<lambda>cref.
     case cref of
       None \<Rightarrow> ret g
     | Some c \<Rightarrow>
         bnd (xget E c ''ref'') (\<lambda>rf.
         if rf \<noteq> None \<and> rf \<noteq> Some [] then ret (add_edge (name, CHR ''s'') (rf, CHR ''c'') g) else ret g)))"

definition add_subject_to :: "gname \<Rightarrow> c2s_map \<Rightarrow> gnode \<Rightarrow> ('h, c2s_map) py" where
  "add_subject_to subj c2s comp_node =
     (case c2s (fst comp_node) of
        None \<Rightarrow> raise (KeyError (case fst comp_node of None \<Rightarrow> ''None'' | Some s \<Rightarrow> s))
      | Some S \<Rightarrow> ret (c2s(fst comp_node \<mapsto> insert subj S)))"

definition compile_component_to_subjects_map ::
  "(gnode set \<Rightarrow> gnode list) \<Rightarrow> ('h, 'n) lxml \<Rightarrow> 'n \<Rightarrow> ('h, c2s_map) py" where
  "compile_component_to_subjects_map it E root =
     bnd (xpath E root ''components/library'') (\<lambda>libs.
     bnd (foldM (add_comp_node E CHR ''l'') (Map.empty, new_graph) libs) (\<lambda>st.
     bnd (xpath E root ''components/component'') (\<lambda>comps.
     bnd (foldM (add_comp_node E CHR ''c'') st comps) (\<lambda>(c2s, g).
     bnd (xpath E root ''subjects/subject'') (\<lambda>subjs.
     bnd (foldM (add_subj_node E) g subjs) (\<lambda>g.
     foldM (\<lambda>c2s subj_node.
              foldM (add_subject_to (fst subj_node)) c2s (it (get_reachable_nodes g subj_node)))
       c2s (filter (\<lambda>x. snd x = CHR ''s'') (g_nodes g))))))))"

subsection \<open>Rules\<close>

text \<open>\<open>NoAction\<close> is the \<^verbatim>\<open>None\<close> that \<^verbatim>\<open>simple_xpath_match\<close> passes.\<close>

datatype action = NoAction | DoTraversal "(string \<times> action) list" | AddToOutput string

text \<open>The action for the rest of the key, when there is any.\<close>

definition new_action :: "string \<Rightarrow> action \<Rightarrow> action" where
  "new_action key value =
     (let remaining_rule = join_str ''/'' (tl (split_str key ''/''))
      in if remaining_rule \<noteq> [] then DoTraversal [(remaining_rule, value)] else value)"

definition py_nth :: "'a list \<Rightarrow> nat \<Rightarrow> pyerr + 'a" where
  "py_nth xs i = (if i < length xs then Inr (xs ! i) else Inl IndexError)"

definition apply_rule ::
  "'n xnode \<Rightarrow> string \<Rightarrow> action \<Rightarrow> pyerr + bool \<times> (string \<rightharpoonup> string) \<times> action" where
  "apply_rule node key value =
     (let local_rule = hd (split_str key ''/'');
          act = new_action key value;
          node_name = hd (split_str local_rule ''['')
      in if n_tag node \<noteq> node_name then Inr (False, Map.empty, NoAction)
         else if \<not> contains ''['' local_rule then Inr (True, Map.empty, act)
         else case py_nth (split_str local_rule ''[@'') 1 of
             Inl e \<Rightarrow> Inl e
           | Inr part \<Rightarrow>
               (let attribs_string = butlast part;
                    attr_name = hd (split_str attribs_string ''='')
                in case map_of (n_attrib node) attr_name of
                     None \<Rightarrow> Inr (False, Map.empty, NoAction)
                   | Some v \<Rightarrow>
                       (case py_nth (split_str attribs_string [CHR ''='', CHR 0x22]) 1 of
                          Inl e \<Rightarrow> Inl e
                        | Inr part2 \<Rightarrow>
                            (case butlast part2 of
                               [] \<Rightarrow> Inl IndexError
                             | c # name \<Rightarrow>
                                 if c = CHR ''$'' then Inr (True, [name \<mapsto> v], act)
                                 else if v = c # name then Inr (True, Map.empty, act)
                                 else Inr (False, Map.empty, NoAction)))))"

definition simple_xpath_match :: "'n xnode \<Rightarrow> string \<Rightarrow> pyerr + bool" where
  "simple_xpath_match node local_xpath =
     (case apply_rule node local_xpath NoAction of Inl e \<Rightarrow> Inl e | Inr (b, _, _) \<Rightarrow> Inr b)"

subsection \<open>The structure of insertions\<close>

datatype 'n expansion =
  Expansion (new_leaves: "'n list option") (children: "(string \<times> 'n expansion) list option")

definition empty_expansion :: "'n expansion" where
  "empty_expansion = Expansion None None"

definition add_new_leaf :: "'n expansion \<Rightarrow> 'n \<Rightarrow> 'n expansion" where
  "add_new_leaf e node =
     Expansion (Some ((case new_leaves e of None \<Rightarrow> [] | Some ls \<Rightarrow> ls) @ [node])) (children e)"

definition include_new_child :: "'n expansion \<Rightarrow> string \<Rightarrow> 'n expansion" where
  "include_new_child e child_str =
     (let d = (case children e of None \<Rightarrow> [] | Some d \<Rightarrow> d)
      in Expansion (new_leaves e)
           (Some (if child_str \<in> fst ` set d then d else d @ [(child_str, empty_expansion)])))"

text \<open>\<^verbatim>\<open>exp_subdict['__children'][k]\<close> is handed to a function that changes it in place.\<close>

definition get_child :: "'n expansion \<Rightarrow> string \<Rightarrow> 'n expansion" where
  "get_child e k = (case map_of (case children e of None \<Rightarrow> [] | Some d \<Rightarrow> d) k of
                      None \<Rightarrow> empty_expansion | Some e' \<Rightarrow> e')"

definition set_child :: "'n expansion \<Rightarrow> string \<Rightarrow> 'n expansion \<Rightarrow> 'n expansion" where
  "set_child e k e' =
     Expansion (new_leaves e)
       (map_option (map (\<lambda>(a, b). if a = k then (a, e') else (a, b))) (children e))"

text \<open>The subject names a parameter of a target path stands for.\<close>

definition get_list_of_substitutions ::
  "(gname set \<Rightarrow> gname list) \<Rightarrow> string \<Rightarrow> (string \<rightharpoonup> string) \<Rightarrow> c2s_map \<Rightarrow> ('h, gname list) py" where
  "get_list_of_substitutions it parametrized_substring param_bind c2s_map =
     (let resolve_to_subject = startswith parametrized_substring ''$Component_To_Subjects'' in
      bnd (lift (if resolve_to_subject
                 then (case py_nth (split_str parametrized_substring ''$Component_To_Subjects($'') 1 of
                         Inl e \<Rightarrow> Inl e | Inr s \<Rightarrow> Inr (hd (split_str s '')'')))
                 else py_nth (split_str parametrized_substring ''$'') 1)) (\<lambda>param_name.
      case param_bind param_name of
        None \<Rightarrow> seq (print (''ERROR: Could not resolve parameter '' @ param_name)) (raise (SystemExit 1))
      | Some param_value \<Rightarrow>
          if resolve_to_subject
          then (case c2s_map (Some param_value) of
                  None \<Rightarrow> seq (print (''ERROR: Could not find mapping for component '' @ param_value))
                            (raise (SystemExit 1))
                | Some S \<Rightarrow> ret (it S))
          else ret [Some param_value]))"

lemma split_Cons:
  obtains y ys where "split_str s sep = y # ys"
  using split_acc_nonempty [of sep "[]" s] by (cases "split_str s sep") (auto simp: split_str_def)

lemma rest_shorter: "s \<noteq> [] \<Longrightarrow> length (join_str ''/'' (tl (split_str s ''/''))) < length s"
proof -
  assume "s \<noteq> []"
  obtain y ys where ys: "split_str s ''/'' = y # ys" by (rule split_Cons)
  moreover have "join_str ''/'' (split_str s ''/'') = s" by simp
  ultimately show ?thesis using \<open>s \<noteq> []\<close> by (cases ys) auto
qed

function add_to_output_func ::
  "(gname set \<Rightarrow> gname list) \<Rightarrow> string \<Rightarrow> 'n \<Rightarrow> (string \<rightharpoonup> string) \<Rightarrow> c2s_map \<Rightarrow> 'n expansion
     \<Rightarrow> ('h, 'n expansion) py" where
  "add_to_output_func it target_path node param_bind c2s_map exp_subdict =
     (if target_path = [] then ret (add_new_leaf exp_subdict node)
      else
        let local_path = hd (split_str target_path ''/'');
            remaining_path = join_str ''/'' (tl (split_str target_path ''/''))
        in if \<not> contains ''$'' local_path
           then let e = include_new_child exp_subdict local_path in
                bnd (add_to_output_func it remaining_path node param_bind c2s_map (get_child e local_path)) (\<lambda>c.
                ret (set_child e local_path c))
           else
             bnd (lift (py_nth (split_str local_path [CHR 0x22]) 1)) (\<lambda>parametrized_substring.
             bnd (get_list_of_substitutions it parametrized_substring param_bind c2s_map) (\<lambda>substitutions.
             foldM (\<lambda>exp_subdict sub.
                bnd (as_str sub) (\<lambda>sub.
                let local_path_subst = replace_str parametrized_substring sub local_path;
                    e = include_new_child exp_subdict local_path_subst in
                bnd (add_to_output_func it remaining_path node param_bind c2s_map (get_child e local_path_subst)) (\<lambda>c.
                ret (set_child e local_path_subst c)))) exp_subdict substitutions)))"
  by pat_completeness auto
termination
  by (relation "measure (\<lambda>(it, path, _). length path)") (auto intro: rest_shorter)

declare add_to_output_func.simps [simp del]

subsection \<open>Traversal of the joined policy\<close>

text \<open>Every rule application shortens the key or goes on with the action of the rule.\<close>

fun action_size :: "action \<Rightarrow> nat" where
  "action_size (DoTraversal rules) = Suc (sum_list (map (\<lambda>(k, a). Suc (length k + action_size a)) rules))"
| "action_size _ = 0"

lemma new_action_size: "action_size (new_action key value) \<le> Suc (length key + action_size value)"
proof (cases "key = []")
  case False
  then show ?thesis using rest_shorter [OF False] by (simp add: new_action_def Let_def)
qed (simp add: new_action_def split_str_def)

lemma apply_rule_action:
  "apply_rule node key val = Inr (b, fresh, act) \<Longrightarrow> act = new_action key val \<or> act = NoAction"
  by (auto simp: apply_rule_def Let_def split: if_splits sum.splits option.splits list.splits)

lemma rule_action_smaller:
  assumes "(key, val) \<in> set rules" and "apply_rule node key val = Inr (b, fresh, act)"
  shows "action_size act < action_size (DoTraversal rules)"
proof -
  have "Suc (length key + action_size val) \<le> sum_list (map (\<lambda>(k, a). Suc (length k + action_size a)) rules)"
    using member_le_sum_list [of "Suc (length key + action_size val)"] assms(1) by force
  then show ?thesis
    using apply_rule_action [OF assms(2)] new_action_size [of key val] by auto
qed

text \<open>Calling an action: \<^verbatim>\<open>do_traversal\<close> and \<^verbatim>\<open>add_to_output\<close> return functions of the node, the bound
  parameters, the component map and the structure they change.\<close>

function run_action ::
  "(gname set \<Rightarrow> gname list) \<Rightarrow> ('h, 'n) lxml \<Rightarrow> action \<Rightarrow> 'n \<Rightarrow> (string \<rightharpoonup> string) \<Rightarrow> c2s_map \<Rightarrow> 'n expansion
     \<Rightarrow> ('h, 'n expansion) py" where
  "run_action it E NoAction node param_bind c2s expansion = raise TypeError"
| "run_action it E (AddToOutput target_path) node param_bind c2s expansion =
     add_to_output_func it (tl target_path) node param_bind c2s expansion"
| "run_action it E (DoTraversal current_map) node param_bind c2s expansion =
     bnd (xelements E node) (\<lambda>cs.
     foldM (\<lambda>expansion child.
       foldM (\<lambda>expansion (key, value).
         bnd (xlook E child) (\<lambda>nd.
         case apply_rule nd key value of
           Inl e \<Rightarrow> raise e
         | Inr (rule_matches, fresh_param_bindings, action) \<Rightarrow>
             if rule_matches
             then run_action it E action child (param_bind ++ fresh_param_bindings) c2s expansion
             else ret expansion)) expansion current_map) expansion cs)"
  by pat_completeness auto
termination
  by (relation "measure (\<lambda>(it, E, a, _). action_size a)") (auto simp del: action_size.simps intro: rule_action_smaller)

declare run_action.simps [simp del]

subsection \<open>The rules\<close>

text \<open>\<^verbatim>\<open>add_to_output\<close> refuses a relative target path when the tables are built.\<close>

definition add_to_output :: "string \<Rightarrow> ('h, action) py" where
  "add_to_output target_path =
     (case target_path of
        [] \<Rightarrow> raise IndexError
      | c # _ \<Rightarrow>
          if c \<noteq> CHR ''/''
          then seq (print (''ERROR: target path must be absolute and start with '' @ sq ''/'')) (raise (SystemExit 1))
          else ret (AddToOutput target_path))"

text \<open>The rules, as pairs of a key and an action.\<close>

definition subj_mem_map :: "(string \<times> action) list" where
  "subj_mem_map =
     [(''doc'', AddToOutput (''/system/subjects/subject[@name='' @ dq ''$subject_name'' @ '']''
                             @ ''/memory/memory[@logical='' @ dq ''$subj_mem_logical'' @ '']''))]"

definition subject_map :: "(string \<times> action) list" where
  "subject_map =
     [(''doc'', AddToOutput (''/system/subjects/subject[@name='' @ dq ''$subject_name'' @ '']'')),
      (''memory/memory[@logical='' @ dq ''$subj_mem_logical'' @ '']'', DoTraversal subj_mem_map),
      (''component/map[@logical='' @ dq ''$subj_mem_logical'' @ '']'', DoTraversal subj_mem_map),
      (''channels/reader'' @ ''[@logical='' @ dq ''$subj_mem_logical'' @ '']'', DoTraversal subj_mem_map),
      (''channels/writer'' @ ''[@logical='' @ dq ''$subj_mem_logical'' @ '']'', DoTraversal subj_mem_map)]"

definition comp_mem_map :: "(string \<times> action) list" where
  "comp_mem_map =
     [(''doc'', AddToOutput (''/system/subjects/subject''
                             @ ''[@name='' @ dq ''$Component_To_Subjects($component_name)'' @ '']''
                             @ ''/memory/memory[@logical='' @ dq ''$comp_mem_logical'' @ '']''))]"

definition comp_map :: "(string \<times> action) list" where
  "comp_map =
     [(''doc'', AddToOutput (''/system/subjects/subject''
                             @ ''[@name='' @ dq ''$Component_To_Subjects($component_name)'' @ '']'')),
      (''requires/memory/memory[@logical='' @ dq ''$comp_mem_logical'' @ '']'', DoTraversal comp_mem_map),
      (''requires/memory/array/memory[@logical='' @ dq ''$comp_mem_logical'' @ '']'', DoTraversal comp_mem_map),
      (''requires/channels/reader[@logical='' @ dq ''$comp_mem_logical'' @ '']'', DoTraversal comp_mem_map),
      (''requires/channels/writer[@logical='' @ dq ''$comp_mem_logical'' @ '']'', DoTraversal comp_mem_map),
      (''requires/channels/array/reader[@logical='' @ dq ''$comp_mem_logical'' @ '']'', DoTraversal comp_mem_map),
      (''requires/channels/array/writer[@logical='' @ dq ''$comp_mem_logical'' @ '']'', DoTraversal comp_mem_map)]"

definition components_map :: "(string \<times> action) list" where
  "components_map =
     [(''component[@name='' @ dq ''$component_name'' @ '']'', DoTraversal comp_map),
      (''library[@name='' @ dq ''$component_name'' @ '']'', DoTraversal comp_map)]"

definition subjects_map :: "(string \<times> action) list" where
  "subjects_map =
     [(''doc'', AddToOutput ''/system/subjects''),
      (''subject[@name='' @ dq ''$subject_name'' @ '']'', DoTraversal subject_map)]"

definition system_map :: "(string \<times> action) list" where
  "system_map =
     [(''doc'', AddToOutput ''/system''),
      (''memory/memory[@name='' @ dq ''$mem_name'' @ '']/doc'',
         AddToOutput (''/system/memory/memory[@name='' @ dq ''$mem_name'' @ '']'')),
      (''components'', DoTraversal components_map),
      (''subjects'', DoTraversal subjects_map)]"

definition compile_target_expansion ::
  "(gnode set \<Rightarrow> gnode list) \<Rightarrow> (gname set \<Rightarrow> gname list) \<Rightarrow> ('h, 'n) lxml \<Rightarrow> 'n \<Rightarrow> ('h, 'n expansion) py" where
  "compile_target_expansion itn it E source_root =
     bnd (compile_component_to_subjects_map itn E source_root) (\<lambda>c2s.
     run_action it E (DoTraversal system_map) source_root Map.empty c2s empty_expansion)"

subsection \<open>Changing the target policy\<close>

definition insert_leave :: "('h, 'n) lxml \<Rightarrow> 'n \<Rightarrow> 'n \<Rightarrow> ('h, unit) py" where
  "insert_leave E subtree_root leave = bnd (xdeepcopy E leave) (xinsert E subtree_root 0)"

fun leaves_list :: "'n expansion \<Rightarrow> 'n list" where
  "leaves_list (Expansion l c) = (case l of None \<Rightarrow> [] | Some ls \<Rightarrow> ls)"

fun children_list :: "'n expansion \<Rightarrow> (string \<times> 'n expansion) list" where
  "children_list (Expansion l c) = (case c of None \<Rightarrow> [] | Some d \<Rightarrow> d)"

lemma children_size: "(path, sub) \<in> set (children_list e) \<Longrightarrow> size sub < size e"
  by (cases e) (fastforce split: option.splits dest: size_list_estimation' [where f = "size_prod (\<lambda>_. 0) size"])

text \<open>A missing key is an empty loop.\<close>

function apply_target_expansion :: "('h, 'n) lxml \<Rightarrow> 'n \<Rightarrow> 'n expansion \<Rightarrow> ('h, unit) py" where
  "apply_target_expansion E subtree_root sub_expansion =
     seq (if children sub_expansion \<noteq> None
          then bnd (xchildren E subtree_root) (\<lambda>cs.
               forM cs (\<lambda>child.
                 forM (children_list sub_expansion) (\<lambda>(path, sub).
                   bnd (xlook E child) (\<lambda>nd.
                   bnd (lift (simple_xpath_match nd path)) (\<lambda>b.
                   if b then apply_target_expansion E child sub else ret ())))))
          else ret ())
     (if new_leaves sub_expansion \<noteq> None
      then forM (rev (leaves_list sub_expansion)) (insert_leave E subtree_root)
      else ret ())"
  by pat_completeness auto
termination
  by (relation "measure (\<lambda>(E, root, e). size e)") (auto dest: children_size)

declare apply_target_expansion.simps [simp del]

text \<open>The script, for the three path arguments.\<close>

definition doc_transfer_main ::
  "(gnode set \<Rightarrow> gnode list) \<Rightarrow> (gname set \<Rightarrow> gname list) \<Rightarrow> ('h, 'n) lxml \<Rightarrow> string \<Rightarrow> string \<Rightarrow> string \<Rightarrow> ('h, unit) py" where
  "doc_transfer_main itn it E pj pb out =
     bnd (xparse E pj) (\<lambda>pj_root.
     bnd (xparse E pb) (\<lambda>pb_root.
     bnd (compile_target_expansion itn it E pj_root) (\<lambda>expansion.
     seq (case map_of (children_list expansion) ''system'' of
            None \<Rightarrow> ret ()
          | Some sub \<Rightarrow> apply_target_expansion E pb_root sub)
     (bnd (xtostring E pb_root) (write_file out)))))"

end
