(* ===== verification/Doc_Rules.thy ===== *)
theory Doc_Rules
  imports Doc_Transfer
begin

text \<open>
  The rules of \<^verbatim>\<open>doc_transfer.py\<close>: what a key matches (\<^verbatim>\<open>apply_rule\<close>, \<^verbatim>\<open>simple_xpath_match\<close>) and
  where a node is put in the structure of insertions (\<^verbatim>\<open>add_to_output_func\<close>).
\<close>

subsection \<open>Keys\<close>

text \<open>The local part of a key with an attribute test.\<close>

definition test_seg :: "string \<Rightarrow> string \<Rightarrow> string \<Rightarrow> string" where
  "test_seg t a v = t @ ''[@'' @ a @ ''='' @ dq v @ '']''"

text \<open>Characters with a meaning in a key.\<close>

abbreviation plain :: "string \<Rightarrow> bool" where
  "plain s \<equiv> set s \<inter> {CHR ''/'', CHR ''['', CHR ''='', CHR 0x22} = {}"

lemma split_two:
  assumes "c \<notin> set s"
  shows "split_acc [c, d] acc (s @ c # d # t) = (rev acc @ s) # split_str t [c, d]"
    and "split_acc [c, d] acc s = [rev acc @ s]"
  using assms by (induction s arbitrary: acc) (auto simp: split_str_def startswith_def)

lemma split_two_later:
  assumes "d \<notin> set s"
  shows "split_acc [c, d] acc (s @ c # d # t) = (rev acc @ s) # split_str t [c, d]"
  using assms
proof (induction s arbitrary: acc)
  case (Cons x s)
  then show ?case by (cases s) (auto simp: startswith_def)
qed (simp add: split_str_def startswith_def)

lemma contains_char: "contains [c] s \<longleftrightarrow> c \<in> set s"
  by (induction s) auto

text \<open>How the first part of a key is taken apart.\<close>

lemma test_seg_parts:
  assumes "plain t" "plain a" "plain v"
  shows "hd (split_str (test_seg t a v) ''['') = t" and "contains ''['' (test_seg t a v)"
    and "py_nth (split_str (test_seg t a v) ''[@'') 1 = Inr (a @ ''='' @ dq v @ '']'')"
    and "hd (split_str (a @ ''='' @ dq v) ''='') = a"
    and "py_nth (split_str (a @ ''='' @ dq v) [CHR ''='', CHR 0x22]) 1 = Inr (v @ [CHR 0x22])"
    and "CHR ''/'' \<notin> set (test_seg t a v)"
proof -
  let ?r = "a @ ''='' @ dq v @ '']''"
  have t: "CHR ''['' \<notin> set t" and r: "CHR ''['' \<notin> set ?r" using assms by (auto simp: dq_def)
  show "hd (split_str (test_seg t a v) ''['') = t"
    using split_char [OF t, of "CHR ''@'' # ?r"] by (simp add: test_seg_def)
  show "contains ''['' (test_seg t a v)" by (simp add: contains_char test_seg_def)
  have "split_str (test_seg t a v) ''[@'' = [t, ?r]"
    using split_two(1) [OF t, of "CHR ''@''" "[]" ?r] split_two(2) [OF r, of "CHR ''@''" "[]"]
    by (simp add: test_seg_def split_str_def)
  then show "py_nth (split_str (test_seg t a v) ''[@'') 1 = Inr ?r" by (simp add: py_nth_def)
  show "hd (split_str (a @ ''='' @ dq v) ''='') = a"
    using split_char [of "CHR ''=''" a "dq v"] assms by simp
  have no: "CHR 0x22 \<notin> set a" "CHR ''='' \<notin> set (v @ [CHR 0x22])" using assms by auto
  have "split_str (a @ ''='' @ dq v) [CHR ''='', CHR 0x22] = [a, v @ [CHR 0x22]]"
    using split_two_later [OF no(1), of "CHR ''=''" "[]" "v @ [CHR 0x22]"]
      split_two(2) [OF no(2), of "CHR 0x22" "[]"] by (simp add: split_str_def dq_def)
  then show "py_nth (split_str (a @ ''='' @ dq v) [CHR ''='', CHR 0x22]) 1 = Inr (v @ [CHR 0x22])"
    by (simp add: py_nth_def)
  show "CHR ''/'' \<notin> set (test_seg t a v)" using assms by (auto simp: test_seg_def dq_def)
qed

text \<open>The first part of a key and what remains of it.\<close>

definition key_rest :: "string \<Rightarrow> string \<Rightarrow> string" where
  "key_rest seg rest = (if rest = [] then seg else seg @ ''/'' @ rest)"

definition rest_action :: "string \<Rightarrow> action \<Rightarrow> action" where
  "rest_action rest val = (if rest = [] then val else DoTraversal [(rest, val)])"

lemma split_key:
  assumes "CHR ''/'' \<notin> set seg"
  shows "hd (split_str (key_rest seg rest) ''/'') = seg"
    and "new_action (key_rest seg rest) val = rest_action rest val"
proof -
  have "split_str (key_rest seg rest) ''/'' = (if rest = [] then [seg] else seg # split_str rest ''/'')"
    using split_no_char [OF assms] split_char [OF assms, of rest] by (simp add: key_rest_def)
  then show "hd (split_str (key_rest seg rest) ''/'') = seg" "new_action (key_rest seg rest) val = rest_action rest val"
    by (simp_all add: new_action_def rest_action_def)
qed

text \<open>A key that starts with a tag matches the nodes with that tag.\<close>

lemma apply_rule_tag:
  assumes "plain t"
  shows "apply_rule nod (key_rest t rest) val =
     Inr (if n_tag nod = t then (True, Map.empty, rest_action rest val) else (False, Map.empty, NoAction))"
  using assms split_key [of t rest] split_no_char [of "CHR ''[''" t]
  by (simp add: apply_rule_def contains_char)

text \<open>A key that starts with a tag and an attribute test.  A parameter matches every value and is
  bound to it.\<close>

lemma apply_rule_test:
  assumes "plain t" "plain a" "plain v"
  shows "apply_rule nod (key_rest (test_seg t a v) rest) val =
     (if n_tag nod \<noteq> t then Inr (False, Map.empty, NoAction)
      else case map_of (n_attrib nod) a of
             None \<Rightarrow> Inr (False, Map.empty, NoAction)
           | Some x \<Rightarrow>
               (case v of
                  [] \<Rightarrow> Inl IndexError
                | c # name \<Rightarrow>
                    if c = CHR ''$'' then Inr (True, [name \<mapsto> x], rest_action rest val)
                    else if x = v then Inr (True, Map.empty, rest_action rest val)
                    else Inr (False, Map.empty, NoAction)))"
proof -
  note parts = test_seg_parts [OF assms]
  have bl: "butlast (a @ ''='' @ dq v @ '']'') = a @ ''='' @ dq v" by (simp add: butlast_append)
  show ?thesis
    unfolding apply_rule_def split_key [OF parts(6)] parts(1,3) Let_def bl sum.case parts(4,5)
    using parts(2) by (simp add: bl split: option.split list.split)
qed

text \<open>C7. The match of a local path \<^verbatim>\<open>tag[@attr="value"]\<close>, as the expansion of a target path produces
  it, is exact: it holds for the nodes with that tag whose attribute has that value, and for no
  others, as long as the value is not empty, does not start with \<^verbatim>\<open>$\<close> and has none of the
  characters the matcher splits at.\<close>

theorem simple_xpath_match_exact:
  assumes "plain t" "plain a" "plain v" and "v \<noteq> []" and "hd v \<noteq> CHR ''$''"
  shows "simple_xpath_match nod (t @ ''[@'' @ a @ ''='' @ dq v @ '']'') =
     Inr (n_tag nod = t \<and> map_of (n_attrib nod) a = Some v)"
proof -
  have "t @ ''[@'' @ a @ ''='' @ dq v @ '']'' = key_rest (test_seg t a v) []"
    by (simp add: test_seg_def key_rest_def)
  then show ?thesis
    using apply_rule_test [OF assms(1-3), of nod "[]" NoAction] assms(4,5)
    by (cases v) (auto simp: simple_xpath_match_def split: option.splits)
qed

theorem simple_xpath_match_exact_witness:
  "simple_xpath_match (nd ''subject'' [(''name'', ''dm1'')] [] None) (''subject'' @ ''[@'' @ ''name'' @ ''='' @ dq ''dm1'' @ '']'') = Inr True"
  using simple_xpath_match_exact [of "''subject''" "''name''" "''dm1''" "nd ''subject'' [(''name'', ''dm1'')] [] None"]
  by (simp add: nd_def)

end
