(* ===== verification/Doc_Expansion.thy ===== *)
theory Doc_Expansion
  imports Doc_Rules
begin

text \<open>
  The structure of insertions of \<^verbatim>\<open>doc_transfer.py\<close>, seen as a map from paths to lists of nodes:
  \<^verbatim>\<open>add_to_output_func\<close> appends the node at exactly the paths its target path stands for, and the
  traversal of the joined policy collects exactly the nodes its rules select.
\<close>

subsection \<open>Lookup and update\<close>

fun leaves_at :: "'n expansion \<Rightarrow> string list \<Rightarrow> 'n list" where
  "leaves_at e [] = leaves_list e"
| "leaves_at e (k # ks) = (case map_of (children_list e) k of None \<Rightarrow> [] | Some e' \<Rightarrow> leaves_at e' ks)"

lemma leaves_at_empty [simp]: "leaves_at empty_expansion q = []"
  by (cases q) (simp_all add: empty_expansion_def)

lemma leaves_list_sel: "leaves_list e = (case new_leaves e of None \<Rightarrow> [] | Some ls \<Rightarrow> ls)"
  by (cases e) simp

lemma children_list_sel: "children_list e = (case children e of None \<Rightarrow> [] | Some d \<Rightarrow> d)"
  by (cases e) simp

lemma leaves_at_add_new_leaf:
  "leaves_at (add_new_leaf e n) q = leaves_at e q @ (if q = [] then [n] else [])"
  by (cases e; cases q) (auto simp: add_new_leaf_def split: option.splits)

lemma map_of_replace:
  "map_of (map (\<lambda>(a, b). if a = k then (a, x) else (a, b)) d) k' =
     (if k' = k \<and> k \<in> fst ` set d then Some x else map_of d k')"
proof (induction d)
  case (Cons p d)
  then show ?case by (cases p; cases "fst p = k"; cases "fst p = k'") simp_all
qed simp

lemma children_include:
  shows children_include_map: "map_of (children_list (include_new_child e k)) k' =
     (case map_of (children_list e) k' of None \<Rightarrow> if k' = k then Some empty_expansion else None | Some y \<Rightarrow> Some y)"
    and children_include_mem: "k \<in> fst ` set (children_list (include_new_child e k))"
    and leaves_include: "leaves_list (include_new_child e k) = leaves_list e"
proof -
  let ?d = "children_list e"
  have d: "children_list (include_new_child e k) = (if k \<in> fst ` set ?d then ?d else ?d @ [(k, empty_expansion)])"
    by (simp add: include_new_child_def children_list_sel Let_def)
  show "map_of (children_list (include_new_child e k)) k' =
     (case map_of ?d k' of None \<Rightarrow> if k' = k then Some empty_expansion else None | Some y \<Rightarrow> Some y)"
    using map_of_eq_None_iff [of ?d k] unfolding d
    by (cases "k' = k"; cases "map_of ?d k'") (auto simp: map_add_def)
  show "k \<in> fst ` set (children_list (include_new_child e k))" unfolding d by simp
  show "leaves_list (include_new_child e k) = leaves_list e"
    by (simp add: include_new_child_def leaves_list_sel Let_def)
qed

lemma leaves_at_get_child:
  "leaves_at (get_child (include_new_child e k) k) q = leaves_at e (k # q)"
  using children_include_map [of e k k] by (simp add: get_child_def children_list_sel [symmetric] split: option.splits)

lemma leaves_at_set_child:
  "leaves_at (set_child (include_new_child e k) k c) q =
     (case q of [] \<Rightarrow> leaves_at e [] | k' # q' \<Rightarrow> if k' = k then leaves_at c q' else leaves_at e q)"
proof (cases q)
  case Nil
  then show ?thesis using leaves_include [of e k] by (simp add: set_child_def leaves_list_sel)
next
  case (Cons k' q')
  let ?e = "include_new_child e k"
  have "children_list (set_child ?e k c) = map (\<lambda>(a, b). if a = k then (a, c) else (a, b)) (children_list ?e)"
    by (simp add: set_child_def children_list_sel split: option.splits)
  then show ?thesis
    using Cons children_include_map [of e k k'] children_include_mem [of k e] by (simp add: map_of_replace split: option.splits)
qed

subsection \<open>What a target path stands for\<close>

definition substitutions ::
  "(gname set \<Rightarrow> gname list) \<Rightarrow> string \<Rightarrow> (string \<rightharpoonup> string) \<Rightarrow> c2s_map \<Rightarrow> gname list option" where
  "substitutions it ps pb c2s =
     (if startswith ps ''$Component_To_Subjects''
      then (case py_nth (split_str ps ''$Component_To_Subjects($'') 1 of
              Inl e \<Rightarrow> None
            | Inr s \<Rightarrow> Option.bind (pb (hd (split_str s '')''))) (\<lambda>v. map_option it (c2s (Some v))))
      else (case py_nth (split_str ps ''$'') 1 of
              Inl e \<Rightarrow> None
            | Inr s \<Rightarrow> map_option (\<lambda>v. [Some v]) (pb s)))"

lemma runs_get_list_of_substitutions:
  "substitutions it ps pb c2s = Some r \<Longrightarrow>
     runs (get_list_of_substitutions it ps pb c2s) w (\<lambda>r' w'. r' = r \<and> w' = w)"
  by (auto simp: substitutions_def get_list_of_substitutions_def wp split: if_splits sum.splits option.splits bind_splits)

text \<open>The local paths one segment of a target path stands for.\<close>

definition seg_choices ::
  "(gname set \<Rightarrow> gname list) \<Rightarrow> (string \<rightharpoonup> string) \<Rightarrow> c2s_map \<Rightarrow> string \<Rightarrow> string list option" where
  "seg_choices it pb c2s seg =
     (if \<not> contains ''$'' seg then Some [seg]
      else case py_nth (split_str seg [CHR 0x22]) 1 of
             Inl e \<Rightarrow> None
           | Inr ps \<Rightarrow> Option.bind (substitutions it ps pb c2s) (\<lambda>subs.
               if None \<in> set subs then None else Some (map (\<lambda>s. replace_str ps (the s) seg) subs)))"

definition good_segs :: "string list \<Rightarrow> bool" where
  "good_segs segs \<longleftrightarrow> (\<forall>s \<in> set segs. s \<noteq> [] \<and> CHR ''/'' \<notin> set s)"

lemma split_join_segs: "good_segs (s # segs) \<Longrightarrow> split_str (join_str ''/'' (s # segs)) ''/'' = s # segs"
proof (induction segs arbitrary: s)
  case Nil
  then show ?case by (simp add: good_segs_def split_no_char)
next
  case (Cons t segs)
  then have "CHR ''/'' \<notin> set s" and "good_segs (t # segs)" by (auto simp: good_segs_def)
  then show ?case using split_char [of "CHR ''/''" s "join_str ''/'' (t # segs)"] Cons.IH by simp
qed

lemma join_segs_Nil: "good_segs segs \<Longrightarrow> join_str ''/'' segs = [] \<longleftrightarrow> segs = []"
  by (simp add: join_Nil_iff good_segs_def)

lemma count_list_Cons_map: "count_list (map (Cons x) L) q = (case q of [] \<Rightarrow> 0 | k # q' \<Rightarrow> if x = k then count_list L q' else 0)"
  by (induction L) (auto split: list.splits)

lemma count_product_snoc:
  "count_list (product_lists ((xs @ [x]) # xss)) q =
     count_list (product_lists (xs # xss)) q + (case q of [] \<Rightarrow> 0 | k # q' \<Rightarrow> if x = k then count_list (product_lists xss) q' else 0)"
  by (simp add: count_list_Cons_map)

text \<open>Adding below one child.\<close>

definition add_below ::
  "(gname set \<Rightarrow> gname list) \<Rightarrow> string \<Rightarrow> 'n \<Rightarrow> (string \<rightharpoonup> string) \<Rightarrow> c2s_map \<Rightarrow> 'n expansion \<Rightarrow> string \<Rightarrow> ('h, 'n expansion) py" where
  "add_below it path node pb c2s e k =
     bnd (add_to_output_func it path node pb c2s (get_child (include_new_child e k) k)) (\<lambda>c.
     ret (set_child (include_new_child e k) k c))"

lemma runs_add_below:
  assumes "\<And>e. runs (add_to_output_func it path node pb c2s e) w (\<lambda>e' w'. w' = w
              \<and> (\<forall>q. leaves_at e' q = leaves_at e q @ replicate (count_list P q) node))"
  shows "runs (add_below it path node pb c2s e k) w (\<lambda>e' w'. w' = w
     \<and> (\<forall>q. leaves_at e' q = leaves_at e q @
          replicate (case q of [] \<Rightarrow> 0 | k' # q' \<Rightarrow> if k = k' then count_list P q' else 0) node))"
  unfolding add_below_def runs_bnd
  by (rule runs_mono [OF assms])
    (auto simp: wp leaves_at_set_child leaves_at_get_child simp del: leaves_at.simps split: list.splits)

lemma add_to_output_param:
  assumes "target \<noteq> []" and "split_str target ''/'' = seg # segs" and "contains ''$'' seg"
    and "py_nth (split_str seg [CHR 0x22]) 1 = Inr ps"
  shows "add_to_output_func it target node pb c2s e =
     bnd (get_list_of_substitutions it ps pb c2s) (\<lambda>subs.
     foldM (\<lambda>e sub. bnd (as_str sub) (\<lambda>sub.
        add_below it (join_str ''/'' segs) node pb c2s e (replace_str ps sub seg))) e subs)"
  using assms by (simp add: add_to_output_func.simps [of it target] add_below_def Let_def lift_bnd)

lemma add_to_output_plain:
  assumes "target \<noteq> []" and "split_str target ''/'' = seg # segs" and "\<not> contains ''$'' seg"
  shows "add_to_output_func it target node pb c2s e = add_below it (join_str ''/'' segs) node pb c2s e seg"
  using assms by (simp add: add_to_output_func.simps [of it target] add_below_def Let_def)

lemma runs_add_to_output:
  assumes "good_segs segs" and "list_all2 (\<lambda>seg cs. seg_choices it pb c2s seg = Some cs) segs css"
  shows "runs (add_to_output_func it (join_str ''/'' segs) node pb c2s e) w (\<lambda>e' w'. w' = w
     \<and> (\<forall>q. leaves_at e' q = leaves_at e q @ replicate (count_list (product_lists css) q) node))"
  using assms
proof (induction segs arbitrary: css e)
  case Nil
  then show ?case by (simp add: add_to_output_func.simps wp leaves_at_add_new_leaf)
next
  case (Cons seg segs)
  from Cons.prems obtain cs css' where css: "css = cs # css'" "seg_choices it pb c2s seg = Some cs"
      "list_all2 (\<lambda>seg cs. seg_choices it pb c2s seg = Some cs) segs css'"
    by (auto simp: list_all2_Cons1)
  have ne: "join_str ''/'' (seg # segs) \<noteq> []" using join_segs_Nil [OF Cons.prems(1)] by simp
  note split = split_join_segs [OF Cons.prems(1)]
  have "good_segs segs" using Cons.prems(1) by (simp add: good_segs_def)
  note below = runs_add_below [OF Cons.IH [OF this css(3)]]
  show ?case
  proof (cases "contains ''$'' seg")
    case False
    then have "cs = [seg]" using css(2) by (simp add: seg_choices_def)
    then show ?thesis
      unfolding add_to_output_plain [OF ne split False]
      by (intro runs_mono [OF below]) (auto simp: css(1) count_list_Cons_map)
  next
    case True
    obtain ps subs where ps: "py_nth (split_str seg [CHR 0x22]) 1 = Inr ps" and subs: "substitutions it ps pb c2s = Some subs"
      and some: "None \<notin> set subs" and cs: "cs = map (\<lambda>s. replace_str ps (the s) seg) subs"
      using css(2) True by (auto simp: seg_choices_def split: sum.splits bind_splits if_splits)
    have loop: "runs (foldM (\<lambda>e sub. bnd (as_str sub) (\<lambda>sub.
             add_below it (join_str ''/'' segs) node pb c2s e (replace_str ps sub seg))) e subs) w
       (\<lambda>e' w'. w' = w \<and> (\<forall>q. leaves_at e' q = leaves_at e q
           @ replicate (count_list (product_lists (map (\<lambda>s. replace_str ps (the s) seg) subs # css')) q) node))"
    proof (rule runs_foldM, goal_cases)
      case 1
      show ?case by simp
    next
      case (2 pre sub post e1 v)
      then obtain s where s: "sub = Some s" using some by (cases sub) auto
      show ?case
        using 2(2) unfolding s by (auto simp: wp count_product_snoc replicate_add simp del: product_lists.simps
            intro!: runs_mono [OF below] split: list.splits)
    qed
    show ?thesis
      unfolding add_to_output_param [OF ne split True ps] runs_bnd
      by (rule runs_mono [OF runs_get_list_of_substitutions [OF subs]]) (use loop in \<open>simp add: css(1) cs\<close>)
  qed
qed

subsection \<open>What the rules select\<close>

text \<open>\<open>emits it f c2s act node pb q leaf\<close>: run at \<open>node\<close> with the parameters \<open>pb\<close>, the action puts
  \<open>leaf\<close> at the path \<open>q\<close>.\<close>

inductive emits ::
  "(gname set \<Rightarrow> gname list) \<Rightarrow> 'n view \<Rightarrow> c2s_map \<Rightarrow> action \<Rightarrow> 'n \<Rightarrow> (string \<rightharpoonup> string) \<Rightarrow> string list \<Rightarrow> 'n \<Rightarrow> bool"
  for it f c2s where
  emits_add:
    "good_segs segs \<Longrightarrow> target = ''/'' @ join_str ''/'' segs \<Longrightarrow>
     list_all2 (\<lambda>seg k. \<exists>cs. seg_choices it pb c2s seg = Some cs \<and> k \<in> set cs) segs q \<Longrightarrow>
     emits it f c2s (AddToOutput target) node pb q node"
| emits_rule:
    "child \<in> set (n_children (f node)) \<Longrightarrow> n_tag (f child) \<noteq> [] \<Longrightarrow> (key, val) \<in> set rules \<Longrightarrow>
     apply_rule (f child) key val = Inr (True, fresh, act) \<Longrightarrow>
     emits it f c2s act child (pb ++ fresh) q leaf \<Longrightarrow>
     emits it f c2s (DoTraversal rules) node pb q leaf"

inductive_cases emits_addE: "emits it f c2s (AddToOutput target) node pb q leaf"
inductive_simps emits_traversal: "emits it f c2s (DoTraversal rules) node pb q leaf"
inductive_simps emits_none: "emits it f c2s NoAction node pb q leaf"

text \<open>The action runs without an error: every rule that is tried can be parsed, and every target
  path that is reached can be resolved.\<close>

inductive act_ok ::
  "(gname set \<Rightarrow> gname list) \<Rightarrow> 'n view \<Rightarrow> c2s_map \<Rightarrow> action \<Rightarrow> 'n \<Rightarrow> (string \<rightharpoonup> string) \<Rightarrow> bool"
  for it f c2s where
  act_ok_add:
    "good_segs segs \<Longrightarrow> target = ''/'' @ join_str ''/'' segs \<Longrightarrow>
     \<forall>seg \<in> set segs. seg_choices it pb c2s seg \<noteq> None \<Longrightarrow>
     act_ok it f c2s (AddToOutput target) node pb"
| act_ok_rule:
    "(\<And>child key val. child \<in> set (n_children (f node)) \<Longrightarrow> n_tag (f child) \<noteq> [] \<Longrightarrow> (key, val) \<in> set rules \<Longrightarrow>
        \<exists>b fresh act. apply_rule (f child) key val = Inr (b, fresh, act) \<and> (b \<longrightarrow> act_ok it f c2s act child (pb ++ fresh))) \<Longrightarrow>
     act_ok it f c2s (DoTraversal rules) node pb"

lemma join_segs_inject:
  assumes "good_segs segs" and "good_segs segs'" and "join_str ''/'' segs = join_str ''/'' segs'"
  shows "segs = segs'"
proof (cases "segs = [] \<or> segs' = []")
  case True
  then show ?thesis using assms join_segs_Nil by fastforce
next
  case False
  then show ?thesis using assms split_join_segs by (metis list.exhaust)
qed

lemma runs_foldM_leaves:
  assumes "\<And>x e. x \<in> set xs \<Longrightarrow> runs (g e x) w (\<lambda>e' w'. w' = w \<and> (\<forall>q. set (leaves_at e' q) = set (leaves_at e q) \<union> S x q))"
  shows "runs (foldM g e xs) w (\<lambda>e' w'. w' = w \<and> (\<forall>q. set (leaves_at e' q) = set (leaves_at e q) \<union> (\<Union>x \<in> set xs. S x q)))"
proof (rule runs_foldM, goal_cases)
  case 1
  show ?case by simp
next
  case (2 pre x post e1 v)
  then have v: "v = w" and x: "x \<in> set xs" by auto
  show ?case unfolding v by (rule runs_mono [OF assms [OF x]]) (use 2 in auto)
qed

lemma run_action_emits:
  assumes "act_ok it (x_node E (w_heap w)) c2s act node pb"
  shows "runs (run_action it E act node pb c2s e) w (\<lambda>e' w'. w' = w
     \<and> (\<forall>q. set (leaves_at e' q) = set (leaves_at e q) \<union> {l. emits it (x_node E (w_heap w)) c2s act node pb q l}))"
  using assms
proof (induction arbitrary: e rule: act_ok.induct)
  case (act_ok_add segs target pb node)
  let ?css = "map (\<lambda>seg. the (seg_choices it pb c2s seg)) segs"
  have all: "list_all2 (\<lambda>seg cs. seg_choices it pb c2s seg = Some cs) segs ?css"
    using act_ok_add(3) by (auto simp: list_all2_map2 list_all2_same)
  have q: "q \<in> set (product_lists ?css) \<longleftrightarrow> list_all2 (\<lambda>seg k. \<exists>cs. seg_choices it pb c2s seg = Some cs \<and> k \<in> set cs) segs q" for q
  proof -
    have "q \<in> set (product_lists ?css) \<longleftrightarrow> list_all2 (\<lambda>seg k. k \<in> set (the (seg_choices it pb c2s seg))) segs q"
      by (auto simp: product_lists_set list_all2_map2 list_all2_conv_all_nth)
    also have "\<dots> \<longleftrightarrow> list_all2 (\<lambda>seg k. \<exists>cs. seg_choices it pb c2s seg = Some cs \<and> k \<in> set cs) segs q"
      by (rule list.rel_cong [OF refl refl]) (use act_ok_add(3) in force)
    finally show ?thesis .
  qed
  have em: "{l. emits it (x_node E (w_heap w)) c2s (AddToOutput target) node pb q l} = (if q \<in> set (product_lists ?css) then {node} else {})" for q
    using act_ok_add(1,2) unfolding q
    by (auto intro: emits_add elim!: emits_addE dest: join_segs_inject)
  show ?case
    unfolding run_action.simps act_ok_add(2) append.simps list.sel
    by (rule runs_mono [OF runs_add_to_output [OF act_ok_add(1) all]])
      (use em [unfolded act_ok_add(2)] in \<open>auto simp: set_replicate_conv_if count_list_0_iff\<close>)
next
  case (act_ok_rule node rules pb)
  let ?f = "x_node E (w_heap w)"
  let ?S = "\<lambda>child r q. {l. \<exists>fresh act. apply_rule (?f child) (fst r) (snd r) = Inr (True, fresh, act) \<and> emits it ?f c2s act child (pb ++ fresh) q l}"
  let ?els = "filter (\<lambda>c. n_tag (?f c) \<noteq> []) (n_children (?f node))"
  have rule: "runs (bnd (xlook E child) (\<lambda>nd. case apply_rule nd key val of Inl e \<Rightarrow> raise e
         | Inr (b, fresh, action) \<Rightarrow> if b then run_action it E action child (pb ++ fresh) c2s e else ret e)) w
       (\<lambda>e' w'. w' = w \<and> (\<forall>q. set (leaves_at e' q) = set (leaves_at e q) \<union> ?S child (key, val) q))"
    if c: "child \<in> set ?els" and r: "(key, val) \<in> set rules" for child key val e
  proof -
    have mem: "child \<in> set (n_children (?f node))" "n_tag (?f child) \<noteq> []" using c by auto
    obtain b fresh act where ap: "apply_rule (?f child) key val = Inr (b, fresh, act)"
      and ih: "b \<Longrightarrow> runs (run_action it E act child (pb ++ fresh) c2s e) w (\<lambda>e' w'. w' = w
            \<and> (\<forall>q. set (leaves_at e' q) = set (leaves_at e q) \<union> {l. emits it ?f c2s act child (pb ++ fresh) q l}))"
      using act_ok_rule.IH [OF mem r] by blast
    then show ?thesis by (cases b) (auto simp: wp intro: runs_mono [OF ih])
  qed
  have "runs (foldM (\<lambda>e child. foldM (\<lambda>e (key, val). bnd (xlook E child) (\<lambda>nd. case apply_rule nd key val of Inl e \<Rightarrow> raise e
         | Inr (b, fresh, action) \<Rightarrow> if b then run_action it E action child (pb ++ fresh) c2s e else ret e)) e rules) e ?els) w
      (\<lambda>e' w'. w' = w \<and> (\<forall>q. set (leaves_at e' q) = set (leaves_at e q) \<union> (\<Union>child \<in> set ?els. \<Union>r \<in> set rules. ?S child r q)))"
    by (rule runs_foldM_leaves, rule runs_foldM_leaves) (use rule in auto)
  moreover have "(\<Union>child \<in> set ?els. \<Union>r \<in> set rules. ?S child r q) = {l. emits it ?f c2s (DoTraversal rules) node pb q l}" for q
    by (auto simp: emits_traversal) (metis fst_conv snd_conv)+
  ultimately show ?case
    by (simp add: run_action.simps wp)
qed

end
