(* ===== verification/Doc_Deps.thy ===== *)
theory Doc_Deps
  imports Doc_Transfer "HOL-Library.List_Lexorder" "HOL-Library.Char_ord" "HOL-Library.Option_ord"
    "HOL-Library.Product_Lexorder"
begin

text \<open>
  The component-to-subjects map of \<^verbatim>\<open>doc_transfer.py\<close>: what \<^verbatim>\<open>compile_component_to_subjects_map\<close>
  returns is, for every library and component of the policy, the set of subjects that depend on
  it directly or through other components and libraries.
\<close>

text \<open>An order of iteration visits every element of a finite set once.\<close>

definition iter_ok :: "('a set \<Rightarrow> 'a list) \<Rightarrow> bool" where
  "iter_ok it \<longleftrightarrow> (\<forall>A. finite A \<longrightarrow> set (it A) = A \<and> distinct (it A))"

subsection \<open>The dependencies a policy declares\<close>

definition node_name :: "'n view \<Rightarrow> 'n \<Rightarrow> gname" where
  "node_name f e = map_of (n_attrib (f e)) ''name''"

text \<open>The libraries named below the first \<^verbatim>\<open>depends\<close> child.\<close>

definition depends_on :: "'n view \<Rightarrow> 'n \<Rightarrow> gname set" where
  "depends_on f e =
     (case List.find (\<lambda>c. n_tag (f c) = ''depends'') (n_children (f e)) of
        None \<Rightarrow> {}
      | Some d \<Rightarrow> {map_of (n_attrib (f c)) ''ref'' | c. c \<in> set (n_children (f d)) \<and> n_tag (f c) = ''library''})"

text \<open>The component a subject instantiates.\<close>

definition instance_of :: "'n view \<Rightarrow> 'n \<Rightarrow> gname set" where
  "instance_of f e =
     (case List.find (\<lambda>c. n_tag (f c) = ''component'') (n_children (f e)) of
        None \<Rightarrow> {}
      | Some c \<Rightarrow> {r. r = map_of (n_attrib (f c)) ''ref'' \<and> r \<noteq> None \<and> r \<noteq> Some []})"

definition policy_nodes :: "'n view \<Rightarrow> 'n list \<Rightarrow> 'n list \<Rightarrow> 'n list \<Rightarrow> gnode set" where
  "policy_nodes f libs comps subjs =
     {(node_name f e, CHR ''l'') | e. e \<in> set libs} \<union> {(node_name f e, CHR ''c'') | e. e \<in> set comps}
     \<union> {(node_name f e, CHR ''s'') | e. e \<in> set subjs}"

definition lib_edges :: "'n view \<Rightarrow> char \<Rightarrow> 'n set \<Rightarrow> (gnode \<times> gnode) set" where
  "lib_edges f kind es = {((node_name f e, kind), (r, CHR ''l'')) | e r. e \<in> es \<and> r \<in> depends_on f e}"

definition subj_edges :: "'n view \<Rightarrow> 'n set \<Rightarrow> (gnode \<times> gnode) set" where
  "subj_edges f es = {((node_name f e, CHR ''s''), (r, CHR ''c'')) | e r. e \<in> es \<and> r \<in> instance_of f e}"

text \<open>The dependency relation: declared dependencies on something the policy defines.\<close>

definition policy_deps :: "'n view \<Rightarrow> 'n list \<Rightarrow> 'n list \<Rightarrow> 'n list \<Rightarrow> (gnode \<times> gnode) set" where
  "policy_deps f libs comps subjs =
     {(a, b). (a, b) \<in> lib_edges f CHR ''l'' (set libs) \<union> lib_edges f CHR ''c'' (set comps) \<union> subj_edges f (set subjs)
            \<and> b \<in> policy_nodes f libs comps subjs}"

subsection \<open>Building the graph\<close>

lemma add_node_sets [simp]:
  "set (g_nodes (add_node n g)) = insert n (set (g_nodes g))" "g_edges (add_node n g) = g_edges g"
  by (auto simp: add_node_def)

lemma add_edge_sets [simp]:
  "set (g_edges (add_edge m n g)) = insert (m, n) (set (g_edges g))" "g_nodes (add_edge m n g) = g_nodes g"
  by (auto simp: add_edge_def)

lemma runs_add_depends:
  "runs (add_depends E k nm g e) w (\<lambda>g' w'. w' = w \<and> g_nodes g' = g_nodes g
     \<and> set (g_edges g') = set (g_edges g) \<union> {((nm, k), (r, CHR ''l'')) | r. r \<in> depends_on (x_node E (w_heap w)) e})"
proof (cases "List.find (\<lambda>c. n_tag (x_node E (w_heap w) c) = ''depends'') (n_children (x_node E (w_heap w) e))")
  case None
  then show ?thesis by (simp add: add_depends_def wp depends_on_def)
next
  case (Some d)
  let ?rf = "\<lambda>c. map_of (n_attrib (x_node E (w_heap w) c)) ''ref''"
  have "runs (foldM (\<lambda>g dep. bnd (xget E dep ''ref'') (\<lambda>rf. ret (add_edge (nm, k) (rf, CHR ''l'') g))) g deps) w
     (\<lambda>g' w'. w' = w \<and> g_nodes g' = g_nodes g
        \<and> set (g_edges g') = set (g_edges g) \<union> {((nm, k), (?rf c, CHR ''l'')) | c. c \<in> set deps})" for deps
    by (rule runs_foldM) (auto simp: wp)
  from this [of "filter (\<lambda>c. n_tag (x_node E (w_heap w) c) = ''library'') (n_children (x_node E (w_heap w) d))"]
  show ?thesis
    using Some by (auto simp: add_depends_def wp depends_on_def elim!: runs_mono)
qed

lemma runs_add_comp_nodes:
  fixes E :: "('h, 'n) lxml" and w :: "'h world"
  defines "f \<equiv> x_node E (w_heap w)"
  shows "runs (foldM (add_comp_node E k) (c2s, g) es) w (\<lambda>(c2s', g') w'. w' = w
      \<and> (\<forall>n. c2s' n = (if n \<in> node_name f ` set es then Some {} else c2s n))
      \<and> set (g_nodes g') = set (g_nodes g) \<union> {(node_name f e, k) | e. e \<in> set es}
      \<and> set (g_edges g') = set (g_edges g) \<union> lib_edges f k (set es))"
proof (rule runs_foldM, goal_cases)
  case 1
  show ?case by (simp add: lib_edges_def)
next
  case (2 pre e post st v)
  obtain c2s1 g1 where st: "st = (c2s1, g1)" by (cases st)
  have v: "v = w" using 2(2) st by simp
  have body: "runs (add_depends E k (node_name f e) (add_node (node_name f e, k) g1) e) w
     (\<lambda>g' w'. w' = w \<and> set (g_nodes g') = insert (node_name f e, k) (set (g_nodes g1))
       \<and> set (g_edges g') = set (g_edges g1) \<union> {((node_name f e, k), (r, CHR ''l'')) | r. r \<in> depends_on f e})"
    by (rule runs_mono [OF runs_add_depends]) (simp add: f_def)
  show ?case
    unfolding st v using 2(2) unfolding st
    by (auto simp: add_comp_node_def wp node_name_def f_def [symmetric] lib_edges_def
        intro!: runs_mono [OF body [unfolded node_name_def]])
qed

lemma runs_add_subj_node:
  "runs (add_subj_node E g e) w (\<lambda>g' w'. w' = w
     \<and> set (g_nodes g') = insert (node_name (x_node E (w_heap w)) e, CHR ''s'') (set (g_nodes g))
     \<and> set (g_edges g') = set (g_edges g) \<union>
         {((node_name (x_node E (w_heap w)) e, CHR ''s''), (r, CHR ''c'')) | r. r \<in> instance_of (x_node E (w_heap w)) e})"
  by (cases "List.find (\<lambda>c. n_tag (x_node E (w_heap w) c) = ''component'') (n_children (x_node E (w_heap w) e))")
    (auto simp: add_subj_node_def wp Let_def node_name_def instance_of_def)

lemma runs_add_subj_nodes:
  fixes E :: "('h, 'n) lxml" and w :: "'h world"
  defines "f \<equiv> x_node E (w_heap w)"
  shows "runs (foldM (add_subj_node E) g es) w (\<lambda>g' w'. w' = w
      \<and> set (g_nodes g') = set (g_nodes g) \<union> {(node_name f e, CHR ''s'') | e. e \<in> set es}
      \<and> set (g_edges g') = set (g_edges g) \<union> subj_edges f (set es))"
proof (rule runs_foldM, goal_cases)
  case 1
  show ?case by (simp add: subj_edges_def)
next
  case (2 pre e post g1 v)
  then show ?case
    by (auto simp: subj_edges_def f_def [symmetric] intro!: runs_mono [OF runs_add_subj_node [of E g1 e w, folded f_def]])
qed

subsection \<open>Resolving the dependencies\<close>

lemma runs_add_subject_to:
  assumes "fst ` set ns \<subseteq> dom c2s"
  shows "runs (foldM (add_subject_to s) c2s ns) w (\<lambda>c2s' w'. w' = w
     \<and> (\<forall>n. c2s' n = map_option (\<lambda>S. S \<union> {t. t = s \<and> n \<in> fst ` set ns}) (c2s n)))"
proof (rule runs_foldM, goal_cases)
  case 1
  show ?case by (simp add: option.map_ident)
next
  case (2 pre x post c2s1 v)
  then have "fst x \<in> dom c2s" using assms by auto
  then obtain S where S: "c2s (fst x) = Some S" by blast
  then show ?case
    using 2(2) by (cases "c2s1 (fst x)") (auto simp: add_subject_to_def wp split: if_splits)
qed

lemma runs_resolve:
  assumes "\<And>s. s \<in> set ss \<Longrightarrow> fst ` set (r s) \<subseteq> dom c2s"
  shows "runs (foldM (\<lambda>c2s s. foldM (add_subject_to (fst s)) c2s (r s)) c2s ss) w (\<lambda>c2s' w'. w' = w
     \<and> (\<forall>n. c2s' n = map_option (\<lambda>S. S \<union> {fst s | s. s \<in> set ss \<and> n \<in> fst ` set (r s)}) (c2s n)))"
proof (rule runs_foldM, goal_cases)
  case 1
  show ?case by (simp add: option.map_ident)
next
  case (2 pre s post c2s1 v)
  have "dom c2s1 = dom c2s" using 2(2) by (auto simp: dom_def)
  then have sub: "fst ` set (r s) \<subseteq> dom c2s1" using assms 2(1) by simp
  have eq: "map_option (\<lambda>S. S \<union> A) (map_option (\<lambda>S. S \<union> B) x) = map_option (\<lambda>S. S \<union> C) x"
    if "B \<union> A = C" for A B C :: "gname set" and x
    using that by (cases x) auto
  show ?case
    by (cases s, rule runs_mono [OF runs_add_subject_to [OF sub]]) (use 2(2) in \<open>auto intro!: eq\<close>)
qed

lemma sorted_iter_ok: "iter_ok sorted_list_of_set"
  by (simp add: iter_ok_def)

lemma runs_resolve_policy:
  fixes f :: "'n view" and libs comps subjs :: "'n list"
  defines "D \<equiv> policy_deps f libs comps subjs" and "names \<equiv> node_name f ` (set libs \<union> set comps)"
  assumes it: "iter_ok it" and c2s: "\<forall>n. c2s n = (if n \<in> names then Some {} else None)"
    and nodes: "set (g_nodes g) = policy_nodes f libs comps subjs"
    and edges: "set (g_edges g) = lib_edges f CHR ''l'' (set libs) \<union> lib_edges f CHR ''c'' (set comps) \<union> subj_edges f (set subjs)"
  shows "runs (foldM (\<lambda>c2s s. foldM (add_subject_to (fst s)) c2s (it (get_reachable_nodes g s))) c2s
                 (filter (\<lambda>x. snd x = CHR ''s'') (g_nodes g))) w
           (\<lambda>c2s w'. w' = w \<and> (\<forall>n. c2s n = (if n \<in> names then Some {s. \<exists>k. ((s, CHR ''s''), (n, k)) \<in> D\<^sup>+} else None)))"
proof -
  have D: "dep_rel g = D" by (auto simp: dep_rel_def D_def policy_deps_def nodes edges)
  have reach: "set (it (get_reachable_nodes g s)) = D\<^sup>+ `` {s}" for s
    using it get_reachable_subset [of g s] unfolding iter_ok_def get_reachable_trancl D
    by (meson List.finite_set finite_subset)
  have reached: "n \<in> fst ` set (it (get_reachable_nodes g s)) \<longleftrightarrow> (\<exists>k. (s, (n, k)) \<in> D\<^sup>+)" for n s
    unfolding reach by force
  have target: "fst b \<in> names" if "(a, b) \<in> D\<^sup>+" for a b
    using that by (cases rule: tranclE)
      (auto simp: D_def names_def policy_deps_def lib_edges_def subj_edges_def policy_nodes_def)
  have source: "(s, CHR ''s'') \<in> set (g_nodes g)" if "((s, CHR ''s''), b) \<in> D\<^sup>+" for s b
    using that by (cases rule: converse_tranclE)
      (auto simp: nodes D_def policy_deps_def lib_edges_def subj_edges_def policy_nodes_def)
  have "fst ` set (it (get_reachable_nodes g s)) \<subseteq> dom c2s" for s
    using c2s target by (fastforce simp: reach dom_def)
  note res = runs_resolve [of "filter (\<lambda>x. snd x = CHR ''s'') (g_nodes g)" "\<lambda>s. it (get_reachable_nodes g s)" c2s w, OF this]
  show ?thesis
    by (rule runs_mono [OF res]) (auto simp: c2s reached dest: source)
qed

lemma runs_component_map:
  assumes it: "iter_ok it"
    and libs: "x_xpath E (w_heap w) root ''components/library'' = Inr libs"
    and comps: "x_xpath E (w_heap w) root ''components/component'' = Inr comps"
    and subjs: "x_xpath E (w_heap w) root ''subjects/subject'' = Inr subjs"
  shows "runs (compile_component_to_subjects_map it E root) w (\<lambda>c2s w'. w' = w
     \<and> (\<forall>n. c2s n = (if n \<in> node_name (x_node E (w_heap w)) ` (set libs \<union> set comps)
                      then Some {s. \<exists>k. ((s, CHR ''s''), (n, k)) \<in> (policy_deps (x_node E (w_heap w)) libs comps subjs)\<^sup>+}
                      else None)))"
proof -
  let ?f = "x_node E (w_heap w)" and ?D = "policy_deps (x_node E (w_heap w)) libs comps subjs"
  let ?dom = "node_name ?f ` (set libs \<union> set comps)"
  define Q where "Q = (\<lambda>c2s w'. w' = w \<and> (\<forall>n. c2s n =
      (if n \<in> ?dom then Some {s. \<exists>k. ((s, CHR ''s''), (n, k)) \<in> ?D\<^sup>+} else None)))"
  note resolve = runs_resolve_policy [OF it, of _ ?f libs comps _ subjs w, folded Q_def]
  show ?thesis
    unfolding compile_component_to_subjects_map_def runs_bnd Q_def [symmetric]
    by (auto simp: wp libs comps subjs new_graph_def policy_nodes_def
        intro!: runs_mono [OF runs_add_comp_nodes] runs_mono [OF runs_add_subj_nodes] resolve)
qed

text \<open>C2. For every library and component of the joined policy the map holds exactly the subjects that
  depend on it, directly by instantiating it or through any chain of dependencies, and it has no
  other entries.  In particular no lookup fails with a \<^verbatim>\<open>KeyError\<close>: a dependency on a library that
  the policy does not define is never followed.\<close>

theorem component_to_subjects_map_correct:
  assumes it: "iter_ok it"
    and libs: "x_xpath E (w_heap w) root ''components/library'' = Inr libs"
    and comps: "x_xpath E (w_heap w) root ''components/component'' = Inr comps"
    and subjs: "x_xpath E (w_heap w) root ''subjects/subject'' = Inr subjs"
  shows "runs (compile_component_to_subjects_map it E root) w (\<lambda>c2s w'. w' = w
     \<and> (\<forall>n. c2s n = (if n \<in> node_name (x_node E (w_heap w)) ` (set libs \<union> set comps)
                      then Some {s. \<exists>k. ((s, CHR ''s''), (n, k)) \<in> (policy_deps (x_node E (w_heap w)) libs comps subjs)\<^sup>+}
                      else None)))"
  using assms by (rule runs_component_map)

text \<open>A subject that instantiates a component, which depends on a library, which depends on another
  library and, in a cycle, on itself.\<close>

definition demo_joined :: "nat xnode list" where
  "demo_joined =
     [nd ''system'' [] [1, 2] None, nd ''components'' [] [3, 4, 5] (Some 0), nd ''subjects'' [] [6] (Some 0),
      nd ''library'' [(''name'', ''libmuio'')] [7] (Some 1), nd ''library'' [(''name'', ''libmudm'')] [] (Some 1),
      nd ''component'' [(''name'', ''dm'')] [8, 13] (Some 1), nd ''subject'' [(''name'', ''dm1'')] [9] (Some 2),
      nd ''depends'' [] [10, 11] (Some 3), nd ''depends'' [] [12] (Some 5), nd ''component'' [(''ref'', ''dm'')] [] (Some 6),
      nd ''library'' [(''ref'', ''libmudm'')] [] (Some 7), nd ''library'' [(''ref'', ''libmuio'')] [] (Some 7),
      nd ''library'' [(''ref'', ''libmuio'')] [] (Some 8), nd ''doc'' [] [] (Some 5)]"

definition comp_paths :: "xstep list list" where
  "comp_paths = [[(''components'', []), (''library'', [])], [(''components'', []), (''component'', [])],
                 [(''subjects'', []), (''subject'', [])]]"

text \<open>The relative queries of the script, evaluated as paths from the node.\<close>

abbreviation demo_joined_lxml :: "(rheap, nat) lxml" where
  "demo_joined_lxml \<equiv> ref_lxml (\<lambda>_. None) (rel_query comp_paths)"

lemma demo_joined_queries:
  "x_xpath demo_joined_lxml (w_heap (table_world demo_joined)) 0 ''components/library'' = Inr [3, 4]"
  "x_xpath demo_joined_lxml (w_heap (table_world demo_joined)) 0 ''components/component'' = Inr [5]"
  "x_xpath demo_joined_lxml (w_heap (table_world demo_joined)) 0 ''subjects/subject'' = Inr [6]"
  by (simp_all add: table_world_def) code_simp+

lemma demo_joined_nodes:
  "table_view demo_joined 3 = nd ''library'' [(''name'', ''libmuio'')] [7] (Some 1)"
  "table_view demo_joined 4 = nd ''library'' [(''name'', ''libmudm'')] [] (Some 1)"
  "table_view demo_joined 5 = nd ''component'' [(''name'', ''dm'')] [8, 13] (Some 1)"
  "table_view demo_joined 6 = nd ''subject'' [(''name'', ''dm1'')] [9] (Some 2)"
  "table_view demo_joined 7 = nd ''depends'' [] [10, 11] (Some 3)"
  "table_view demo_joined 8 = nd ''depends'' [] [12] (Some 5)"
  "table_view demo_joined 9 = nd ''component'' [(''ref'', ''dm'')] [] (Some 6)"
  "table_view demo_joined 10 = nd ''library'' [(''ref'', ''libmudm'')] [] (Some 7)"
  "table_view demo_joined 12 = nd ''library'' [(''ref'', ''libmuio'')] [] (Some 8)"
  by (simp_all add: table_view_def demo_joined_def)

lemma demo_joined_deps:
  "Some ''dm'' \<in> instance_of (table_view demo_joined) 6"
  "Some ''libmuio'' \<in> depends_on (table_view demo_joined) 5"
  "Some ''libmudm'' \<in> depends_on (table_view demo_joined) 3"
  by (auto simp: instance_of_def depends_on_def demo_joined_nodes nd_def intro!: exI [of _ 10])

lemma demo_joined_names:
  "node_name (table_view demo_joined) 3 = Some ''libmuio''" "node_name (table_view demo_joined) 4 = Some ''libmudm''"
  "node_name (table_view demo_joined) 5 = Some ''dm''" "node_name (table_view demo_joined) 6 = Some ''dm1''"
  by (simp_all add: node_name_def demo_joined_nodes nd_def)

lemma demo_joined_nodes_of:
  "{(Some ''dm'', CHR ''c''), (Some ''libmuio'', CHR ''l''), (Some ''libmudm'', CHR ''l'')}
     \<subseteq> policy_nodes (table_view demo_joined) [3, 4] [5] [6]"
  by (auto simp: policy_nodes_def demo_joined_names intro: exI [of _ 3] exI [of _ 4])

lemma demo_joined_direct:
  "((Some ''dm1'', CHR ''s''), (Some ''dm'', CHR ''c'')) \<in> policy_deps (table_view demo_joined) [3, 4] [5] [6]"
proof -
  have "((Some ''dm1'', CHR ''s''), (Some ''dm'', CHR ''c'')) \<in> subj_edges (table_view demo_joined) {6}"
    using demo_joined_deps(1) demo_joined_names(4) unfolding subj_edges_def by force
  then show ?thesis using demo_joined_nodes_of unfolding policy_deps_def by auto
qed

lemma demo_joined_chain:
  "((Some ''dm1'', CHR ''s''), (Some ''libmudm'', CHR ''l'')) \<in> (policy_deps (table_view demo_joined) [3, 4] [5] [6])\<^sup>+"
proof -
  let ?D = "policy_deps (table_view demo_joined) [3, 4] [5] [6]" and ?f = "table_view demo_joined"
  have "((Some ''dm'', CHR ''c''), (Some ''libmuio'', CHR ''l'')) \<in> lib_edges ?f CHR ''c'' {5}"
    using demo_joined_deps(2) demo_joined_names(3) unfolding lib_edges_def by force
  moreover have "((Some ''libmuio'', CHR ''l''), (Some ''libmudm'', CHR ''l'')) \<in> lib_edges ?f CHR ''l'' {3, 4}"
    using demo_joined_deps(3) demo_joined_names(1) unfolding lib_edges_def by force
  ultimately have "((Some ''dm'', CHR ''c''), (Some ''libmuio'', CHR ''l'')) \<in> ?D"
      "((Some ''libmuio'', CHR ''l''), (Some ''libmudm'', CHR ''l'')) \<in> ?D"
    using demo_joined_nodes_of unfolding policy_deps_def by auto
  with demo_joined_direct show ?thesis by (meson trancl.r_into_trancl trancl.trancl_into_trancl)
qed

theorem component_to_subjects_map_correct_witness:
  "runs (compile_component_to_subjects_map sorted_list_of_set demo_joined_lxml 0) (table_world demo_joined)
     (\<lambda>c2s w'. w' = table_world demo_joined \<and> (\<exists>S. c2s (Some ''libmudm'') = Some S \<and> Some ''dm1'' \<in> S) \<and> c2s (Some ''other'') = None)"
proof -
  let ?f = "table_view demo_joined"
  have names: "node_name ?f ` (set [3, 4] \<union> set [5]) = {Some ''libmuio'', Some ''libmudm'', Some ''dm''}"
    by (auto simp: demo_joined_names)
  show ?thesis
    by (rule runs_mono [OF component_to_subjects_map_correct [OF sorted_iter_ok demo_joined_queries]])
      (use names demo_joined_chain in \<open>auto simp del: set_simps\<close>)
qed

end
