(* ===== verification/Doc_Target.thy ===== *)
theory Doc_Target
  imports Doc_Expansion Doc_Deps
begin

text \<open>
  The rule tables of \<^verbatim>\<open>doc_transfer.py\<close>: on every joined policy in which the subjects have names
  the traversal succeeds, and the structure it returns holds at the path of a subject exactly the
  documentation of the subject and of all components and libraries it depends on.
\<close>

subsection \<open>Rules as steps\<close>

text \<open>The keys of the tables are paths of tags, each possibly with an attribute that is bound to a
  parameter.\<close>

type_synonym rstep = "string \<times> (string \<times> string) option"

definition seg_of :: "rstep \<Rightarrow> string" where
  "seg_of s = (case snd s of None \<Rightarrow> fst s | Some (a, x) \<Rightarrow> test_seg (fst s) a (CHR ''$'' # x))"

fun rkey :: "rstep list \<Rightarrow> string" where
  "rkey [] = []"
| "rkey (s # ss) = key_rest (seg_of s) (rkey ss)"

text \<open>The step leads to \<open>c\<close> and binds \<open>b\<close>.\<close>

definition step_to :: "'n view \<Rightarrow> rstep \<Rightarrow> 'n \<Rightarrow> (string \<rightharpoonup> string) \<Rightarrow> 'n \<Rightarrow> bool" where
  "step_to f s n b c \<longleftrightarrow>
     c \<in> set (n_children (f n)) \<and> n_tag (f c) = fst s
     \<and> (case snd s of
          None \<Rightarrow> b = Map.empty
        | Some (a, x) \<Rightarrow> (\<exists>v. map_of (n_attrib (f c)) a = Some v \<and> b = [x \<mapsto> v]))"

fun walk_to :: "'n view \<Rightarrow> rstep list \<Rightarrow> 'n \<Rightarrow> (string \<rightharpoonup> string) \<Rightarrow> 'n \<Rightarrow> bool" where
  "walk_to f [] n b m \<longleftrightarrow> m = n \<and> b = Map.empty"
| "walk_to f (s # ss) n b m \<longleftrightarrow> (\<exists>c b1 b2. step_to f s n b1 c \<and> walk_to f ss c b2 m \<and> b = b1 ++ b2)"

definition good_step :: "rstep \<Rightarrow> bool" where
  "good_step s \<longleftrightarrow> fst s \<noteq> [] \<and> plain (fst s)
     \<and> (case snd s of None \<Rightarrow> True | Some (a, x) \<Rightarrow> plain a \<and> plain x)"

lemma seg_of_nonempty: "good_step s \<Longrightarrow> seg_of s \<noteq> []"
  by (auto simp: seg_of_def good_step_def test_seg_def split: option.splits)

lemma rkey_Nil_iff: "\<forall>s \<in> set ss. good_step s \<Longrightarrow> rkey ss = [] \<longleftrightarrow> ss = []"
  by (cases ss) (auto simp: key_rest_def seg_of_nonempty)

lemma apply_rule_step:
  assumes "good_step s"
  shows "\<exists>b fresh act. apply_rule (f c) (key_rest (seg_of s) rest) val = Inr (b, fresh, act)"
    and "c \<in> set (n_children (f n)) \<Longrightarrow>
         apply_rule (f c) (key_rest (seg_of s) rest) val = Inr (True, fresh, act) \<longleftrightarrow>
         step_to f s n fresh c \<and> act = rest_action rest val"
proof -
  have "(\<exists>b fresh act. apply_rule (f c) (key_rest (seg_of s) rest) val = Inr (b, fresh, act))
        \<and> (c \<in> set (n_children (f n)) \<longrightarrow>
            (apply_rule (f c) (key_rest (seg_of s) rest) val = Inr (True, fresh, act) \<longleftrightarrow>
             step_to f s n fresh c \<and> act = rest_action rest val))"
  proof (cases "snd s")
    case None
    then show ?thesis
      using assms apply_rule_tag [of "fst s" "f c" rest val] by (auto simp: seg_of_def good_step_def step_to_def)
  next
    case (Some p)
    obtain a x where p: "p = (a, x)" by (cases p)
    show ?thesis
      using assms Some p apply_rule_test [of "fst s" a "CHR ''$'' # x" "f c" rest val]
      by (auto simp: seg_of_def good_step_def step_to_def split: option.splits)
  qed
  then show "\<exists>b fresh act. apply_rule (f c) (key_rest (seg_of s) rest) val = Inr (b, fresh, act)"
    and "c \<in> set (n_children (f n)) \<Longrightarrow>
         apply_rule (f c) (key_rest (seg_of s) rest) val = Inr (True, fresh, act) \<longleftrightarrow>
         step_to f s n fresh c \<and> act = rest_action rest val"
    by auto
qed

lemma step_to_element: "good_step s \<Longrightarrow> step_to f s n b c \<Longrightarrow> c \<in> set (n_children (f n)) \<and> n_tag (f c) \<noteq> []"
  by (auto simp: step_to_def good_step_def)

text \<open>A traversal with one such rule.\<close>

lemma emits_one_rule:
  assumes "ss \<noteq> []" and "\<forall>s \<in> set ss. good_step s"
  shows "emits it f c2s (DoTraversal [(rkey ss, act)]) n pb q l \<longleftrightarrow>
     (\<exists>m b. walk_to f ss n b m \<and> emits it f c2s act m (pb ++ b) q l)"
  using assms
proof (induction ss arbitrary: n pb)
  case (Cons s ss)
  have s: "good_step s" using Cons.prems by simp
  have ap: "apply_rule (f c) (key_rest (seg_of s) (rkey ss)) act = Inr (True, b1, a) \<longleftrightarrow>
      step_to f s n b1 c \<and> a = rest_action (rkey ss) act" if "c \<in> set (n_children (f n))" for c b1 a
    by (rule apply_rule_step(2) [OF s, of c f n "rkey ss" act b1 a, OF that])
  have rest: "emits it f c2s (rest_action (rkey ss) act) c (pb ++ b1) q l \<longleftrightarrow>
      (\<exists>m b2. walk_to f ss c b2 m \<and> emits it f c2s act m (pb ++ (b1 ++ b2)) q l)" for c b1
  proof (cases "ss = []")
    case True
    then show ?thesis by (simp add: rest_action_def)
  next
    case False
    then have "rkey ss \<noteq> []" using rkey_Nil_iff Cons.prems by simp
    then show ?thesis using Cons.IH [OF False] Cons.prems by (simp add: rest_action_def map_add_assoc)
  qed
  show ?case
  proof
    assume "emits it f c2s (DoTraversal [(rkey (s # ss), act)]) n pb q l"
    then obtain c b1 a where c: "c \<in> set (n_children (f n))"
      "apply_rule (f c) (key_rest (seg_of s) (rkey ss)) act = Inr (True, b1, a)" "emits it f c2s a c (pb ++ b1) q l"
      by (auto simp: emits_traversal)
    then have st: "step_to f s n b1 c" and em: "emits it f c2s (rest_action (rkey ss) act) c (pb ++ b1) q l"
      using ap by simp_all
    from em obtain m b2 where "walk_to f ss c b2 m" "emits it f c2s act m (pb ++ (b1 ++ b2)) q l"
      unfolding rest by blast
    with st show "\<exists>m b. walk_to f (s # ss) n b m \<and> emits it f c2s act m (pb ++ b) q l"
      unfolding walk_to.simps by blast
  next
    assume "\<exists>m b. walk_to f (s # ss) n b m \<and> emits it f c2s act m (pb ++ b) q l"
    then obtain c b1 b2 m where st: "step_to f s n b1 c"
      and em: "walk_to f ss c b2 m" "emits it f c2s act m (pb ++ (b1 ++ b2)) q l"
      unfolding walk_to.simps by blast
    have "emits it f c2s (rest_action (rkey ss) act) c (pb ++ b1) q l" unfolding rest using em by blast
    moreover have c: "c \<in> set (n_children (f n))" "n_tag (f c) \<noteq> []" using step_to_element [OF s st] by auto
    moreover have "apply_rule (f c) (rkey (s # ss)) act = Inr (True, b1, rest_action (rkey ss) act)"
      using ap [OF c(1)] st by simp
    ultimately show "emits it f c2s (DoTraversal [(rkey (s # ss), act)]) n pb q l"
      by (intro emits_rule) auto
  qed
qed simp

lemma emits_rules_separate:
  "emits it f c2s (DoTraversal rules) n pb q l \<longleftrightarrow> (\<exists>r \<in> set rules. emits it f c2s (DoTraversal [r]) n pb q l)"
  by (auto simp: emits_traversal) blast+

lemma emits_rules:
  assumes "\<forall>(ss, act) \<in> set rs. ss \<noteq> [] \<and> (\<forall>s \<in> set ss. good_step s)"
  shows "emits it f c2s (DoTraversal (map (map_prod rkey id) rs)) n pb q l \<longleftrightarrow>
     (\<exists>(ss, act) \<in> set rs. \<exists>m b. walk_to f ss n b m \<and> emits it f c2s act m (pb ++ b) q l)"
proof -
  have one: "emits it f c2s (DoTraversal [map_prod rkey id r]) n pb q l \<longleftrightarrow>
      (case r of (ss, act) \<Rightarrow> \<exists>m b. walk_to f ss n b m \<and> emits it f c2s act m (pb ++ b) q l)" if "r \<in> set rs" for r
  proof (cases r)
    case (Pair ss act)
    with that assms have "ss \<noteq> []" "\<forall>s \<in> set ss. good_step s" by auto
    then show ?thesis by (simp add: Pair emits_one_rule)
  qed
  show ?thesis
    unfolding emits_rules_separate [of it f c2s "map (map_prod rkey id) rs"] set_map bex_simps(7)
    using one by blast
qed

lemma act_ok_one_rule:
  assumes "ss \<noteq> []" and "\<forall>s \<in> set ss. good_step s"
    and "\<And>m b. walk_to f ss n b m \<Longrightarrow> act_ok it f c2s act m (pb ++ b)"
  shows "act_ok it f c2s (DoTraversal [(rkey ss, act)]) n pb"
  using assms
proof (induction ss arbitrary: n pb)
  case (Cons s ss)
  have s: "good_step s" using Cons.prems by simp
  show ?case
  proof (rule act_ok_rule)
    fix child key val
    assume c: "child \<in> set (n_children (f n))" and kv: "(key, val) \<in> set [(rkey (s # ss), act)]"
    obtain b fresh a where ap: "apply_rule (f child) (key_rest (seg_of s) (rkey ss)) act = Inr (b, fresh, a)"
      using apply_rule_step(1) [OF s, of f child "rkey ss" act] by blast
    have "act_ok it f c2s a child (pb ++ fresh)" if b
    proof -
      have st: "step_to f s n fresh child" and a: "a = rest_action (rkey ss) act"
        using apply_rule_step(2) [OF s, of child f n "rkey ss" act fresh a] c ap that by auto
      have ok: "act_ok it f c2s act m ((pb ++ fresh) ++ b2)" if "walk_to f ss child b2 m" for m b2
        using Cons.prems(3) [of "fresh ++ b2" m] st that by (auto simp: map_add_assoc)
      show ?thesis
      proof (cases "ss = []")
        case True
        then show ?thesis using ok [of Map.empty child] by (simp add: a rest_action_def)
      next
        case False
        then have "rkey ss \<noteq> []" using rkey_Nil_iff Cons.prems by simp
        then show ?thesis using Cons.IH [OF False _ ok] Cons.prems by (simp add: a rest_action_def)
      qed
    qed
    then show "\<exists>b fresh a. apply_rule (f child) key val = Inr (b, fresh, a) \<and> (b \<longrightarrow> act_ok it f c2s a child (pb ++ fresh))"
      using ap kv by auto
  qed
qed simp

lemma act_ok_separate:
  assumes "\<And>r. r \<in> set rules \<Longrightarrow> act_ok it f c2s (DoTraversal [r]) n pb"
  shows "act_ok it f c2s (DoTraversal rules) n pb"
proof (rule act_ok_rule)
  fix child key val
  assume "child \<in> set (n_children (f n))" "n_tag (f child) \<noteq> []" "(key, val) \<in> set rules"
  moreover from assms [OF this(3)]
  show "\<exists>b fresh act. apply_rule (f child) key val = Inr (b, fresh, act) \<and> (b \<longrightarrow> act_ok it f c2s act child (pb ++ fresh))"
    by (cases rule: act_ok.cases) (use calculation in auto)
qed

lemma act_ok_rules:
  assumes "\<forall>(ss, act) \<in> set rs. ss \<noteq> [] \<and> (\<forall>s \<in> set ss. good_step s)"
    and "\<And>ss act m b. (ss, act) \<in> set rs \<Longrightarrow> walk_to f ss n b m \<Longrightarrow> act_ok it f c2s act m (pb ++ b)"
  shows "act_ok it f c2s (DoTraversal (map (map_prod rkey id) rs)) n pb"
  by (rule act_ok_separate) (use assms in \<open>auto intro!: act_ok_one_rule\<close>)

subsection \<open>Target paths\<close>

lemma replace_once:
  assumes "CHR ''$'' \<notin> set pre" and "CHR ''$'' \<notin> set post" and "ps = CHR ''$'' # r"
  shows "replace_str ps s (pre @ ps @ post) = pre @ s @ post"
proof -
  have none: "replace_str ps s post = post" if "CHR ''$'' \<notin> set post" for post
    using that by (induction post) (auto simp: assms(3) startswith_def)
  have here: "replace_str ps s (ps @ post) = s @ post"
    using none [OF assms(2)] by (simp add: assms(3) startswith_def)
  show ?thesis
    using assms(1) here by (induction pre) (auto simp: assms(3) startswith_def)
qed

text \<open>Text that is free of the characters target paths are taken apart at.\<close>

abbreviation clean :: "string \<Rightarrow> bool" where
  "clean s \<equiv> set s \<inter> {CHR ''/'', CHR ''['', CHR ''='', CHR 0x22, CHR ''$'', CHR '')''} = {}"

lemma test_seg_quoted:
  assumes "CHR 0x22 \<notin> set t" "CHR 0x22 \<notin> set a" "CHR 0x22 \<notin> set v"
  shows "py_nth (split_str (test_seg t a v) [CHR 0x22]) 1 = Inr v"
  using assms split_char [of "CHR 0x22" "t @ ''[@'' @ a @ ''=''" "v @ CHR 0x22 # '']''"]
    split_char [of "CHR 0x22" v "'']''"]
  by (simp add: py_nth_def test_seg_def dq_def)

lemma test_seg_replace:
  assumes "clean t" "clean a"
  shows "replace_str (CHR ''$'' # r) s (test_seg t a (CHR ''$'' # r)) = test_seg t a s"
  using assms replace_once [of "t @ ''[@'' @ a @ ''='' @ [CHR 0x22]" "CHR 0x22 # '']''" "CHR ''$'' # r" r s]
  by (auto simp: test_seg_def dq_def)

lemma seg_choices_plain: "clean t \<Longrightarrow> seg_choices it pb c2s t = Some [t]"
  by (auto simp: seg_choices_def contains_char)

lemma seg_choices_param:
  assumes "clean t" "clean a" "clean x" and "\<not> startswith x ''Component_To_Subjects''"
  shows "seg_choices it pb c2s (test_seg t a (CHR ''$'' # x)) = map_option (\<lambda>v. [test_seg t a v]) (pb x)"
proof -
  let ?seg = "test_seg t a (CHR ''$'' # x)"
  have "contains ''$'' ?seg" by (simp add: contains_char test_seg_def dq_def)
  moreover have "py_nth (split_str ?seg [CHR 0x22]) 1 = Inr (CHR ''$'' # x)"
    using assms by (intro test_seg_quoted) auto
  moreover have "split_str (CHR ''$'' # x) ''$'' = [[], x]"
    using split_char [of "CHR ''$''" "[]" x] split_no_char [of "CHR ''$''" x] assms by auto
  moreover have "\<not> startswith (CHR ''$'' # x) ''$Component_To_Subjects''"
    using assms(4) by (simp add: startswith_def)
  ultimately show ?thesis
    using test_seg_replace [OF assms(1,2), of x]
    by (cases "pb x") (simp_all add: seg_choices_def substitutions_def py_nth_def)
qed

lemma seg_choices_subjects:
  assumes "clean t" "clean a" "clean x"
  shows "seg_choices it pb c2s (test_seg t a (''$Component_To_Subjects($'' @ x @ '')'')) =
     Option.bind (pb x) (\<lambda>v. Option.bind (c2s (Some v)) (\<lambda>S.
       if None \<in> set (it S) then None else Some (map (\<lambda>s. test_seg t a (the s)) (it S))))"
proof -
  let ?ps = "''$Component_To_Subjects($'' @ x @ '')''"
  let ?seg = "test_seg t a ?ps"
  have "contains ''$'' ?seg" by (simp add: contains_char test_seg_def dq_def)
  moreover have q: "py_nth (split_str ?seg [CHR 0x22]) 1 = Inr ?ps"
    using assms by (intro test_seg_quoted) auto
  moreover have "split_str ?ps ''$Component_To_Subjects($'' = [[], x @ '')'']"
  proof -
    have "split_acc ''$Component_To_Subjects($'' acc y = [rev acc @ y]" if "CHR ''$'' \<notin> set y" for acc y
      using that by (induction y arbitrary: acc) (auto simp: startswith_def)
    from this [of "x @ '')''" "[]"] show ?thesis
      using assms by (simp add: split_str_def startswith_def)
  qed
  moreover have "hd (split_str (x @ '')'') '')'') = x"
    using split_char [of "CHR '')''" x "[]"] assms by auto
  moreover have "startswith ?ps ''$Component_To_Subjects''" by (simp add: startswith_def)
  moreover have "replace_str ?ps s ?seg = test_seg t a s" for s
    using test_seg_replace [OF assms(1,2), of "''Component_To_Subjects($'' @ x @ '')''"] by simp
  ultimately show ?thesis
    by (simp add: seg_choices_def substitutions_def py_nth_def split: option.split bind_split)
qed

subsection \<open>The tables\<close>

definition tgt :: "string list \<Rightarrow> action" where
  "tgt segs = AddToOutput (''/'' @ join_str ''/'' segs)"

abbreviation doc_step :: "rstep list" where
  "doc_step \<equiv> [(''doc'', None)]"

definition subject_seg :: "string \<Rightarrow> string" where
  "subject_seg v = test_seg ''subject'' ''name'' v"

definition memory_seg :: "string \<Rightarrow> string" where
  "memory_seg v = test_seg ''memory'' ''logical'' v"

definition comp_rules :: "(rstep list \<times> action) list" where
  "comp_rules =
     [(doc_step, tgt [''system'', ''subjects'', subject_seg ''$Component_To_Subjects($component_name)'']),
      ([(''requires'', None), (''memory'', None), (''memory'', Some (''logical'', ''comp_mem_logical''))], DoTraversal comp_mem_map),
      ([(''requires'', None), (''memory'', None), (''array'', None), (''memory'', Some (''logical'', ''comp_mem_logical''))], DoTraversal comp_mem_map),
      ([(''requires'', None), (''channels'', None), (''reader'', Some (''logical'', ''comp_mem_logical''))], DoTraversal comp_mem_map),
      ([(''requires'', None), (''channels'', None), (''writer'', Some (''logical'', ''comp_mem_logical''))], DoTraversal comp_mem_map),
      ([(''requires'', None), (''channels'', None), (''array'', None), (''reader'', Some (''logical'', ''comp_mem_logical''))], DoTraversal comp_mem_map),
      ([(''requires'', None), (''channels'', None), (''array'', None), (''writer'', Some (''logical'', ''comp_mem_logical''))], DoTraversal comp_mem_map)]"

definition comp_mem_rules :: "(rstep list \<times> action) list" where
  "comp_mem_rules =
     [(doc_step, tgt [''system'', ''subjects'', subject_seg ''$Component_To_Subjects($component_name)'',
                      ''memory'', memory_seg ''$comp_mem_logical''])]"

definition subj_mem_rules :: "(rstep list \<times> action) list" where
  "subj_mem_rules =
     [(doc_step, tgt [''system'', ''subjects'', subject_seg ''$subject_name'', ''memory'', memory_seg ''$subj_mem_logical''])]"

definition subject_rules :: "(rstep list \<times> action) list" where
  "subject_rules =
     [(doc_step, tgt [''system'', ''subjects'', subject_seg ''$subject_name'']),
      ([(''memory'', None), (''memory'', Some (''logical'', ''subj_mem_logical''))], DoTraversal subj_mem_map),
      ([(''component'', None), (''map'', Some (''logical'', ''subj_mem_logical''))], DoTraversal subj_mem_map),
      ([(''channels'', None), (''reader'', Some (''logical'', ''subj_mem_logical''))], DoTraversal subj_mem_map),
      ([(''channels'', None), (''writer'', Some (''logical'', ''subj_mem_logical''))], DoTraversal subj_mem_map)]"

definition components_rules :: "(rstep list \<times> action) list" where
  "components_rules =
     [([(''component'', Some (''name'', ''component_name''))], DoTraversal comp_map),
      ([(''library'', Some (''name'', ''component_name''))], DoTraversal comp_map)]"

definition subjects_rules :: "(rstep list \<times> action) list" where
  "subjects_rules =
     [(doc_step, tgt [''system'', ''subjects'']),
      ([(''subject'', Some (''name'', ''subject_name''))], DoTraversal subject_map)]"

definition system_rules :: "(rstep list \<times> action) list" where
  "system_rules =
     [(doc_step, tgt [''system'']),
      ([(''memory'', None), (''memory'', Some (''name'', ''mem_name'')), (''doc'', None)],
         tgt [''system'', ''memory'', test_seg ''memory'' ''name'' ''$mem_name'']),
      ([(''components'', None)], DoTraversal components_map),
      ([(''subjects'', None)], DoTraversal subjects_map)]"

lemmas table_defs = comp_rules_def comp_mem_rules_def subj_mem_rules_def subject_rules_def components_rules_def
  subjects_rules_def system_rules_def

lemma tables_are_rules:
  "comp_map = map (map_prod rkey id) comp_rules" "comp_mem_map = map (map_prod rkey id) comp_mem_rules"
  "subj_mem_map = map (map_prod rkey id) subj_mem_rules" "subject_map = map (map_prod rkey id) subject_rules"
  "components_map = map (map_prod rkey id) components_rules" "subjects_map = map (map_prod rkey id) subjects_rules"
  "system_map = map (map_prod rkey id) system_rules"
  by (simp_all add: table_defs comp_map_def comp_mem_map_def subj_mem_map_def subject_map_def components_map_def
      subjects_map_def system_map_def key_rest_def seg_of_def test_seg_def dq_def tgt_def subject_seg_def memory_seg_def)

lemma tables_good:
  "\<forall>(ss, act) \<in> set comp_rules. ss \<noteq> [] \<and> (\<forall>s \<in> set ss. good_step s)"
  "\<forall>(ss, act) \<in> set comp_mem_rules. ss \<noteq> [] \<and> (\<forall>s \<in> set ss. good_step s)"
  "\<forall>(ss, act) \<in> set subj_mem_rules. ss \<noteq> [] \<and> (\<forall>s \<in> set ss. good_step s)"
  "\<forall>(ss, act) \<in> set subject_rules. ss \<noteq> [] \<and> (\<forall>s \<in> set ss. good_step s)"
  "\<forall>(ss, act) \<in> set components_rules. ss \<noteq> [] \<and> (\<forall>s \<in> set ss. good_step s)"
  "\<forall>(ss, act) \<in> set subjects_rules. ss \<noteq> [] \<and> (\<forall>s \<in> set ss. good_step s)"
  "\<forall>(ss, act) \<in> set system_rules. ss \<noteq> [] \<and> (\<forall>s \<in> set ss. good_step s)"
  by (simp_all add: table_defs good_step_def)

lemma seg_good: "plain v \<Longrightarrow> subject_seg v \<noteq> [] \<and> CHR ''/'' \<notin> set (subject_seg v)"
  "plain v \<Longrightarrow> memory_seg v \<noteq> [] \<and> CHR ''/'' \<notin> set (memory_seg v)"
  by (auto simp: subject_seg_def memory_seg_def test_seg_def dq_def)

lemma emits_tgt:
  assumes "good_segs segs"
  shows "emits it f c2s (tgt segs) n pb q l \<longleftrightarrow>
     l = n \<and> list_all2 (\<lambda>seg k. \<exists>cs. seg_choices it pb c2s seg = Some cs \<and> k \<in> set cs) segs q"
  unfolding tgt_def
  by (auto intro: emits_add [OF assms] elim!: emits_addE dest: join_segs_inject [OF assms])

lemma act_ok_tgt:
  "good_segs segs \<Longrightarrow> \<forall>seg \<in> set segs. seg_choices it pb c2s seg \<noteq> None \<Longrightarrow> act_ok it f c2s (tgt segs) n pb"
  unfolding tgt_def by (rule act_ok_add) auto

lemma target_segs_good:
  "good_segs [''system'']" "good_segs [''system'', ''subjects'']"
  "good_segs [''system'', ''memory'', test_seg ''memory'' ''name'' ''$mem_name'']"
  "good_segs [''system'', ''subjects'', subject_seg ''$subject_name'']"
  "good_segs [''system'', ''subjects'', subject_seg ''$subject_name'', ''memory'', memory_seg ''$subj_mem_logical'']"
  "good_segs [''system'', ''subjects'', subject_seg ''$Component_To_Subjects($component_name)'']"
  "good_segs [''system'', ''subjects'', subject_seg ''$Component_To_Subjects($component_name)'', ''memory'', memory_seg ''$comp_mem_logical'']"
  by (simp_all add: good_segs_def subject_seg_def memory_seg_def test_seg_def dq_def)

text \<open>The choices for the segments of the tables.\<close>

lemma choices_plain [simp]:
  "seg_choices it pb c2s ''system'' = Some [''system'']" "seg_choices it pb c2s ''subjects'' = Some [''subjects'']"
  "seg_choices it pb c2s ''memory'' = Some [''memory'']"
  by (simp_all add: seg_choices_plain)

lemma choices_param [simp]:
  "seg_choices it pb c2s (subject_seg ''$subject_name'') = map_option (\<lambda>v. [subject_seg v]) (pb ''subject_name'')"
  "seg_choices it pb c2s (memory_seg ''$subj_mem_logical'') = map_option (\<lambda>v. [memory_seg v]) (pb ''subj_mem_logical'')"
  "seg_choices it pb c2s (memory_seg ''$comp_mem_logical'') = map_option (\<lambda>v. [memory_seg v]) (pb ''comp_mem_logical'')"
  "seg_choices it pb c2s (test_seg ''memory'' ''name'' ''$mem_name'') = map_option (\<lambda>v. [test_seg ''memory'' ''name'' v]) (pb ''mem_name'')"
  unfolding subject_seg_def memory_seg_def by (rule seg_choices_param; simp add: startswith_def)+

lemma choices_subjects [simp]:
  "seg_choices it pb c2s (subject_seg ''$Component_To_Subjects($component_name)'') =
     Option.bind (pb ''component_name'') (\<lambda>v. Option.bind (c2s (Some v)) (\<lambda>S.
       if None \<in> set (it S) then None else Some (map (\<lambda>s. subject_seg (the s)) (it S))))"
  using seg_choices_subjects [of "''subject''" "''name''" "''component_name''" it pb c2s]
  unfolding subject_seg_def by simp

subsection \<open>The traversal succeeds\<close>

text \<open>What the component map must provide: an entry for every component and library below a
  \<^verbatim>\<open>components\<close> element, and named subjects only.\<close>

definition c2s_covers :: "(gname set \<Rightarrow> gname list) \<Rightarrow> 'n view \<Rightarrow> c2s_map \<Rightarrow> 'n \<Rightarrow> bool" where
  "c2s_covers it f c2s root \<longleftrightarrow>
     (\<forall>C e v. C \<in> set (n_children (f root)) \<and> n_tag (f C) = ''components'' \<and> e \<in> set (n_children (f C))
        \<and> n_tag (f e) \<in> {''component'', ''library''} \<and> map_of (n_attrib (f e)) ''name'' = Some v \<longrightarrow>
        (\<exists>S. c2s (Some v) = Some S \<and> None \<notin> set (it S)))"

abbreviation resolvable :: "(gname set \<Rightarrow> gname list) \<Rightarrow> c2s_map \<Rightarrow> (string \<rightharpoonup> string) \<Rightarrow> bool" where
  "resolvable it c2s pb \<equiv> \<exists>v S. pb ''component_name'' = Some v \<and> c2s (Some v) = Some S \<and> None \<notin> set (it S)"

lemma act_ok_comp_mem:
  assumes "resolvable it c2s pb" and "pb ''comp_mem_logical'' \<noteq> None"
  shows "act_ok it f c2s (DoTraversal comp_mem_map) n pb"
  unfolding tables_are_rules
  by (rule act_ok_rules [OF tables_good(2)])
    (use assms target_segs_good in \<open>auto simp: comp_mem_rules_def step_to_def intro!: act_ok_tgt\<close>)

lemma act_ok_comp:
  assumes "resolvable it c2s pb"
  shows "act_ok it f c2s (DoTraversal comp_map) n pb"
  unfolding tables_are_rules(1)
  by (rule act_ok_rules [OF tables_good(1)])
    (use assms target_segs_good in \<open>auto simp: comp_rules_def step_to_def intro!: act_ok_tgt act_ok_comp_mem\<close>)

lemma act_ok_subj_mem:
  assumes "pb ''subject_name'' \<noteq> None" and "pb ''subj_mem_logical'' \<noteq> None"
  shows "act_ok it f c2s (DoTraversal subj_mem_map) n pb"
  unfolding tables_are_rules
  by (rule act_ok_rules [OF tables_good(3)])
    (use assms target_segs_good in \<open>auto simp: subj_mem_rules_def step_to_def intro!: act_ok_tgt\<close>)

lemma act_ok_subject:
  assumes "pb ''subject_name'' \<noteq> None"
  shows "act_ok it f c2s (DoTraversal subject_map) n pb"
  unfolding tables_are_rules(4)
  by (rule act_ok_rules [OF tables_good(4)])
    (use assms target_segs_good in \<open>auto simp: subject_rules_def step_to_def intro!: act_ok_tgt act_ok_subj_mem\<close>)

lemma act_ok_subjects: "act_ok it f c2s (DoTraversal subjects_map) n pb"
  unfolding tables_are_rules(6)
  by (rule act_ok_rules [OF tables_good(6)])
    (use target_segs_good in \<open>auto simp: subjects_rules_def step_to_def intro!: act_ok_tgt act_ok_subject\<close>)

lemma act_ok_components:
  assumes "\<And>e v. e \<in> set (n_children (f n)) \<Longrightarrow> n_tag (f e) \<in> {''component'', ''library''} \<Longrightarrow>
             map_of (n_attrib (f e)) ''name'' = Some v \<Longrightarrow> \<exists>S. c2s (Some v) = Some S \<and> None \<notin> set (it S)"
  shows "act_ok it f c2s (DoTraversal components_map) n pb"
  unfolding tables_are_rules(5)
  by (rule act_ok_rules [OF tables_good(5)])
    (use assms in \<open>auto simp: components_rules_def step_to_def intro!: act_ok_comp\<close>)

lemma c2s_coversD:
  "c2s_covers it f c2s root \<Longrightarrow> C \<in> set (n_children (f root)) \<Longrightarrow> n_tag (f C) = ''components'' \<Longrightarrow>
     e \<in> set (n_children (f C)) \<Longrightarrow> n_tag (f e) \<in> {''component'', ''library''} \<Longrightarrow>
     map_of (n_attrib (f e)) ''name'' = Some v \<Longrightarrow> \<exists>S. c2s (Some v) = Some S \<and> None \<notin> set (it S)"
  unfolding c2s_covers_def by blast

lemma act_ok_system:
  assumes "c2s_covers it f c2s root"
  shows "act_ok it f c2s (DoTraversal system_map) root pb"
  unfolding tables_are_rules(7)
  by (rule act_ok_rules [OF tables_good(7)])
    (use target_segs_good in \<open>auto simp: system_rules_def step_to_def
        intro!: act_ok_tgt act_ok_components act_ok_subjects c2s_coversD [OF assms]\<close>)

subsection \<open>What is collected for a subject\<close>

lemma emits_mem_length:
  "emits it f c2s (DoTraversal comp_mem_map) n pb q l \<Longrightarrow> length q = 5"
  "emits it f c2s (DoTraversal subj_mem_map) n pb q l \<Longrightarrow> length q = 5"
  unfolding tables_are_rules(2,3) emits_rules [OF tables_good(2)] emits_rules [OF tables_good(3)]
  using target_segs_good by (auto simp: comp_mem_rules_def subj_mem_rules_def emits_tgt dest!: list_all2_lengthD)

text \<open>The \<^verbatim>\<open>doc\<close> children of a node.\<close>

definition docs_of :: "'n view \<Rightarrow> 'n \<Rightarrow> 'n set" where
  "docs_of f e = {l. l \<in> set (n_children (f e)) \<and> n_tag (f l) = ''doc''}"

lemma walk_doc: "walk_to f doc_step n b m \<longleftrightarrow> m \<in> docs_of f n \<and> b = Map.empty"
  by (auto simp: step_to_def docs_of_def)

lemma choices_subjects_mem:
  "(\<exists>cs. seg_choices it pb c2s (subject_seg ''$Component_To_Subjects($component_name)'') = Some cs \<and> k \<in> set cs) \<longleftrightarrow>
     (\<exists>v S s. pb ''component_name'' = Some v \<and> c2s (Some v) = Some S \<and> None \<notin> set (it S)
        \<and> Some s \<in> set (it S) \<and> k = subject_seg s)"
proof -
  have im: "k \<in> (\<lambda>s. subject_seg (the s)) ` A \<longleftrightarrow> (\<exists>s. Some s \<in> A \<and> k = subject_seg s)" if "None \<notin> A" for A
    using that by (auto simp: image_iff) (metis option.collapse, metis option.sel)
  show ?thesis
  proof (cases "pb ''component_name''")
    case (Some v)
    then show ?thesis by (cases "c2s (Some v)") (auto simp: im)
  qed simp
qed

lemma emits_comp:
  assumes "length q = 3"
  shows "emits it f c2s (DoTraversal comp_map) n pb q l \<longleftrightarrow>
     l \<in> docs_of f n \<and> (\<exists>v S s. pb ''component_name'' = Some v \<and> c2s (Some v) = Some S \<and> None \<notin> set (it S)
        \<and> Some s \<in> set (it S) \<and> q = [''system'', ''subjects'', subject_seg s])"
proof -
  have mem: "\<not> emits it f c2s (DoTraversal comp_mem_map) m pb' q l" for m pb'
    using emits_mem_length(1) [of it f c2s m pb' q l] assms by auto
  have "emits it f c2s (DoTraversal comp_map) n pb q l \<longleftrightarrow> l \<in> docs_of f n
      \<and> list_all2 (\<lambda>seg k. \<exists>cs. seg_choices it pb c2s seg = Some cs \<and> k \<in> set cs)
          [''system'', ''subjects'', subject_seg ''$Component_To_Subjects($component_name)''] q"
    unfolding tables_are_rules(1) emits_rules [OF tables_good(1)]
    by (simp add: comp_rules_def mem walk_doc emits_tgt target_segs_good del: walk_to.simps)
  then show ?thesis
    by (simp only: list_all2_Cons1 list_all2_Nil choices_subjects_mem choices_plain) auto
qed

lemma emits_subject:
  assumes "length q = 3"
  shows "emits it f c2s (DoTraversal subject_map) n pb q l \<longleftrightarrow>
     l \<in> docs_of f n \<and> (\<exists>v. pb ''subject_name'' = Some v \<and> q = [''system'', ''subjects'', subject_seg v])"
proof -
  have mem: "\<not> emits it f c2s (DoTraversal subj_mem_map) m pb' q l" for m pb'
    using emits_mem_length(2) [of it f c2s m pb' q l] assms by auto
  have "emits it f c2s (DoTraversal subject_map) n pb q l \<longleftrightarrow> l \<in> docs_of f n
      \<and> list_all2 (\<lambda>seg k. \<exists>cs. seg_choices it pb c2s seg = Some cs \<and> k \<in> set cs)
          [''system'', ''subjects'', subject_seg ''$subject_name''] q"
    unfolding tables_are_rules(4) emits_rules [OF tables_good(4)]
    by (simp add: subject_rules_def mem walk_doc emits_tgt target_segs_good del: walk_to.simps)
  then show ?thesis
    by (auto simp: list_all2_Cons1)
qed

lemma emits_components:
  "emits it f c2s (DoTraversal components_map) n pb q l \<longleftrightarrow>
     (\<exists>e v. e \<in> set (n_children (f n)) \<and> n_tag (f e) \<in> {''component'', ''library''} \<and> node_name f e = Some v
        \<and> emits it f c2s (DoTraversal comp_map) e (pb(''component_name'' \<mapsto> v)) q l)"
  unfolding tables_are_rules(5) emits_rules [OF tables_good(5)]
  by (auto simp: components_rules_def step_to_def node_name_def)

lemma emits_subjects:
  assumes "length q = 3"
  shows "emits it f c2s (DoTraversal subjects_map) n pb q l \<longleftrightarrow>
     (\<exists>e v. e \<in> set (n_children (f n)) \<and> n_tag (f e) = ''subject'' \<and> node_name f e = Some v
        \<and> emits it f c2s (DoTraversal subject_map) e (pb(''subject_name'' \<mapsto> v)) q l)"
proof -
  have no: "\<not> emits it f c2s (tgt [''system'', ''subjects'']) m pb' q l" for m pb'
    using assms by (auto simp: emits_tgt target_segs_good list_all2_Cons1)
  show ?thesis
    unfolding tables_are_rules(6) emits_rules [OF tables_good(6)]
    by (auto simp: subjects_rules_def no step_to_def node_name_def)
qed

text \<open>The elements of the policy: components and libraries, and subjects.\<close>

definition comp_elems :: "'n view \<Rightarrow> 'n \<Rightarrow> 'n set" where
  "comp_elems f root = {e. \<exists>C. C \<in> set (n_children (f root)) \<and> n_tag (f C) = ''components''
     \<and> e \<in> set (n_children (f C)) \<and> n_tag (f e) \<in> {''component'', ''library''}}"

definition subj_elems :: "'n view \<Rightarrow> 'n \<Rightarrow> 'n set" where
  "subj_elems f root = {e. \<exists>S. S \<in> set (n_children (f root)) \<and> n_tag (f S) = ''subjects''
     \<and> e \<in> set (n_children (f S)) \<and> n_tag (f e) = ''subject''}"

lemma emits_system_subject:
  "emits it f c2s (DoTraversal system_map) root Map.empty [''system'', ''subjects'', subject_seg s] l \<longleftrightarrow>
     (\<exists>e \<in> subj_elems f root. node_name f e = Some s \<and> l \<in> docs_of f e)
     \<or> (\<exists>e \<in> comp_elems f root. \<exists>v S. node_name f e = Some v \<and> c2s (Some v) = Some S \<and> None \<notin> set (it S)
          \<and> Some s \<in> set (it S) \<and> l \<in> docs_of f e)"
proof -
  let ?q = "[''system'', ''subjects'', subject_seg s]"
  have len: "length ?q = 3" by simp
  have inj: "subject_seg v = subject_seg v' \<longleftrightarrow> v = v'" for v v'
    by (simp add: subject_seg_def test_seg_def dq_def)
  have no: "\<not> emits it f c2s (tgt [''system'']) m pb ?q l"
      "\<not> emits it f c2s (tgt [''system'', ''memory'', test_seg ''memory'' ''name'' ''$mem_name'']) m pb ?q l" for m pb
    by (auto simp: emits_tgt target_segs_good list_all2_Cons1)
  have "emits it f c2s (DoTraversal system_map) root Map.empty ?q l \<longleftrightarrow>
      (\<exists>C. C \<in> set (n_children (f root)) \<and> n_tag (f C) = ''components'' \<and> emits it f c2s (DoTraversal components_map) C Map.empty ?q l)
      \<or> (\<exists>S. S \<in> set (n_children (f root)) \<and> n_tag (f S) = ''subjects'' \<and> emits it f c2s (DoTraversal subjects_map) S Map.empty ?q l)"
    unfolding tables_are_rules(7) emits_rules [OF tables_good(7)]
    by (auto simp: system_rules_def no step_to_def)
  then show ?thesis
    unfolding emits_components emits_subjects [OF len] emits_comp [OF len] emits_subject [OF len]
    by (simp add: inj comp_elems_def subj_elems_def) blast
qed

subsection \<open>The compiled structure\<close>

definition lib_path :: "xstep list" where "lib_path = [(''components'', []), (''library'', [])]"
definition comp_path :: "xstep list" where "comp_path = [(''components'', []), (''component'', [])]"
definition subj_path :: "xstep list" where "subj_path = [(''subjects'', []), (''subject'', [])]"

text \<open>The dependency relation of the policy below \<open>root\<close>.\<close>

definition deps_below :: "'n view \<Rightarrow> 'n \<Rightarrow> (gnode \<times> gnode) set" where
  "deps_below f root = policy_deps f (xwalk f root lib_path) (xwalk f root comp_path) (xwalk f root subj_path)"

lemma walked_elems:
  "set (xwalk f root lib_path) \<union> set (xwalk f root comp_path) = comp_elems f root"
  "set (xwalk f root subj_path) = subj_elems f root"
  by (auto simp: lib_path_def comp_path_def subj_path_def comp_elems_def subj_elems_def step_ok_def)

lemma dependent_subjects:
  assumes "((s, CHR ''s''), b) \<in> (deps_below f root)\<^sup>+"
  shows "s \<in> node_name f ` subj_elems f root"
  using assms unfolding deps_below_def
  by (cases rule: converse_tranclE)
    (auto simp: policy_deps_def lib_edges_def subj_edges_def walked_elems [symmetric])

lemma finite_subj_elems: "finite (subj_elems f root)"
  unfolding walked_elems(2) [symmetric] by simp

lemma finite_dependents: "iter_ok it \<Longrightarrow> set (it {s. \<exists>k. ((s, CHR ''s''), (n, k)) \<in> (deps_below f root)\<^sup>+}) = {s. \<exists>k. ((s, CHR ''s''), (n, k)) \<in> (deps_below f root)\<^sup>+}"
proof -
  assume it: "iter_ok it"
  have "{s. \<exists>k. ((s, CHR ''s''), (n, k)) \<in> (deps_below f root)\<^sup>+} \<subseteq> node_name f ` subj_elems f root"
    using dependent_subjects [of _ _ f root] by fast
  then have "finite {s. \<exists>k. ((s, CHR ''s''), (n, k)) \<in> (deps_below f root)\<^sup>+}"
    using finite_subj_elems by (meson finite_imageI finite_subset)
  then show ?thesis using it unfolding iter_ok_def by blast
qed

text \<open>The traversal with the map of the dependent subjects.\<close>

lemma runs_system_map:
  fixes E :: "('h, 'n) lxml" and w root
  defines "f \<equiv> x_node E (w_heap w)" and "D \<equiv> deps_below (x_node E (w_heap w)) root"
  assumes it: "iter_ok it" and named: "\<And>e. e \<in> subj_elems f root \<Longrightarrow> node_name f e \<noteq> None"
    and c2s: "\<forall>n. c2s n = (if n \<in> node_name f ` comp_elems f root then Some {s. \<exists>k. ((s, CHR ''s''), (n, k)) \<in> D\<^sup>+} else None)"
  shows "runs (run_action it E (DoTraversal system_map) root Map.empty c2s empty_expansion) w (\<lambda>e w'. w' = w \<and>
     (\<forall>s l. l \<in> set (leaves_at e [''system'', ''subjects'', subject_seg s]) \<longleftrightarrow>
        (\<exists>e \<in> subj_elems f root. node_name f e = Some s \<and> l \<in> docs_of f e)
        \<or> (\<exists>e \<in> comp_elems f root. \<exists>v k. node_name f e = Some v
            \<and> ((Some s, CHR ''s''), (Some v, k)) \<in> D\<^sup>+ \<and> l \<in> docs_of f e)))"
proof -
  have sets: "set (it {s. \<exists>k. ((s, CHR ''s''), (n, k)) \<in> D\<^sup>+}) = {s. \<exists>k. ((s, CHR ''s''), (n, k)) \<in> D\<^sup>+}" for n
    unfolding D_def by (rule finite_dependents [OF it])
  have no_None: "((None, CHR ''s''), b) \<notin> D\<^sup>+" for b
    using dependent_subjects [of None b f root] named unfolding D_def f_def by (metis imageE)
  have entry: "c2s (Some v) = Some {s. \<exists>k. ((s, CHR ''s''), (Some v, k)) \<in> D\<^sup>+}"
    if "e \<in> comp_elems f root" "node_name f e = Some v" for e v
    using imageI [OF that(1), of "node_name f"] spec [OF c2s, of "Some v"] that(2) by simp
  have "c2s_covers it f c2s root"
    unfolding c2s_covers_def
  proof (intro allI impI)
    fix C e v
    assume "C \<in> set (n_children (f root)) \<and> n_tag (f C) = ''components'' \<and> e \<in> set (n_children (f C))
      \<and> n_tag (f e) \<in> {''component'', ''library''} \<and> map_of (n_attrib (f e)) ''name'' = Some v"
    then have "e \<in> comp_elems f root" "node_name f e = Some v"
      unfolding comp_elems_def node_name_def by blast+
    from entry [OF this] show "\<exists>S. c2s (Some v) = Some S \<and> None \<notin> set (it S)"
      using no_None by (simp add: sets)
  qed
  note run = run_action_emits [OF act_ok_system [OF this [unfolded f_def]], of Map.empty empty_expansion, folded f_def]
  have same: "(\<exists>v S. node_name f e = Some v \<and> c2s (Some v) = Some S \<and> None \<notin> set (it S) \<and> Some s \<in> set (it S) \<and> l \<in> docs_of f e)
      \<longleftrightarrow> (\<exists>v k. node_name f e = Some v \<and> ((Some s, CHR ''s''), (Some v, k)) \<in> D\<^sup>+ \<and> l \<in> docs_of f e)"
    if "e \<in> comp_elems f root" for e s l
    by (cases "node_name f e") (simp_all add: entry [OF that] sets no_None)
  note eq = bex_cong [OF refl same]
  show ?thesis
    by (rule runs_mono [OF run]) (simp del: leaves_at.simps ex_simps add: emits_system_subject eq)
qed

text \<open>C1. On every joined policy whose subjects have names, the collection of the documentation
  succeeds, and at the path of a subject it holds exactly the \<^verbatim>\<open>doc\<close> nodes of that subject and of
  the components and libraries the subject depends on, directly or through any chain of
  dependencies.  No error exit of the resolution of parameters is reachable.\<close>

theorem subject_documentation_complete:
  assumes itn: "iter_ok itn" and it: "iter_ok it"
    and laws: "xpath_rel_law E lib_path" "xpath_rel_law E comp_path" "xpath_rel_law E subj_path"
    and named: "\<And>e. e \<in> subj_elems (x_node E (w_heap w)) root \<Longrightarrow> node_name (x_node E (w_heap w)) e \<noteq> None"
  shows "runs (compile_target_expansion itn it E root) w (\<lambda>e w'. w' = w \<and>
     (\<forall>s l. l \<in> set (leaves_at e [''system'', ''subjects'', ''subject[@name='' @ dq s @ '']'']) \<longleftrightarrow>
        (\<exists>e \<in> subj_elems (x_node E (w_heap w)) root.
            node_name (x_node E (w_heap w)) e = Some s \<and> l \<in> docs_of (x_node E (w_heap w)) e)
        \<or> (\<exists>e \<in> comp_elems (x_node E (w_heap w)) root. \<exists>v k. node_name (x_node E (w_heap w)) e = Some v
            \<and> ((Some s, CHR ''s''), (Some v, k)) \<in> (deps_below (x_node E (w_heap w)) root)\<^sup>+
            \<and> l \<in> docs_of (x_node E (w_heap w)) e)))"
proof -
  let ?f = "x_node E (w_heap w)" and ?D = "deps_below (x_node E (w_heap w)) root"
  have q: "x_xpath E (w_heap w) root ''components/library'' = Inr (xwalk ?f root lib_path)"
      "x_xpath E (w_heap w) root ''components/component'' = Inr (xwalk ?f root comp_path)"
      "x_xpath E (w_heap w) root ''subjects/subject'' = Inr (xwalk ?f root subj_path)"
    using laws by (simp_all add: xpath_rel_law_def lib_path_def comp_path_def subj_path_def render_path_def render_step_def)
  note map_ok = runs_component_map [OF itn q, folded deps_below_def, unfolded walked_elems]
  have seg: "''subject[@name='' @ dq s @ '']'' = subject_seg s" for s
    by (simp add: subject_seg_def test_seg_def)
  show ?thesis
    unfolding compile_target_expansion_def runs_bnd seg
    by (rule runs_mono [OF map_ok]) (use runs_system_map [OF it named] in blast)
qed

lemma demo_joined_laws:
  "xpath_rel_law demo_joined_lxml lib_path" "xpath_rel_law demo_joined_lxml comp_path"
  "xpath_rel_law demo_joined_lxml subj_path"
proof -
  have "List.find (\<lambda>ss. tl (render_path ss) = tl (render_path lib_path)) comp_paths = Some lib_path"
    "List.find (\<lambda>ss. tl (render_path ss) = tl (render_path comp_path)) comp_paths = Some comp_path"
    "List.find (\<lambda>ss. tl (render_path ss) = tl (render_path subj_path)) comp_paths = Some subj_path"
    by (simp_all add: comp_paths_def lib_path_def comp_path_def subj_path_def render_path_def render_step_def)
  then show "xpath_rel_law demo_joined_lxml lib_path" "xpath_rel_law demo_joined_lxml comp_path"
    "xpath_rel_law demo_joined_lxml subj_path"
    unfolding xpath_rel_law_def ref_xpath rel_query_def by (simp_all add: ref_lxml_def)
qed

lemma demo_joined_walks:
  "xwalk (table_view demo_joined) 0 lib_path = [3, 4]" "xwalk (table_view demo_joined) 0 comp_path = [5]"
  "xwalk (table_view demo_joined) 0 subj_path = [6]"
  by code_simp+

lemma demo_joined_elems:
  "subj_elems (table_view demo_joined) 0 = {6}" "5 \<in> comp_elems (table_view demo_joined) 0"
  "13 \<in> docs_of (table_view demo_joined) 5"
proof -
  show "subj_elems (table_view demo_joined) 0 = {6}" "5 \<in> comp_elems (table_view demo_joined) 0"
    using walked_elems [of "table_view demo_joined" 0] by (auto simp: demo_joined_walks)
  have "n_tag (table_view demo_joined 13) = ''doc''" by code_simp
  then show "13 \<in> docs_of (table_view demo_joined) 5" by (simp add: docs_of_def demo_joined_nodes nd_def)
qed

theorem subject_documentation_complete_witness:
  "runs (compile_target_expansion sorted_list_of_set sorted_list_of_set demo_joined_lxml 0) (table_world demo_joined)
     (\<lambda>e w'. w' = table_world demo_joined \<and> 13 \<in> set (leaves_at e [''system'', ''subjects'', ''subject[@name='' @ dq ''dm1'' @ '']'']))"
proof -
  have dep: "((Some ''dm1'', CHR ''s''), (Some ''dm'', CHR ''c'')) \<in> (deps_below (table_view demo_joined) 0)\<^sup>+"
    using demo_joined_direct unfolding deps_below_def demo_joined_walks by blast
  have named: "e \<in> subj_elems (x_node demo_joined_lxml (w_heap (table_world demo_joined))) 0 \<Longrightarrow>
      node_name (x_node demo_joined_lxml (w_heap (table_world demo_joined))) e \<noteq> None" for e
    by (simp add: demo_joined_elems demo_joined_names)
  have some: "\<exists>e \<in> comp_elems (table_view demo_joined) 0. \<exists>v k. node_name (table_view demo_joined) e = Some v
      \<and> ((Some ''dm1'', CHR ''s''), (Some v, k)) \<in> (deps_below (table_view demo_joined) 0)\<^sup>+ \<and> 13 \<in> docs_of (table_view demo_joined) e"
    using dep demo_joined_elems(2,3) demo_joined_names(3) by blast
  show ?thesis
  proof (rule runs_mono [OF subject_documentation_complete [OF sorted_iter_ok sorted_iter_ok demo_joined_laws named]])
    fix e w'
    assume *: "w' = table_world demo_joined \<and>
     (\<forall>s l. l \<in> set (leaves_at e [''system'', ''subjects'', ''subject[@name='' @ dq s @ '']'']) \<longleftrightarrow>
        (\<exists>e \<in> subj_elems (x_node demo_joined_lxml (w_heap (table_world demo_joined))) 0.
            node_name (x_node demo_joined_lxml (w_heap (table_world demo_joined))) e = Some s
            \<and> l \<in> docs_of (x_node demo_joined_lxml (w_heap (table_world demo_joined))) e)
        \<or> (\<exists>e \<in> comp_elems (x_node demo_joined_lxml (w_heap (table_world demo_joined))) 0. \<exists>v k.
            node_name (x_node demo_joined_lxml (w_heap (table_world demo_joined))) e = Some v
            \<and> ((Some s, CHR ''s''), (Some v, k)) \<in> (deps_below (x_node demo_joined_lxml (w_heap (table_world demo_joined))) 0)\<^sup>+
            \<and> l \<in> docs_of (x_node demo_joined_lxml (w_heap (table_world demo_joined))) e))"
    note iff = conjunct2 [OF *, unfolded table_node, THEN spec, of "''dm1''", THEN spec, of 13]
    show "w' = table_world demo_joined \<and> 13 \<in> set (leaves_at e [''system'', ''subjects'', ''subject[@name='' @ dq ''dm1'' @ '']''])"
      unfolding iff using conjunct1 [OF *] some by (rule conjI [OF _ disjI2])
  qed
qed

end
