(* ===== verification/Doc_Apply.thy ===== *)
theory Doc_Apply
  imports Doc_Expansion
begin

text \<open>
  The changes \<^verbatim>\<open>doc_transfer.py\<close> makes to the target policy: copies of the collected nodes are put
  in front of the children of the matched nodes, in order, and nothing else changes.
\<close>

subsection \<open>Copies in front\<close>

text \<open>Compared with \<open>f\<close>, every old node \<open>q\<close> has new trees, the copies of the nodes \<open>D q\<close>, in front of
  its children; \<open>T\<close> is the tree of a copied node.  All else is as it was.\<close>

definition inserted ::
  "('n \<Rightarrow> xtree) \<Rightarrow> 'n set \<Rightarrow> 'n view \<Rightarrow> ('n \<Rightarrow> 'n list) \<Rightarrow> 'n set \<Rightarrow> 'n view \<Rightarrow> bool" where
  "inserted T A f D A' f' \<longleftrightarrow>
     wf_view A' f' \<and> A \<subseteq> A'
     \<and> (\<forall>q \<in> A. \<exists>ns. f' q = (f q)\<lparr>n_children := ns @ n_children (f q)\<rparr> \<and> has_trees (A' - A) f' ns (map T (D q)))"

lemma inserted_refl: "wf_view A f \<Longrightarrow> inserted T A f (\<lambda>_. []) A f"
  by (simp add: inserted_def)

lemma inserted_grows:
  assumes i: "inserted T A f D A1 f1" and g: "grows A1 f1 p [] [T leaf] (n_children (f1 p)) A2 f2" and p: "p \<in> A"
  shows "inserted T A f (D(p := leaf # D p)) A2 f2"
  unfolding inserted_def
proof (intro conjI ballI)
  from i have sub: "A \<subseteq> A1" by (simp add: inserted_def)
  from g obtain ms where wf2: "wf_view A2 f2" and sub2: "A1 \<subseteq> A2" and same: "\<forall>q \<in> A1 - {p}. f2 q = f1 q"
    and fp: "f2 p = (f1 p)\<lparr>n_children := ms @ n_children (f1 p)\<rparr>" and new: "has_trees (A2 - A1) f2 ms [T leaf]"
    by (auto simp: grows_def)
  show "wf_view A2 f2" and "A \<subseteq> A2" using wf2 sub sub2 by auto
  fix q assume q: "q \<in> A"
  obtain ns where ns: "f1 q = (f q)\<lparr>n_children := ns @ n_children (f q)\<rparr>" "has_trees (A1 - A) f1 ns (map T (D q))"
    using i q by (auto simp: inserted_def)
  have old: "has_trees (A2 - A) f2 ns (map T (D q))"
    by (rule has_tree_frame(2) [OF _ _ ns(2)]) (use sub2 same p in auto)
  have "has_trees (A2 - A) f2 ms [T leaf]"
    by (rule has_tree_frame(2) [OF _ _ new]) (use sub in auto)
  then have both: "has_trees (A2 - A) f2 (ms @ ns) ([T leaf] @ map T (D q))" using old by (rule has_trees_append)
  show "\<exists>ns. f2 q = (f q)\<lparr>n_children := ns @ n_children (f q)\<rparr> \<and> has_trees (A2 - A) f2 ns (map T ((D(p := leaf # D p)) q))"
  proof (cases "q = p")
    case True
    then show ?thesis using fp ns both by (intro exI [of _ "ms @ ns"]) simp
  next
    case False
    then have "f2 q = f1 q" using same q sub by auto
    with False ns(1) old show ?thesis by (intro exI [of _ ns]) simp
  qed
qed

definition winserted ::
  "('h, 'n) lxml \<Rightarrow> ('h \<Rightarrow> 'n set) \<Rightarrow> ('n \<Rightarrow> xtree) \<Rightarrow> 'h world \<Rightarrow> ('n \<Rightarrow> 'n list) \<Rightarrow> 'h world \<Rightarrow> bool" where
  "winserted E nodes T w D w' \<longleftrightarrow>
     inserted T (nodes (w_heap w)) (x_node E (w_heap w)) D (nodes (w_heap w')) (x_node E (w_heap w')) \<and> same_fs w w'"

text \<open>The nodes to copy have finite trees apart from the nodes that grow.\<close>

definition copyable :: "'n view \<Rightarrow> ('n \<Rightarrow> xtree) \<Rightarrow> 'n set \<Rightarrow> 'n set \<Rightarrow> 'n \<Rightarrow> bool" where
  "copyable f T S R leaf \<longleftrightarrow> has_tree S f leaf (T leaf) \<and> S \<inter> R = {}"

context etree
begin

lemma runs_insert_leave:
  assumes i: "winserted E nodes T w D w1" and q: "q \<in> nodes (w_heap w)" "q \<in> R"
    and S: "S \<subseteq> nodes (w_heap w)" and leaf: "copyable (x_node E (w_heap w)) T S R leaf"
    and D: "\<forall>q. q \<notin> R \<longrightarrow> D q = []"
  shows "runs (insert_leave E q leaf) w1 (\<lambda>_ w'. winserted E nodes T w (D(q := leaf # D q)) w')"
proof -
  let ?h1 = "w_heap w1" and ?f1 = "x_node E (w_heap w1)"
  from i have ins: "inserted T (nodes (w_heap w)) (x_node E (w_heap w)) D (nodes ?h1) ?f1" and fs: "same_fs w w1"
    by (auto simp: winserted_def)
  then have wf: "wf_view (nodes ?h1) ?f1" and sub: "nodes (w_heap w) \<subseteq> nodes ?h1" by (auto simp: inserted_def)
  have same: "?f1 p = x_node E (w_heap w) p" if "p \<in> S" for p
  proof -
    have "D p = []" using D leaf that by (auto simp: copyable_def)
    moreover have "p \<in> nodes (w_heap w)" using S that by auto
    ultimately obtain ns where "?f1 p = (x_node E (w_heap w) p)\<lparr>n_children := ns @ n_children (x_node E (w_heap w) p)\<rparr>"
      "has_trees (nodes ?h1 - nodes (w_heap w)) ?f1 ns []" using ins unfolding inserted_def by (metis list.map(1))
    then show ?thesis by simp
  qed
  have tree: "has_tree (nodes ?h1) ?f1 leaf (T leaf)"
    by (rule has_tree_frame(1) [of S]) (use S sub same leaf in \<open>auto simp: copyable_def\<close>)
  let ?n = "fst (x_deepcopy E leaf ?h1)" and ?h2 = "snd (x_deepcopy E leaf ?h1)"
  have b: "wbuilds E nodes w1 ?n (T leaf) (w1\<lparr>w_heap := ?h2\<rparr>)"
    using deepcopy_builds [OF wf tree] by (simp add: wbuilds_def)
  have q1: "q \<in> nodes ?h1" using q sub by auto
  have ins2: "runs (xinsert E q 0 ?n) (w1\<lparr>w_heap := ?h2\<rparr>) (\<lambda>_ w'. winserted E nodes T w (D(q := leaf # D q)) w')"
  proof (rule runs_insert_built [OF b q1, of "[]"], simp, simp)
    fix w'
    assume "wgrows E nodes w1 q [] [T leaf] (n_children (?f1 q)) w'"
    then show "winserted E nodes T w (D(q := leaf # D q)) w'"
      using inserted_grows [OF ins _ q(1)] fs by (auto simp: wgrows_def winserted_def intro: same_fs_trans)
  qed
  have "insert_leave E q leaf w1 = xinsert E q 0 ?n (w1\<lparr>w_heap := ?h2\<rparr>)"
    by (simp add: insert_leave_def xdeepcopy_def py_simps)
  then show ?thesis using ins2 by (simp add: runs_def)
qed

end

subsection \<open>The nodes each node receives\<close>

lemma match_cong:
  assumes "n_tag a = n_tag b" and "n_attrib a = n_attrib b"
  shows "simple_xpath_match a p = simple_xpath_match b p"
  unfolding simple_xpath_match_def apply_rule_def assms ..

text \<open>The copies \<open>q\<close> receives when the structure \<open>e\<close> is applied at \<open>n\<close>: the leaves of every part of the
  structure whose path leads from \<open>n\<close> to \<open>q\<close>, the part applied last in front.\<close>

function docs_for :: "'n view \<Rightarrow> 'n expansion \<Rightarrow> 'n \<Rightarrow> 'n \<Rightarrow> 'n list" where
  "docs_for f e n q =
     (if q = n then leaves_list e else [])
     @ concat (rev (map (\<lambda>child.
         concat (rev (map (\<lambda>(path, sub).
            if simple_xpath_match (f child) path = Inr True then docs_for f sub child q else []) (children_list e))))
         (n_children (f n))))"
  by pat_completeness auto
termination
  by (relation "measure (\<lambda>(f, e, n, q). size e)") (auto dest: children_size)

declare docs_for.simps [simp del]

text \<open>The part that comes from one child.\<close>

definition docs_below :: "'n view \<Rightarrow> 'n expansion \<Rightarrow> 'n \<Rightarrow> 'n \<Rightarrow> 'n list" where
  "docs_below f e child q = concat (rev (map (\<lambda>ps.
      if simple_xpath_match (f child) (fst ps) = Inr True then docs_for f (snd ps) child q else []) (children_list e)))"

lemma docs_for_eq:
  "docs_for f e n = (\<lambda>q. (if q = n then leaves_list e else []) @ concat (rev (map (\<lambda>child. docs_below f e child q) (n_children (f n)))))"
  by (rule ext) (simp add: docs_for.simps [of f e n] docs_below_def case_prod_beta')

text \<open>Every path of the structure can be parsed and matches no \<^verbatim>\<open>doc\<close> node; every leaf can be
  copied.\<close>

inductive exp_ok :: "('n \<Rightarrow> bool) \<Rightarrow> 'n expansion \<Rightarrow> bool" for L where
  "(\<And>l. l \<in> set (leaves_list e) \<Longrightarrow> L l) \<Longrightarrow>
   (\<And>path sub. (path, sub) \<in> set (children_list e) \<Longrightarrow>
      (\<forall>t as. \<exists>b. simple_xpath_match (new_node t as :: 'n xnode) path = Inr b)
      \<and> (\<forall>as. simple_xpath_match (new_node ''doc'' as :: 'n xnode) path = Inr False) \<and> exp_ok L sub) \<Longrightarrow>
   exp_ok L e"

lemma exp_ok_match:
  assumes "exp_ok L e" and "(path, sub) \<in> set (children_list e)"
  shows "\<exists>b. simple_xpath_match nod path = Inr b" and "n_tag nod = ''doc'' \<Longrightarrow> simple_xpath_match nod path = Inr False"
    and "exp_ok L sub"
proof -
  have m: "(\<forall>t as. \<exists>b. simple_xpath_match (new_node t as :: 'a xnode) path = Inr b)
      \<and> (\<forall>as. simple_xpath_match (new_node ''doc'' as :: 'a xnode) path = Inr False) \<and> exp_ok L sub"
    using assms by (auto elim: exp_ok.cases)
  have eq: "simple_xpath_match nod path = simple_xpath_match (new_node (n_tag nod) (n_attrib nod) :: 'a xnode) path"
    by (rule match_cong) (simp_all add: new_node_def)
  show "\<exists>b. simple_xpath_match nod path = Inr b" "n_tag nod = ''doc'' \<Longrightarrow> simple_xpath_match nod path = Inr False"
    "exp_ok L sub" unfolding eq using m by simp_all
qed

lemma exp_ok_leaf: "exp_ok L e \<Longrightarrow> l \<in> set (leaves_list e) \<Longrightarrow> L l"
  by (auto elim: exp_ok.cases)

lemma leaves_None: "new_leaves e = None \<Longrightarrow> leaves_list e = []"
  by (simp add: leaves_list_sel)

lemma children_None: "children e = None \<Longrightarrow> children_list e = []"
  by (simp add: children_list_sel)

lemma winserted_data:
  assumes "winserted E nodes T w D w1" and "q \<in> nodes (w_heap w)"
  shows "n_tag (x_node E (w_heap w1) q) = n_tag (x_node E (w_heap w) q)
     \<and> n_attrib (x_node E (w_heap w1) q) = n_attrib (x_node E (w_heap w) q)"
  using assms unfolding winserted_def inserted_def by fastforce

lemma has_trees_tag: "has_trees S f ns ts \<Longrightarrow> n \<in> set ns \<Longrightarrow> \<exists>t \<in> set ts. n_tag (f n) = xt_tag t"
proof (induction ts arbitrary: ns)
  case (Cons t ts)
  then obtain m ms where "ns = m # ms" "has_tree S f m t" "has_trees S f ms ts" by auto
  with Cons show ?case by (cases t) fastforce
qed simp

text \<open>The children a node has after insertions: copies of \<^verbatim>\<open>doc\<close> nodes, then its own.\<close>

lemma winserted_children:
  assumes "winserted E nodes T w D w1" and "q \<in> nodes (w_heap w)" and "\<And>l. l \<in> set (D q) \<Longrightarrow> xt_tag (T l) = ''doc''"
  shows "\<exists>ns. n_children (x_node E (w_heap w1) q) = ns @ n_children (x_node E (w_heap w) q)
     \<and> (\<forall>n \<in> set ns. n_tag (x_node E (w_heap w1) n) = ''doc'')"
proof -
  obtain ns where ns: "x_node E (w_heap w1) q = (x_node E (w_heap w) q)\<lparr>n_children := ns @ n_children (x_node E (w_heap w) q)\<rparr>"
      "has_trees (nodes (w_heap w1) - nodes (w_heap w)) (x_node E (w_heap w1)) ns (map T (D q))"
    using assms(1,2) unfolding winserted_def inserted_def by blast
  have "n_tag (x_node E (w_heap w1) n) = ''doc''" if "n \<in> set ns" for n
    using has_trees_tag [OF ns(2) that] assms(3) by auto
  then show ?thesis using ns(1) by auto
qed

subsection \<open>Applying the structure\<close>

text \<open>Insertions stay within the region \<open>R\<close> and are copies of nodes in \<open>L\<close>.\<close>

definition confined :: "'n set \<Rightarrow> ('n \<Rightarrow> bool) \<Rightarrow> ('n \<Rightarrow> 'n list) \<Rightarrow> bool" where
  "confined R L D \<longleftrightarrow> (\<forall>q. (q \<notin> R \<longrightarrow> D q = []) \<and> (\<forall>l \<in> set (D q). L l))"

lemma concat_Nils [simp]: "concat (rev (map (\<lambda>_. []) xs)) = []"
  by (induction xs) auto

lemma confined_append: "confined R L D \<Longrightarrow> confined R L D' \<Longrightarrow> confined R L (\<lambda>q. D q @ D' q)"
  by (auto simp: confined_def)

lemma confined_concat: "(\<And>x. x \<in> set xs \<Longrightarrow> confined R L (g x)) \<Longrightarrow> confined R L (\<lambda>q. concat (rev (map (\<lambda>x. g x q) xs)))"
  by (induction xs) (auto simp: confined_def)

lemma confined_docs_for:
  assumes closed: "\<And>q. q \<in> R \<Longrightarrow> set (n_children (f q)) \<subseteq> R"
  shows "exp_ok L e \<Longrightarrow> n \<in> R \<Longrightarrow> confined R L (docs_for f e n)"
proof (induction e arbitrary: n rule: measure_induct_rule [where f = size])
  case (less e)
  have sub: "confined R L (\<lambda>q. if simple_xpath_match (f child) (fst ps) = Inr True then docs_for f (snd ps) child q else [])"
    if "child \<in> set (n_children (f n))" "ps \<in> set (children_list e)" for child ps
  proof -
    have p: "(fst ps, snd ps) \<in> set (children_list e)" using that by simp
    have "child \<in> R" using closed less.prems(2) that(1) by blast
    then have "confined R L (docs_for f (snd ps) child)"
      using less.IH [OF children_size [OF p] exp_ok_match(3) [OF less.prems(1) p]] by blast
    then show ?thesis by (auto simp: confined_def)
  qed
  have "confined R L (\<lambda>q. if q = n then leaves_list e else [])"
    using exp_ok_leaf [OF less.prems(1)] less.prems(2) by (auto simp: confined_def)
  moreover have "confined R L (\<lambda>q. concat (rev (map (\<lambda>child. docs_below f e child q) (n_children (f n)))))"
    unfolding docs_below_def by (intro confined_concat sub)
  ultimately show ?case unfolding docs_for_eq by (rule confined_append)
qed

lemma runs_forM_inserted:
  assumes "winserted E nodes T w D w1" and "confined R L D" and "\<And>x. x \<in> set xs \<Longrightarrow> confined R L (g x)"
    and body: "\<And>x D v. x \<in> set xs \<Longrightarrow> confined R L D \<Longrightarrow> winserted E nodes T w D v \<Longrightarrow>
                 runs (m x) v (\<lambda>_ v'. winserted E nodes T w (\<lambda>q. g x q @ D q) v')"
  shows "runs (forM xs m) w1 (\<lambda>_ w'. winserted E nodes T w (\<lambda>q. concat (rev (map (\<lambda>x. g x q) xs)) @ D q) w')"
proof (rule runs_forM [where I = "\<lambda>pre. winserted E nodes T w (\<lambda>q. concat (rev (map (\<lambda>x. g x q) pre)) @ D q)"])
  show "winserted E nodes T w (\<lambda>q. concat (rev (map (\<lambda>x. g x q) [])) @ D q) w1" using assms(1) by simp
next
  fix pre x post v
  assume xs: "xs = pre @ x # post" and v: "winserted E nodes T w (\<lambda>q. concat (rev (map (\<lambda>x. g x q) pre)) @ D q) v"
  have "confined R L (\<lambda>q. concat (rev (map (\<lambda>x. g x q) pre)) @ D q)"
    by (intro confined_append confined_concat assms) (simp add: xs)
  from body [OF _ this v, of x] show "runs (m x) v (\<lambda>_. winserted E nodes T w (\<lambda>q. concat (rev (map (\<lambda>x. g x q) (pre @ [x]))) @ D q))"
    by (simp add: xs)
qed

context etree
begin

lemma runs_insert_leaves:
  assumes "winserted E nodes T w D w1" and "confined R L D" and n: "n \<in> R" and R: "R \<subseteq> nodes (w_heap w)"
    and S: "S \<subseteq> nodes (w_heap w)" and L: "\<And>l. L l \<Longrightarrow> copyable (x_node E (w_heap w)) T S R l"
    and ls: "\<And>l. l \<in> set ls \<Longrightarrow> L l"
  shows "runs (forM (rev ls) (insert_leave E n)) w1 (\<lambda>_ w'. winserted E nodes T w (\<lambda>q. (if q = n then ls else []) @ D q) w')"
proof -
  let ?g = "\<lambda>l q. if q = n then [l] else []"
  have "runs (forM (rev ls) (insert_leave E n)) w1 (\<lambda>_ w'. winserted E nodes T w (\<lambda>q. concat (rev (map (\<lambda>l. ?g l q) (rev ls))) @ D q) w')"
  proof (rule runs_forM_inserted [OF assms(1,2)])
    fix l assume "l \<in> set (rev ls)"
    then show "confined R L (?g l)" using n ls by (auto simp: confined_def)
  next
    fix l D' v assume l: "l \<in> set (rev ls)" and D': "confined R L D'" and v: "winserted E nodes T w D' v"
    have eq: "(\<lambda>q. ?g l q @ D' q) = D'(n := l # D' n)" by auto
    have "n \<in> nodes (w_heap w)" "L l" "\<forall>q. q \<notin> R \<longrightarrow> D' q = []" using n R l ls D' by (auto simp: confined_def)
    then show "runs (insert_leave E n l) v (\<lambda>_ v'. winserted E nodes T w (\<lambda>q. ?g l q @ D' q) v')"
      unfolding eq by (intro runs_insert_leave [OF v _ n S L])
  qed
  moreover have "concat (rev (map (\<lambda>l. ?g l q) (rev ls))) = (if q = n then ls else [])" for q
    by (simp add: rev_map concat_map_singleton)
  ultimately show ?thesis by simp
qed

lemma runs_apply_target_expansion:
  assumes R: "R \<subseteq> nodes (w_heap w)" and closed: "\<And>q. q \<in> R \<Longrightarrow> set (n_children (x_node E (w_heap w) q)) \<subseteq> R"
    and S: "S \<subseteq> nodes (w_heap w)"
    and L: "\<And>l. L l \<Longrightarrow> copyable (x_node E (w_heap w)) T S R l" "\<And>l. L l \<Longrightarrow> xt_tag (T l) = ''doc''"
  shows "exp_ok L e \<Longrightarrow> n \<in> R \<Longrightarrow> confined R L D \<Longrightarrow> winserted E nodes T w D w1 \<Longrightarrow>
     runs (apply_target_expansion E n e) w1 (\<lambda>_ w'. winserted E nodes T w (\<lambda>q. docs_for (x_node E (w_heap w)) e n q @ D q) w')"
proof (induction e arbitrary: n D w1 rule: measure_induct_rule [where f = size])
  case (less e)
  let ?f = "x_node E (w_heap w)"
  let ?body = "\<lambda>child (path, sub). bnd (xlook E child) (\<lambda>nd. bnd (lift (simple_xpath_match nd path)) (\<lambda>b.
                   if b then apply_target_expansion E child sub else ret ()))"
  let ?g = "\<lambda>child ps q. if simple_xpath_match (?f child) (fst ps) = Inr True then docs_for ?f (snd ps) child q else []"
  have g: "confined R L (?g child ps)" if "child \<in> R" "ps \<in> set (children_list e)" for child ps
    using confined_docs_for [OF closed exp_ok_match(3) [OF less.prems(1), of "fst ps" "snd ps"] that(1)] that(2)
    by (auto simp: confined_def)
  have one: "runs (?body child ps) v (\<lambda>_ v'. winserted E nodes T w (\<lambda>q. ?g child ps q @ D' q) v')"
    if child: "child \<in> R" and ps: "ps \<in> set (children_list e)" and D': "confined R L D'" and v: "winserted E nodes T w D' v"
    for child ps D' v
  proof -
    obtain path sub where p: "ps = (path, sub)" by (cases ps)
    have mem: "(path, sub) \<in> set (children_list e)" using ps p by simp
    obtain b where b: "simple_xpath_match (?f child) path = Inr b" using exp_ok_match(1) [OF less.prems(1) mem] by blast
    have "child \<in> nodes (w_heap w)" using child R by blast
    then have "simple_xpath_match (x_node E (w_heap v) child) path = Inr b"
      using match_cong [of "x_node E (w_heap v) child" "?f child"] winserted_data [OF v] b by simp
    then show ?thesis
      using less.IH [OF children_size [OF mem] exp_ok_match(3) [OF less.prems(1) mem] child D' v] v b
      by (cases b) (auto simp: p wp)
  qed
  have loop: "runs (forM cs (\<lambda>child. forM (children_list e) (?body child))) v
      (\<lambda>_ v'. winserted E nodes T w (\<lambda>q. concat (rev (map (\<lambda>child. docs_below ?f e child q) cs)) @ D' q) v')"
    if cs: "set cs \<subseteq> R" and D': "confined R L D'" and v: "winserted E nodes T w D' v" for cs D' v
  proof (rule runs_forM_inserted [OF v D'])
    fix child assume "child \<in> set cs"
    then show "confined R L (docs_below ?f e child)"
      using cs g unfolding docs_below_def by (intro confined_concat) auto
  next
    fix child D'' v' assume "child \<in> set cs" and D'': "confined R L D''" and v': "winserted E nodes T w D'' v'"
    then have "child \<in> R" using cs by blast
    then show "runs (forM (children_list e) (?body child)) v' (\<lambda>_ v'. winserted E nodes T w (\<lambda>q. docs_below ?f e child q @ D'' q) v')"
      unfolding docs_below_def by (intro runs_forM_inserted [OF v' D''] g one)
  qed
  have n_mem: "n \<in> nodes (w_heap w)" and tags: "\<And>l. l \<in> set (D n) \<Longrightarrow> xt_tag (T l) = ''doc''"
    using less.prems(2,3) R L(2) by (auto simp: confined_def)
  obtain ns where ns: "n_children (x_node E (w_heap w1) n) = ns @ n_children (?f n)"
    "\<And>m. m \<in> set ns \<Longrightarrow> n_tag (x_node E (w_heap w1) m) = ''doc''"
    using winserted_children [OF less.prems(4) n_mem tags] by blast
  have skip: "runs (forM ns (\<lambda>child. forM (children_list e) (?body child))) w1 (\<lambda>_ w'. w' = w1)"
  proof (rule runs_forM [where I = "\<lambda>_ w'. w' = w1"], simp)
    fix pre m post v assume "ns = pre @ m # post" and v: "v = w1"
    then have m: "n_tag (x_node E (w_heap w1) m) = ''doc''" using ns(2) by simp
    show "runs (forM (children_list e) (?body m)) v (\<lambda>_ w'. w' = w1)"
    proof (rule runs_forM [where I = "\<lambda>_ w'. w' = w1"], simp add: v)
      fix pre ps post v assume "children_list e = pre @ ps # post" and v: "v = w1"
      then have "simple_xpath_match (x_node E (w_heap w1) m) (fst ps) = Inr False"
        by (intro exp_ok_match(2) [OF less.prems(1) _ m, of _ "snd ps"]) simp
      then show "runs (?body m ps) v (\<lambda>_ w'. w' = w1)" by (cases ps) (auto simp: wp v)
    qed
  qed
  let ?D = "\<lambda>q. concat (rev (map (\<lambda>child. docs_below ?f e child q) (n_children (?f n)))) @ D q"
  have kids: "set (n_children (?f n)) \<subseteq> R" using closed less.prems(2) by blast
  have "runs (forM (ns @ n_children (?f n)) (\<lambda>child. forM (children_list e) (?body child))) w1 (\<lambda>_. winserted E nodes T w ?D)"
    unfolding forM_append runs_bnd
    by (rule runs_mono [OF skip]) (use loop [OF kids less.prems(3,4)] in simp)
  then have first: "runs (if children e \<noteq> None then bnd (xchildren E n) (\<lambda>cs. forM cs (\<lambda>child. forM (children_list e) (?body child)))
      else ret ()) w1 (\<lambda>_. winserted E nodes T w ?D)"
    using less.prems(4) ns(1) by (auto simp: wp docs_below_def children_None)
  have D: "confined R L ?D"
    by (rule confined_append [OF confined_concat less.prems(3)])
      (use g kids in \<open>auto simp: docs_below_def intro!: confined_concat\<close>)
  have second: "runs (if new_leaves e \<noteq> None then forM (rev (leaves_list e)) (insert_leave E n) else ret ()) v
      (\<lambda>_ w'. winserted E nodes T w (\<lambda>q. (if q = n then leaves_list e else []) @ ?D q) w')" if "winserted E nodes T w ?D v" for v
  proof (cases "new_leaves e")
    case None
    then show ?thesis unfolding leaves_None [OF None] using that by (simp add: wp)
  next
    case (Some ls)
    then show ?thesis using runs_insert_leaves [OF that D less.prems(2) R S L(1) exp_ok_leaf [OF less.prems(1)]] by simp
  qed
  show ?case
    unfolding apply_target_expansion.simps [of E n e] docs_for_eq [of ?f e n] runs_bnd append_assoc
    by (rule runs_mono [OF first second])
qed

end

text \<open>C4. Applying a structure of insertions to the target policy returns normally and changes nothing
  but what it should: every node of the documents keeps its tag, attributes, text, parent and
  children, in order; a node reached by a path of the structure gets, in front of its children,
  copies of the \<^verbatim>\<open>doc\<close> nodes at that path, in the order of the structure, and a node that no path
  reaches gets none.  No file changes.\<close>

theorem apply_target_expansion_correct:
  assumes "etree E nodes" and "ok_world E nodes w"
    and "R \<subseteq> nodes (w_heap w)" and "root \<in> R" and "\<And>q. q \<in> R \<Longrightarrow> set (n_children (x_node E (w_heap w) q)) \<subseteq> R"
    and "S \<subseteq> nodes (w_heap w)" and "S \<inter> R = {}"
    and "exp_ok (\<lambda>l. has_tree S (x_node E (w_heap w)) l (T l) \<and> xt_tag (T l) = ''doc'') e"
  shows "runs (apply_target_expansion E root e) w (\<lambda>_ w'.
     (\<forall>q \<in> nodes (w_heap w). \<exists>ns. x_node E (w_heap w') q
           = (x_node E (w_heap w) q)\<lparr>n_children := ns @ n_children (x_node E (w_heap w) q)\<rparr>
        \<and> has_trees (nodes (w_heap w') - nodes (w_heap w)) (x_node E (w_heap w')) ns
             (map T (docs_for (x_node E (w_heap w)) e root q)))
     \<and> ok_world E nodes w' \<and> same_fs w w')"
proof -
  let ?L = "\<lambda>l. has_tree S (x_node E (w_heap w)) l (T l) \<and> xt_tag (T l) = ''doc''"
  have start: "winserted E nodes T w (\<lambda>_. []) w"
    using inserted_refl assms(2) by (simp add: winserted_def ok_world_def)
  have "runs (apply_target_expansion E root e) w
      (\<lambda>_ w'. winserted E nodes T w (\<lambda>q. docs_for (x_node E (w_heap w)) e root q @ []) w')"
    by (rule etree.runs_apply_target_expansion [OF assms(1,3,5,6) _ _ assms(8,4) _ start])
      (use assms(7) in \<open>auto simp: copyable_def confined_def\<close>)
  then show ?thesis
    by (rule runs_mono) (auto simp: winserted_def inserted_def ok_world_def)
qed

text \<open>The policy of one subject and a documentation node for it.\<close>

definition demo_target :: "nat xnode list" where
  "demo_target =
     [nd ''system'' [] [1] None, nd ''subjects'' [] [2] (Some 0), nd ''subject'' [(''name'', ''dm1'')] [4] (Some 1),
      nd ''doc'' [(''type'', ''dev'')] [] None, nd ''memory'' [] [] (Some 2)]"

definition demo_expansion :: "nat expansion" where
  "demo_expansion = Expansion None (Some [(''subjects'',
     Expansion None (Some [(test_seg ''subject'' ''name'' ''dm1'', Expansion (Some [3]) None)]))])"

abbreviation demo_target_lxml :: "(rheap, nat) lxml" where
  "demo_target_lxml \<equiv> ref_lxml (\<lambda>_. None) (\<lambda>f n q. Inr [])"

lemma demo_matches:
  "simple_xpath_match nod ''subjects'' = Inr (n_tag nod = ''subjects'')"
  "simple_xpath_match nod (test_seg ''subject'' ''name'' ''dm1'')
     = Inr (n_tag nod = ''subject'' \<and> map_of (n_attrib nod) ''name'' = Some ''dm1'')"
  using apply_rule_tag [of "''subjects''" nod "[]" NoAction] apply_rule_test [of "''subject''" "''name''" "''dm1''" nod "[]" NoAction]
  by (auto simp: simple_xpath_match_def key_rest_def split: option.splits)

lemma demo_exp_ok:
  assumes "L 3" shows "exp_ok L demo_expansion"
proof -
  have "exp_ok L (Expansion (Some [3]) None)" by (rule exp_ok.intros) (use assms in auto)
  then have "exp_ok L (Expansion None (Some [(test_seg ''subject'' ''name'' ''dm1'', Expansion (Some [3]) None)]))"
    by (intro exp_ok.intros [of "Expansion None _"]) (auto simp: demo_matches new_node_def)
  then show ?thesis
    unfolding demo_expansion_def by (intro exp_ok.intros [of "Expansion None _"]) (auto simp: demo_matches new_node_def)
qed

lemma demo_docs_for: "docs_for (table_view demo_target) demo_expansion 0 2 = [3]"
proof -
  have "n_children (table_view demo_target 0) = [1]" "n_children (table_view demo_target 1) = [2]"
    "n_children (table_view demo_target 2) = [4]" "n_tag (table_view demo_target 1) = ''subjects''"
    "n_tag (table_view demo_target 2) = ''subject''" "map_of (n_attrib (table_view demo_target 2)) ''name'' = Some ''dm1''"
    by code_simp+
  then show ?thesis by (simp add: docs_for.simps demo_expansion_def demo_matches)
qed

theorem apply_target_expansion_correct_witness:
  "runs (apply_target_expansion demo_target_lxml 0 demo_expansion) (table_world demo_target) (\<lambda>_ w'.
     \<exists>ns. n_children (x_node demo_target_lxml (w_heap w') 2) = ns @ [4]
        \<and> has_trees (ref_nodes (w_heap w') - ref_nodes (w_heap (table_world demo_target))) (x_node demo_target_lxml (w_heap w')) ns
             [XT ''doc'' [(''type'', ''dev'')] None []])"
proof -
  let ?T = "\<lambda>_. XT ''doc'' [(''type'', ''dev'')] None []" and ?w = "table_world demo_target"
  have tb: "table_ok demo_target" by code_simp
  have view: "table_view demo_target 3 = nd ''doc'' [(''type'', ''dev'')] [] None" "n_children (table_view demo_target 2) = [4]"
    "n_children (table_view demo_target 0) = [1]" "n_children (table_view demo_target (Suc 0)) = [2]" "n_children (table_view demo_target 4) = []"
    "length demo_target = 5"
    by (simp_all add: table_view_def demo_target_def nd_def)
  have tree: "has_tree {3} (x_node demo_target_lxml (w_heap ?w)) 3 (?T 3) \<and> xt_tag (?T 3) = ''doc''"
    by (simp add: view nd_def)
  note ok = demo_exp_ok [of "\<lambda>l. has_tree {3} (x_node demo_target_lxml (w_heap ?w)) l (?T l) \<and> xt_tag (?T l) = ''doc''", OF tree]
  have "runs (apply_target_expansion demo_target_lxml 0 demo_expansion) ?w (\<lambda>_ w'.
     (\<forall>q \<in> ref_nodes (w_heap ?w). \<exists>ns. x_node demo_target_lxml (w_heap w') q
           = (x_node demo_target_lxml (w_heap ?w) q)\<lparr>n_children := ns @ n_children (x_node demo_target_lxml (w_heap ?w) q)\<rparr>
        \<and> has_trees (ref_nodes (w_heap w') - ref_nodes (w_heap ?w)) (x_node demo_target_lxml (w_heap w')) ns
             (map ?T (docs_for (x_node demo_target_lxml (w_heap ?w)) demo_expansion 0 q)))
     \<and> ok_world demo_target_lxml ref_nodes w' \<and> same_fs ?w w')"
    by (rule apply_target_expansion_correct [where R = "{0, 1, 2, 4}" and S = "{3}", OF ref.etree_axioms ok_table_world [OF tb] _ _ _ _ _ ok])
      (auto simp: view)
  then show ?thesis
    by (rule runs_mono) (use demo_docs_for in \<open>auto simp: view dest!: bspec [where x = 2]\<close>)
qed

end
