(* ===== verification/Solo5_Gencspec.thy ===== *)
theory Solo5_Gencspec
  imports Etree_Ref
begin

text \<open>
  \<^verbatim>\<open>tools/scripts/solo5-muen-gencspec.py\<close>: generates the component specification of a Solo5
  unikernel from its ELF binary.  The parsed binary (\<^verbatim>\<open>lief\<close>), the output of the Solo5 tool and
  the JSON reader are parameters.  The module variables \<^verbatim>\<open>chan_addr\<close> and \<^verbatim>\<open>comp_name\<close> are passed
  and returned where the code reads and writes them.
\<close>

subsection \<open>What the script reads\<close>

record elf_section =
  sec_name :: string
  sec_offset :: int

record elf_segment =
  seg_load :: bool
  seg_sections :: "elf_section list"
  seg_w :: bool
  seg_x :: bool
  seg_vaddr :: int
  seg_psize :: int
  seg_vsize :: int
  seg_offset :: int

record elf_binary =
  elf_entry :: int
  elf_segments :: "elf_segment list"
  elf_get_section :: "string \<Rightarrow> elf_section option"

text \<open>A JSON value.  Of a float only what \<^verbatim>\<open>str\<close> makes of it and the integer it is equal to, if any, matter.\<close>

datatype json = JNull | JBool bool | JInt int | JFloat string "int option" | JStr string | JList "json list" | JObj "(string \<times> json) list"

text \<open>\<^verbatim>\<open>value == i\<close> for an integer: numbers are compared by value, and the Booleans are numbers.\<close>

definition json_eq_int :: "json \<Rightarrow> int \<Rightarrow> bool" where
  "json_eq_int j i =
     (case j of JInt k \<Rightarrow> k = i | JFloat _ n \<Rightarrow> n = Some i | JBool b \<Rightarrow> (if b then 1 else 0) = i | _ \<Rightarrow> False)"

text \<open>\<^verbatim>\<open>data[key]\<close>.\<close>

definition jget :: "json \<Rightarrow> string \<Rightarrow> ('h, json) py" where
  "jget j k =
     (case j of
        JObj d \<Rightarrow> (case map_of d k of None \<Rightarrow> raise (KeyError k) | Some v \<Rightarrow> ret v)
      | _ \<Rightarrow> raise TypeError)"

definition jstr :: "json \<Rightarrow> ('h, string) py" where
  "jstr j = (case j of JStr s \<Rightarrow> ret s | _ \<Rightarrow> raise TypeError)"

text \<open>\<^verbatim>\<open>str(value)\<close> of a JSON value; texts inside lists and objects are quoted (with no escapes).\<close>

fun json_repr :: "json \<Rightarrow> string" where
  "json_repr JNull = ''None''"
| "json_repr (JBool b) = (if b then ''True'' else ''False'')"
| "json_repr (JInt i) = str_int i"
| "json_repr (JFloat t _) = t"
| "json_repr (JStr s) = sq s"
| "json_repr (JList js) = ''['' @ join_str '', '' (map json_repr js) @ '']''"
| "json_repr (JObj d) = ''{'' @ join_str '', '' (map (\<lambda>(k, v). sq k @ '': '' @ json_repr v) d) @ ''}''"

definition json_str :: "json \<Rightarrow> string" where
  "json_str j = (case j of JStr s \<Rightarrow> s | _ \<Rightarrow> json_repr j)"

text \<open>The code outside the repository: the ELF parser on a file's contents (\<^verbatim>\<open>None\<close> when it is no ELF
  binary), the command that
  queries the unikernel (\<^verbatim>\<open>None\<close> when it fails), and the JSON reader.\<close>

record solo5_env =
  lief_parse :: "string \<Rightarrow> elf_binary option"
  check_output :: "string \<Rightarrow> string option"
  json_loads :: "string \<Rightarrow> pyerr + json"

record solo5_args =
  a_elf :: string
  a_spec :: string
  a_out_dir :: string
  a_bootparams :: string
  a_out_spec :: "string option"
  a_ram :: int
  a_copy :: bool
  a_resetable :: bool

definition MFT_CMD :: string where "MFT_CMD = ''solo5-elftool query-manifest''"
definition ABI_CMD :: string where "ABI_CMD = ''solo5-elftool query-abi''"
definition MAX_NAME_LEN :: int where "MAX_NAME_LEN = 63"
definition NOP :: char where "NOP = CHR 0x90"
definition ABI_TARGET :: string where "ABI_TARGET = ''muen''"
definition ABI_VERSION :: int where "ABI_VERSION = 3"
definition chan_size :: int where "chan_size = 0x100000"

subsection \<open>Configuration values and registers\<close>

text \<open>The \<^verbatim>\<open>config\<close> section, created as the first child of the component when it is missing.\<close>

definition config_section :: "('h, 'n) lxml \<Rightarrow> 'n \<Rightarrow> ('h, 'n) py" where
  "config_section E xml_spec =
     bnd (xpath E xml_spec ''/component/config'') (\<lambda>section.
     case section of
       [] \<Rightarrow> bnd (xpath0 E xml_spec ''/component'') (\<lambda>cmp.
             bnd (element E ''config'' []) (\<lambda>config.
             seq (xinsert E cmp 0 config) (ret config)))
     | config # _ \<Rightarrow> ret config)"

definition add_bootparams :: "('h, 'n) lxml \<Rightarrow> 'n \<Rightarrow> string \<Rightarrow> ('h, unit) py" where
  "add_bootparams E xml_spec bootparams =
     bnd (config_section E xml_spec) (\<lambda>config.
     seq (if length bootparams > 0 then print (''* Setting bootparams to '' @ sq bootparams) else ret ()) (
     seq (subelement E config ''string'' [(''name'', PStr ''bootparams''), (''value'', PStr bootparams)]) (ret ())))"

text \<open>The first access to the parsed binary.  Returns the binary, which is not \<^verbatim>\<open>None\<close> from here on.\<close>

definition set_rip :: "('h, 'n) lxml \<Rightarrow> 'n \<Rightarrow> elf_binary option \<Rightarrow> ('h, elf_binary) py" where
  "set_rip E xml_spec binary =
     bnd (xpath0 E xml_spec ''/component/requires/vcpu/registers/gpr/rip'') (\<lambda>rip.
     bnd (case binary of None \<Rightarrow> raise AttributeError | Some binary \<Rightarrow> ret binary) (\<lambda>binary.
     bnd (lift (int_to_ada_hex (PInt (elf_entry binary)))) (\<lambda>t.
     seq (xsettext E rip t) (seq (print (''* Setting RIP to '' @ t)) (ret binary)))))"

definition set_resetable :: "('h, 'n) lxml \<Rightarrow> 'n \<Rightarrow> bool \<Rightarrow> ('h, unit) py" where
  "set_resetable E xml_spec resetable =
     bnd (config_section E xml_spec) (\<lambda>config.
     let rst_str = lower_str (if resetable then ''True'' else ''False'') in
     seq (print (''* Component reset is set to '' @ sq rst_str)) (
     bnd (element E ''boolean'' [(''name'', PStr ''resetable''), (''value'', PStr rst_str)]) (\<lambda>var.
     xinsert E config 0 var)))"

subsection \<open>Memory regions\<close>

text \<open>\<^verbatim>\<open>s[:k]\<close>: a negative bound counts from the end.\<close>

definition slice_to :: "int \<Rightarrow> 'a list \<Rightarrow> 'a list" where
  "slice_to k s = (if 0 \<le> k then take (nat k) s else take (length s - nat (- k)) s)"

definition region_name :: "int \<Rightarrow> elf_segment \<Rightarrow> string" where
  "region_name max_len segment =
     (let n = join_str ''+'' (map sec_name (seg_sections segment));
          mem_name = (if int (length n) > max_len then slice_to (max_len - 2) n @ ''..'' else n)
      in if contains ''.text'' mem_name then ''text'' else mem_name)"

text \<open>The region backed by the file, and the region filled with zeros behind it.\<close>

definition add_binary_region ::
  "('h, 'n) lxml \<Rightarrow> 'n \<Rightarrow> string \<Rightarrow> string \<Rightarrow> elf_segment \<Rightarrow> int \<Rightarrow> string \<Rightarrow> string \<Rightarrow> ('h, unit) py" where
  "add_binary_region E provides filename mem_name segment phy_size vaddr_str offset_str =
     (if phy_size > 0
      then seq (print (''* Adding memory region '' @ sq mem_name)) (
           bnd (lift (int_to_ada_hex (PInt phy_size))) (\<lambda>size_str.
           bnd (element E ''memory''
                  [(''logical'', PStr mem_name), (''virtualAddress'', PStr vaddr_str), (''size'', PStr size_str),
                   (''executable'', bool_to_str (PBool (seg_x segment))), (''writable'', bool_to_str (PBool (seg_w segment))),
                   (''type'', PStr ''subject_binary'')]) (\<lambda>mem.
           seq (subelement E mem ''file'' [(''filename'', PStr filename), (''offset'', PStr offset_str)]) (
           xappend E provides mem))))
      else ret ())"

definition add_fill_region ::
  "('h, 'n) lxml \<Rightarrow> 'n \<Rightarrow> string \<Rightarrow> elf_segment \<Rightarrow> int \<Rightarrow> int \<Rightarrow> ('h, unit) py" where
  "add_fill_region E provides mem_name segment phy_size mem_size =
     (if phy_size < mem_size
      then let vaddr = seg_vaddr segment + phy_size in
           bnd (lift (int_to_ada_hex (PInt vaddr))) (\<lambda>vaddr_str.
           bnd (lift (int_to_ada_hex (PInt (mem_size - phy_size)))) (\<lambda>size_str.
           seq (print (''* Adding memory region '' @ sq (mem_name @ ''|fill''))) (
           bnd (element E ''memory''
                  [(''logical'', PStr (mem_name @ ''|fill'')), (''virtualAddress'', PStr vaddr_str), (''size'', PStr size_str),
                   (''executable'', bool_to_str (PBool (seg_x segment))), (''writable'', bool_to_str (PBool (seg_w segment))),
                   (''type'', PStr ''subject_binary'')]) (\<lambda>mem.
           seq (subelement E mem ''fill'' [(''pattern'', PStr ''16#00#'')]) (
           xappend E provides mem)))))
      else ret ())"

definition add_segment ::
  "('h, 'n) lxml \<Rightarrow> 'n \<Rightarrow> string \<Rightarrow> int \<Rightarrow> int \<Rightarrow> elf_segment \<Rightarrow> ('h, int) py" where
  "add_segment E provides filename max_len end_addr segment =
     (if \<not> seg_load segment then ret end_addr
      else if seg_sections segment = [] then ret end_addr
      else
        let mem_name = region_name max_len segment;
            phy_size = page_up (seg_psize segment);
            mem_size = page_up (seg_vsize segment) in
        bnd (lift (int_to_ada_hex (PInt (seg_vaddr segment)))) (\<lambda>vaddr_str.
        bnd (lift (int_to_ada_hex (PInt (seg_offset segment)))) (\<lambda>offset_str.
        seq (add_binary_region E provides filename mem_name segment phy_size vaddr_str offset_str) (
        seq (add_fill_region E provides mem_name segment phy_size mem_size) (
        ret (seg_vaddr segment + mem_size))))))"

definition add_elf_memory ::
  "('h, 'n) lxml \<Rightarrow> string \<Rightarrow> 'n \<Rightarrow> elf_binary \<Rightarrow> string \<Rightarrow> ('h, int) py" where
  "add_elf_memory E comp_name xml_spec binary filename =
     (let max_len = MAX_NAME_LEN - (int (length comp_name) + 1) in
      bnd (xpath0 E xml_spec ''/component/provides'') (\<lambda>provides.
      foldM (add_segment E provides filename max_len) 0 (elf_segments binary)))"

definition set_rsp :: "('h, 'n) lxml \<Rightarrow> 'n \<Rightarrow> int \<Rightarrow> ('h, unit) py" where
  "set_rsp E xml_spec addr =
     bnd (xpath0 E xml_spec ''/component/requires/vcpu/registers/gpr/rsp'') (\<lambda>rsp.
     bnd (lift (int_to_ada_hex (PInt addr))) (\<lambda>t.
     seq (xsettext E rsp t) (print (''* Setting RSP to '' @ t))))"

text \<open>The \<^verbatim>\<open>provides\<close> section is looked up in the module variable \<^verbatim>\<open>src_spec\<close>, the other in the
  argument.\<close>

definition add_ram_memory :: "('h, 'n) lxml \<Rightarrow> 'n \<Rightarrow> 'n \<Rightarrow> int \<Rightarrow> int \<Rightarrow> ('h, int) py" where
  "add_ram_memory E src_spec xml_spec binary_end ram_size_mb =
     seq (print (''* Adding RAM region with size '' @ str_int ram_size_mb @ '' MB'')) (
     let ram_size = ram_size_mb * 2 ^ 20 in
     bnd (xpath0 E src_spec ''/component/provides'') (\<lambda>provides.
     bnd (lift (int_to_ada_hex (PInt binary_end))) (\<lambda>addr_str.
     bnd (lift (int_to_ada_hex (PInt ram_size))) (\<lambda>size_str.
     seq (subelement E provides ''memory''
            [(''logical'', PStr ''ram''), (''virtualAddress'', PStr addr_str), (''size'', PStr size_str),
             (''executable'', PStr ''false''), (''writable'', PStr ''true''), (''type'', PStr ''subject'')]) (
     seq (set_rsp E xml_spec (binary_end + ram_size - 8)) (
     ret (binary_end + ram_size)))))))"

subsection \<open>Channels\<close>

text \<open>\<^verbatim>\<open>channels\<close> is the list a query returned or the element the script created; \<^verbatim>\<open>append\<close> extends
  the list or the document.\<close>

type_synonym 'n channels = "'n list + 'n"

definition channels_len :: "('h, 'n) lxml \<Rightarrow> 'n channels \<Rightarrow> ('h, nat) py" where
  "channels_len E channels =
     (case channels of Inl ns \<Rightarrow> ret (length ns) | Inr n \<Rightarrow> bnd (xchildren E n) (\<lambda>cs. ret (length cs)))"

definition channels_append :: "('h, 'n) lxml \<Rightarrow> 'n channels \<Rightarrow> 'n \<Rightarrow> ('h, 'n channels) py" where
  "channels_append E channels c =
     (case channels of Inl ns \<Rightarrow> ret (Inl (ns @ [c])) | Inr n \<Rightarrow> seq (xappend E n c) (ret (Inr n)))"

definition channel_elem :: "('h, 'n) lxml \<Rightarrow> string \<Rightarrow> string \<Rightarrow> int \<Rightarrow> ('h, 'n) py" where
  "channel_elem E tag logical addr =
     bnd (lift (int_to_ada_hex (PInt addr))) (\<lambda>a.
     bnd (lift (int_to_ada_hex (PInt chan_size))) (\<lambda>s.
     element E tag [(''logical'', PStr logical), (''virtualAddress'', PStr a), (''size'', PStr s)]))"

text \<open>Returns the new value of \<^verbatim>\<open>chan_addr\<close>.\<close>

definition add_channel ::
  "('h, 'n) lxml \<Rightarrow> string \<Rightarrow> int \<Rightarrow> 'n channels \<Rightarrow> ('h, int \<times> 'n channels) py" where
  "add_channel E name chan_addr channels =
     bnd (lift (int_to_ada_hex (PInt chan_addr))) (\<lambda>a.
     seq (print (''* Adding channels for device '' @ sq name @ '' @ '' @ a)) (
     bnd (channel_elem E ''reader'' (name @ ''|in'') chan_addr) (\<lambda>r.
     bnd (channels_append E channels r) (\<lambda>channels.
     let chan_addr = chan_addr + chan_size in
     bnd (channel_elem E ''writer'' (name @ ''|out'') chan_addr) (\<lambda>w.
     bnd (channels_append E channels w) (\<lambda>channels.
     ret (chan_addr + chan_size, channels)))))))"

text \<open>The new \<^verbatim>\<open>channels\<close> section; the devices section moves behind it.\<close>

definition create_channels :: "('h, 'n) lxml \<Rightarrow> 'n \<Rightarrow> ('h, 'n) py" where
  "create_channels E src_spec =
     bnd (xpath0 E src_spec ''/component/requires'') (\<lambda>req.
     bnd (subelement E req ''channels'' []) (\<lambda>c.
     bnd (xpath E src_spec ''/component/requires/devices'') (\<lambda>devs.
     seq (case devs of
            [] \<Rightarrow> ret ()
          | d # _ \<Rightarrow> seq (xremove E req d) (xappend E req d))
     (ret c))))"

definition add_device ::
  "('h, 'n) lxml \<Rightarrow> 'n \<Rightarrow> int \<times> 'n channels \<Rightarrow> json \<Rightarrow> ('h, int \<times> 'n channels) py" where
  "add_device E src_spec st dev =
     (case st of (chan_addr, channels) \<Rightarrow>
      bnd (jget dev ''type'') (\<lambda>t.
      if t = JStr ''NET_BASIC''
      then bnd (channels_len E channels) (\<lambda>len.
           bnd (if len = 0 then bnd (create_channels E src_spec) (\<lambda>c. ret (Inr c)) else ret channels) (\<lambda>channels.
           bnd (jget dev ''name'') (\<lambda>nm.
           bnd (jstr nm) (\<lambda>nm.
           add_channel E nm chan_addr channels))))
      else ret (chan_addr, channels)))"

definition validate_solo5_abi :: "solo5_env \<Rightarrow> string \<Rightarrow> ('h, unit) py" where
  "validate_solo5_abi V raw_abi =
     seq (print ''* Checking Solo5 ABI'') (
     bnd (lift (json_loads V raw_abi)) (\<lambda>data.
     bnd (jget data ''type'') (\<lambda>t.
     if t \<noteq> JStr ''solo5.abi'' then sys_exit ''Error: JSON file does not contain Solo5 ABI''
     else
     bnd (jget data ''target'') (\<lambda>tg.
     if tg \<noteq> JStr ABI_TARGET
     then bnd (jstr tg) (\<lambda>tg. sys_exit (''Error: Solo5 ABI target mismatch: '' @ tg @ '', expected '' @ ABI_TARGET))
     else
     bnd (jget data ''version'') (\<lambda>v.
     if \<not> json_eq_int v ABI_VERSION
     then sys_exit (''Error: Solo5 ABI version: '' @ json_str v @ '', expected '' @ str_int ABI_VERSION)
     else ret ())))))"

subsection \<open>The copy of the binary\<close>

text \<open>\<^verbatim>\<open>seek\<close> and \<^verbatim>\<open>write\<close> on a file opened for update: a gap beyond the end is filled with zeros,
  and writing nothing changes nothing.\<close>

definition overwrite :: "nat \<Rightarrow> string \<Rightarrow> string \<Rightarrow> string" where
  "overwrite off bs content =
     (if bs = [] then content
      else take off (content @ replicate (off - length content) (CHR 0x00)) @ bs @ drop (off + length bs) content)"

definition patch_binary :: "string \<Rightarrow> elf_binary \<Rightarrow> ('h, unit) py" where
  "patch_binary out_bin_path binary =
     (case elf_get_section binary ''.text'' of
        None \<Rightarrow> sys_exit (''Error: Unable to patch binary - '' @ sq ''.text'' @ '' section not found'')
      | Some text_section \<Rightarrow>
          (case elf_get_section binary ''.interp'' of
             None \<Rightarrow> raise AttributeError
           | Some interp_section \<Rightarrow>
               let patch_size = sec_offset text_section - sec_offset interp_section in
               bnd (lift (int_to_ada_hex (PInt (sec_offset interp_section)))) (\<lambda>off_str.
               seq (print (''Patching binary @ file offset '' @ off_str @ '' with '' @ str_int patch_size @ '' NOPs'')) (
               bnd (read_file out_bin_path) (\<lambda>content.
               if sec_offset interp_section < 0 then raise OSError
               else write_file out_bin_path
                      (overwrite (nat (sec_offset interp_section)) (replicate (nat patch_size) NOP) content))))))"

subsection \<open>The script\<close>

text \<open>The query of the unikernel; a failing command ends the script.\<close>

definition query_tool :: "solo5_env \<Rightarrow> string \<Rightarrow> string \<Rightarrow> string \<Rightarrow> ('h, string) py" where
  "query_tool V cmd src_bin_path msg =
     (case check_output V (cmd @ '' '' @ src_bin_path) of None \<Rightarrow> sys_exit msg | Some s \<Rightarrow> ret s)"

definition jlist :: "json \<Rightarrow> ('h, json list) py" where
  "jlist j = (case j of JList js \<Rightarrow> ret js | JObj d \<Rightarrow> ret (map (JStr \<circ> fst) d) | JStr s \<Rightarrow> ret (map (\<lambda>c. JStr [c]) s)
                | _ \<Rightarrow> raise TypeError)"

definition out_spec_of :: "solo5_args \<Rightarrow> string \<Rightarrow> ('h, string) py" where
  "out_spec_of args comp_name =
     (case a_out_spec args of
        Some p \<Rightarrow> ret p
      | None \<Rightarrow>
          bnd (isdir (a_out_dir args @ ''/'' @ ''cspecs'')) (\<lambda>d.
          ret (a_out_dir args @ ''/'' @ (if d then ''cspecs/'' else []) @ comp_name @ ''.xml'')))"

text \<open>Everything before the output is written: the checks of the arguments and the changes of the
  specification in memory.  Returns the specification, the binary and the component name.\<close>

definition solo5_generate ::
  "solo5_env \<Rightarrow> ('h, 'n) lxml \<Rightarrow> solo5_args \<Rightarrow> ('h, 'n \<times> elf_binary \<times> string) py" where
  "solo5_generate V E args =
     bnd (isfile (a_elf args)) (\<lambda>b.
     seq (if \<not> b then sys_exit ''Error: ELF binary not found'' else ret ()) (
     bnd (isfile (a_spec args)) (\<lambda>b.
     seq (if \<not> b then sys_exit ''Error: Source component XML specification not found'' else ret ()) (
     seq (print (''Processing unikernel binary '' @ sq (a_elf args))) (
     let binary_name = basename (a_elf args) in
     bnd (read_file (a_elf args)) (\<lambda>elf.
     let binary = lief_parse V elf in
     seq (print (''Reading source component specification from '' @ sq (a_spec args))) (
     bnd (xparse E (a_spec args)) (\<lambda>src_spec.
     bnd (xattr E src_spec ''name'') (\<lambda>name.
     let comp_name = lower_str name in
     seq (add_bootparams E src_spec (a_bootparams args)) (
     seq (set_resetable E src_spec (a_resetable args)) (
     bnd (set_rip E src_spec binary) (\<lambda>binary.
     bnd (add_elf_memory E comp_name src_spec binary binary_name) (\<lambda>end_address.
     bnd (add_ram_memory E src_spec src_spec end_address (a_ram args)) (\<lambda>chan_addr.
     seq (print ''Extracting Solo5 ABI information from unikernel binary'') (
     bnd (query_tool V ABI_CMD (a_elf args) ''Error: Unable to extract ABI from unikernel binary'') (\<lambda>abi_info.
     seq (validate_solo5_abi V abi_info) (
     seq (print ''Extracting Solo5 manifest from unikernel binary'') (
     bnd (query_tool V MFT_CMD (a_elf args) ''Error: Unable to extract manifest from unikernel binary'') (\<lambda>manifest.
     bnd (lift (json_loads V manifest)) (\<lambda>data.
     bnd (jget data ''type'') (\<lambda>t.
     seq (if t \<noteq> JStr ''solo5.manifest'' then sys_exit ''Error: JSON file does not contain Solo5 Manifest'' else ret ()) (
     bnd (xpath E src_spec ''/component/requires/channels'') (\<lambda>channels.
     bnd (jget data ''devices'') (\<lambda>devices.
     bnd (jlist devices) (\<lambda>devs.
     seq (foldM (add_device E src_spec) (chan_addr, Inl channels) devs) (
     ret (src_spec, binary, comp_name)))))))))))))))))))))))))))"

definition solo5_main :: "solo5_env \<Rightarrow> ('h, 'n) lxml \<Rightarrow> solo5_args \<Rightarrow> ('h, unit) py" where
  "solo5_main V E args =
     bnd (solo5_generate V E args) (\<lambda>(src_spec, binary, comp_name).
     bnd (out_spec_of args comp_name) (\<lambda>out_spec_path.
     bnd (isdir (dirname out_spec_path)) (\<lambda>d.
     seq (if \<not> d then sys_exit (''Error: Output directory for component specification does not exist (''
                                  @ sq (dirname out_spec_path) @ '')'') else ret ()) (
     seq (open_write out_spec_path) (
     seq (print (''Writing component specification to '' @ sq out_spec_path)) (
     bnd (xtostring E src_spec) (\<lambda>s.
     seq (write_file out_spec_path s) (
     if a_copy args
     then bnd (path_exists (a_out_dir args)) (\<lambda>ex.
          seq (if \<not> ex then seq (print (''Creating binary output directory '' @ sq (a_out_dir args))) (makedirs (a_out_dir args))
               else ret ()) (
          let out_bin_path = a_out_dir args @ ''/'' @ basename (a_elf args) in
          seq (print (''Copying unikernel binary to '' @ sq out_bin_path)) (
          seq (copy_file (a_elf args) out_bin_path) (
          patch_binary out_bin_path binary))))
     else ret ()))))))))"

end
