(* ===== verification/Solo5_Props.thy ===== *)
theory Solo5_Props
  imports Solo5_Gencspec
begin

text \<open>
  Properties of the Solo5 specification generator: the memory regions of the binary cover each
  loadable segment without gap or overlap, RAM and channels follow at ascending addresses, the
  names fit, the copy of the binary is patched where it should be.
\<close>

subsection \<open>Regions\<close>

text \<open>The interval of addresses a memory or channel element describes.\<close>

definition ada_value :: "string option \<Rightarrow> int option" where
  "ada_value s = (case s of None \<Rightarrow> None | Some t \<Rightarrow>
     (case ada_hex_to_int (PStr t) of Inr (PInt i) \<Rightarrow> Some i | _ \<Rightarrow> None))"

definition tree_interval :: "xtree \<Rightarrow> int set" where
  "tree_interval t =
     (case (ada_value (map_of (xt_attrib t) ''virtualAddress''), ada_value (map_of (xt_attrib t) ''size'')) of
        (Some a, Some s) \<Rightarrow> {a..<a + s} | _ \<Rightarrow> {})"

lemma ada_value_hex: "0 < i \<Longrightarrow> ada_value (Some (int_to_ada_hex_int i)) = Some i"
  using ada_hex_roundtrip_nat [of "nat i"] by (simp add: ada_value_def)

definition bool_attr :: "bool \<Rightarrow> string" where
  "bool_attr b = (if b then ''true'' else ''false'')"

lemma bool_to_str_PBool [simp]: "bool_to_str (PBool b) = PStr (bool_attr b)"
proof -
  have "lower_str ''True'' = ''true''" "lower_str ''False'' = ''false''" by code_simp+
  then show ?thesis by (cases b) (simp_all add: bool_to_str_def bool_attr_def)
qed

definition used_segment :: "elf_segment \<Rightarrow> bool" where
  "used_segment seg \<longleftrightarrow> seg_load seg \<and> seg_sections seg \<noteq> []"

definition binary_tree :: "string \<Rightarrow> int \<Rightarrow> elf_segment \<Rightarrow> xtree" where
  "binary_tree filename max_len seg =
     XT ''memory'' [(''logical'', region_name max_len seg), (''virtualAddress'', int_to_ada_hex_int (seg_vaddr seg)),
                    (''size'', int_to_ada_hex_int (page_up (seg_psize seg))), (''executable'', bool_attr (seg_x seg)),
                    (''writable'', bool_attr (seg_w seg)), (''type'', ''subject_binary'')] None
        [XT ''file'' [(''filename'', filename), (''offset'', int_to_ada_hex_int (seg_offset seg))] None []]"

definition fill_tree :: "int \<Rightarrow> elf_segment \<Rightarrow> xtree" where
  "fill_tree max_len seg =
     XT ''memory'' [(''logical'', region_name max_len seg @ ''|fill''),
                    (''virtualAddress'', int_to_ada_hex_int (seg_vaddr seg + page_up (seg_psize seg))),
                    (''size'', int_to_ada_hex_int (page_up (seg_vsize seg) - page_up (seg_psize seg))),
                    (''executable'', bool_attr (seg_x seg)), (''writable'', bool_attr (seg_w seg)),
                    (''type'', ''subject_binary'')] None [XT ''fill'' [(''pattern'', ''16#00#'')] None []]"

definition segment_trees :: "string \<Rightarrow> int \<Rightarrow> elf_segment \<Rightarrow> xtree list" where
  "segment_trees filename max_len seg =
     (if used_segment seg
      then (if 0 < page_up (seg_psize seg) then [binary_tree filename max_len seg] else [])
           @ (if page_up (seg_psize seg) < page_up (seg_vsize seg) then [fill_tree max_len seg] else [])
      else [])"

definition segment_end :: "int \<Rightarrow> elf_segment \<Rightarrow> int" where
  "segment_end e seg = (if used_segment seg then seg_vaddr seg + page_up (seg_vsize seg) else e)"

context etree
begin

text \<open>An element with one child, appended to an existing node.\<close>

lemma runs_nested_element:
  assumes "ok_world E nodes w" and "p \<in> nodes (w_heap w)" and "attr_strs as = Inr as'" and "attr_strs bs = Inr bs'"
    and Q: "\<And>w'. wadds E nodes w p [XT t as' None [XT u bs' None []]] w' \<Longrightarrow> Q () w'"
  shows "runs (bnd (element E t as) (\<lambda>n. seq (subelement E n u bs) (xappend E p n))) w Q"
  unfolding runs_bnd
proof (rule runs_element [OF assms(1,3)])
  fix n w1 assume b: "wbuilds E nodes w n (XT t as' None []) w1"
  show "runs (subelement E n u bs) w1 (\<lambda>_ w2. runs (xappend E p n) w2 Q)"
    by (rule runs_subelement_built [OF b assms(4)]) (auto intro: runs_append_built [OF _ assms(2)] Q)
qed

lemma runs_add_binary_region:
  assumes w: "ok_world E nodes w" and p: "p \<in> nodes (w_heap w)"
  shows "runs (add_binary_region E p filename (region_name max_len seg) seg (page_up (seg_psize seg))
             (int_to_ada_hex_int (seg_vaddr seg)) (int_to_ada_hex_int (seg_offset seg))) w
     (\<lambda>_ w'. wadds E nodes w p (if 0 < page_up (seg_psize seg) then [binary_tree filename max_len seg] else []) w')"
  using wadds_refl [OF w p] unfolding add_binary_region_def binary_tree_def runs_if runs_bnd
  by (auto simp: wp w p intro!: runs_print runs_nested_element [unfolded runs_bnd])

lemma runs_add_fill_region:
  assumes w: "ok_world E nodes w" and p: "p \<in> nodes (w_heap w)"
  shows "runs (add_fill_region E p (region_name max_len seg) seg (page_up (seg_psize seg)) (page_up (seg_vsize seg))) w
     (\<lambda>_ w'. wadds E nodes w p (if page_up (seg_psize seg) < page_up (seg_vsize seg) then [fill_tree max_len seg] else []) w')"
  using wadds_refl [OF w p] unfolding add_fill_region_def fill_tree_def runs_if runs_bnd Let_def
  by (auto simp: wp w p intro!: runs_print runs_nested_element [unfolded runs_bnd])

lemma runs_add_segment:
  assumes w: "ok_world E nodes w" and p: "p \<in> nodes (w_heap w)"
  shows "runs (add_segment E p filename max_len e seg) w
     (\<lambda>e' w'. e' = segment_end e seg \<and> wadds E nodes w p (segment_trees filename max_len seg) w')"
proof (cases "used_segment seg")
  case False
  then show ?thesis
    using wadds_refl [OF w p] by (auto simp: add_segment_def used_segment_def segment_end_def segment_trees_def wp)
next
  case True
  let ?name = "region_name max_len seg" and ?P = "page_up (seg_psize seg)" and ?M = "page_up (seg_vsize seg)"
  let ?bin = "if 0 < ?P then [binary_tree filename max_len seg] else []"
  have fill: "runs (add_fill_region E p ?name seg ?P ?M) v (\<lambda>_ v'. wadds E nodes w p (segment_trees filename max_len seg) v')"
    if v: "wadds E nodes w p ?bin v" for v
    by (rule runs_mono [OF runs_add_fill_region [OF wgrows_ok [OF v] wgrows_mem [OF v p]]])
      (drule wadds_trans [OF v], simp add: segment_trees_def True)
  have "runs (seq (add_binary_region E p filename ?name seg ?P (int_to_ada_hex_int (seg_vaddr seg)) (int_to_ada_hex_int (seg_offset seg)))
               (add_fill_region E p ?name seg ?P ?M)) w (\<lambda>_ v'. wadds E nodes w p (segment_trees filename max_len seg) v')"
    unfolding runs_bnd by (rule runs_mono [OF runs_add_binary_region [OF w p] fill])
  then show ?thesis
    using True by (auto simp: add_segment_def used_segment_def segment_end_def Let_def wp elim!: runs_mono)
qed

lemma runs_add_elf_memory:
  assumes w: "ok_world E nodes w" and p: "p \<in> nodes (w_heap w)"
    and q: "x_xpath E (w_heap w) spec ''/component/provides'' = Inr (p # r)"
  shows "runs (add_elf_memory E cn spec binary filename) w (\<lambda>e' w'. e' = foldl segment_end 0 (elf_segments binary)
     \<and> wadds E nodes w p (concat (map (segment_trees filename (MAX_NAME_LEN - (int (length cn) + 1))) (elf_segments binary))) w')"
proof -
  let ?g = "segment_trees filename (MAX_NAME_LEN - (int (length cn) + 1))"
  have body: "runs (add_segment E p filename ml e seg) v (\<lambda>e' v'. e' = segment_end e seg \<and> wadds E nodes v p (segment_trees filename ml seg) v')"
    if "wadds E nodes w p vs v" for ml e seg vs v
    by (rule runs_add_segment [OF wgrows_ok [OF that] wgrows_mem [OF that p]])
  have "runs (foldM (add_segment E p filename (MAX_NAME_LEN - (int (length cn) + 1))) 0 (elf_segments binary)) w
     (\<lambda>e' w'. e' = foldl segment_end 0 (elf_segments binary) \<and> wadds E nodes w p (concat (collect (\<lambda>_. ?g) segment_end 0 (elf_segments binary))) w')"
    by (rule runs_foldM_adds_list [OF w p body])
  then show ?thesis using q by (simp add: add_elf_memory_def wp collect_map)
qed

end

lemma segment_intervals:
  assumes "used_segment seg" and "0 < seg_vaddr seg" and "0 \<le> seg_psize seg"
  shows "(\<Union>t \<in> set (segment_trees fn ml seg). tree_interval t) =
           {seg_vaddr seg..<seg_vaddr seg + max (page_up (seg_psize seg)) (page_up (seg_vsize seg))}"
    and "i < j \<Longrightarrow> j < length (segment_trees fn ml seg) \<Longrightarrow>
           tree_interval (segment_trees fn ml seg ! i) \<inter> tree_interval (segment_trees fn ml seg ! j) = {}"
proof -
  let ?v = "seg_vaddr seg" and ?P = "page_up (seg_psize seg)" and ?M = "page_up (seg_vsize seg)"
  have P: "0 \<le> ?P" using page_up_bounds(1) [of "seg_psize seg"] assms(3) by linarith
  have bin: "tree_interval (binary_tree fn ml seg) = {?v..<?v + ?P}" if "0 < ?P"
    using that assms(2) by (simp add: tree_interval_def binary_tree_def ada_value_hex)
  have fill: "tree_interval (fill_tree ml seg) = {?v + ?P..<?v + ?M}" if "?P < ?M"
    using that assms(2) P by (simp add: tree_interval_def fill_tree_def ada_value_hex)
  show "(\<Union>t \<in> set (segment_trees fn ml seg). tree_interval t) = {?v..<?v + max ?P ?M}"
    using assms(1) bin fill P by (auto simp: segment_trees_def max_def)
  show "tree_interval (segment_trees fn ml seg ! i) \<inter> tree_interval (segment_trees fn ml seg ! j) = {}"
    if "i < j" "j < length (segment_trees fn ml seg)"
    using that assms(1) bin fill by (auto simp: segment_trees_def less_Suc_eq split: if_splits)
qed

lemma foldl_segment_end:
  "foldl segment_end e segs =
     (case filter used_segment segs of [] \<Rightarrow> e | us \<Rightarrow> seg_vaddr (last us) + page_up (seg_vsize (last us)))"
proof (induction segs rule: rev_induct)
  case (snoc seg segs)
  then show ?case by (auto simp: segment_end_def split: list.splits)
qed simp

text \<open>C16. The memory regions generated for the ELF binary: each loadable segment with sections gets
  regions that do not overlap and cover exactly the pages of the segment, from its virtual
  address to the page-rounded end of its file content or memory size, whichever is larger; other
  segments get none; the regions are appended in order to the \<^verbatim>\<open>provides\<close> section and nothing else
  changes.  The returned end address is the end of the last such segment, or 0.\<close>

theorem elf_memory_covers_segments:
  assumes "etree E nodes" and "ok_world E nodes w" and "p \<in> nodes (w_heap w)"
    and "x_xpath E (w_heap w) spec ''/component/provides'' = Inr (p # r)"
    and "\<And>seg. seg \<in> set (elf_segments binary) \<Longrightarrow> used_segment seg \<Longrightarrow> 0 < seg_vaddr seg \<and> 0 \<le> seg_psize seg"
  shows "\<exists>tss. length tss = length (elf_segments binary)
     \<and> runs (add_elf_memory E cn spec binary filename) w (\<lambda>end_addr w'. wadds E nodes w p (concat tss) w'
          \<and> end_addr = (case filter used_segment (elf_segments binary) of
                           [] \<Rightarrow> 0 | us \<Rightarrow> seg_vaddr (last us) + page_up (seg_vsize (last us))))
     \<and> (\<forall>i < length tss. let seg = elf_segments binary ! i in
          (if used_segment seg
           then (\<Union>t \<in> set (tss ! i). tree_interval t)
                  = {seg_vaddr seg..<seg_vaddr seg + max (page_up (seg_psize seg)) (page_up (seg_vsize seg))}
           else tss ! i = [])
          \<and> (\<forall>j k. j < k \<and> k < length (tss ! i) \<longrightarrow> tree_interval (tss ! i ! j) \<inter> tree_interval (tss ! i ! k) = {}))"
proof -
  let ?g = "segment_trees filename (MAX_NAME_LEN - (int (length cn) + 1))"
  have run: "runs (add_elf_memory E cn spec binary filename) w (\<lambda>end_addr w'. wadds E nodes w p (concat (map ?g (elf_segments binary))) w'
          \<and> end_addr = (case filter used_segment (elf_segments binary) of
                           [] \<Rightarrow> 0 | us \<Rightarrow> seg_vaddr (last us) + page_up (seg_vsize (last us))))"
    by (rule runs_mono [OF etree.runs_add_elf_memory [OF assms(1-4)]]) (simp add: foldl_segment_end)
  have each: "(if used_segment seg then (\<Union>t \<in> set (?g seg). tree_interval t)
                  = {seg_vaddr seg..<seg_vaddr seg + max (page_up (seg_psize seg)) (page_up (seg_vsize seg))} else ?g seg = [])
      \<and> (\<forall>j k. j < k \<and> k < length (?g seg) \<longrightarrow> tree_interval (?g seg ! j) \<inter> tree_interval (?g seg ! k) = {})"
    if "seg \<in> set (elf_segments binary)" for seg
  proof (cases "used_segment seg")
    case True
    then show ?thesis using segment_intervals [OF True] assms(5) [OF that True] by auto
  qed (simp add: segment_trees_def)
  show ?thesis
    using run each by (intro exI [of _ "map ?g (elf_segments binary)"]) (auto simp: Let_def simp del: Int_iff)
qed

definition demo_segment :: elf_segment where
  "demo_segment = \<lparr>seg_load = True, seg_sections = [\<lparr>sec_name = ''.data'', sec_offset = 0x3000\<rparr>, \<lparr>sec_name = ''.bss'', sec_offset = 0x3800\<rparr>],
     seg_w = True, seg_x = False, seg_vaddr = 0x103000, seg_psize = 0x800, seg_vsize = 0x2400, seg_offset = 0x3000\<rparr>"

definition demo_binary :: elf_binary where
  "demo_binary = \<lparr>elf_entry = 0x101000, elf_segments = [demo_segment],
     elf_get_section = (\<lambda>n. if n = ''.interp'' then Some \<lparr>sec_name = n, sec_offset = 1\<rparr>
                            else if n = ''.text'' then Some \<lparr>sec_name = n, sec_offset = 3\<rparr> else None)\<rparr>"

abbreviation one_lxml :: "(rheap, nat) lxml" where
  "one_lxml \<equiv> ref_lxml (\<lambda>_. None) (\<lambda>f n q. Inr [0])"

abbreviation one_world :: "rheap world" where
  "one_world \<equiv> flat_world 1 (\<lambda>_. (''provides'', []))"

theorem elf_memory_covers_segments_witness:
  "\<exists>tss. runs (add_elf_memory one_lxml ''hello'' 0 demo_binary ''hello.muen'') one_world (\<lambda>end_addr w'.
          wadds one_lxml ref_nodes one_world 0 (concat tss) w' \<and> end_addr = 0x106000)
     \<and> (\<Union>t \<in> set (tss ! 0). tree_interval t) = {0x103000..<0x106000}"
proof -
  have up: "page_up 0x2400 = 0x3000" "page_up 0x800 = 0x1000" by (simp_all add: page_up_def)
  have used: "used_segment demo_segment" by (simp add: used_segment_def demo_segment_def)
  have sizes: "seg_vaddr demo_segment = 0x103000" "seg_psize demo_segment = 0x800" "seg_vsize demo_segment = 0x2400"
    by (simp_all add: demo_segment_def)
  have "\<exists>tss. length tss = length (elf_segments demo_binary)
     \<and> runs (add_elf_memory one_lxml ''hello'' 0 demo_binary ''hello.muen'') one_world (\<lambda>end_addr w'. wadds one_lxml ref_nodes one_world 0 (concat tss) w'
          \<and> end_addr = (case filter used_segment (elf_segments demo_binary) of
                           [] \<Rightarrow> 0 | us \<Rightarrow> seg_vaddr (last us) + page_up (seg_vsize (last us))))
     \<and> (\<forall>i < length tss. let seg = elf_segments demo_binary ! i in
          (if used_segment seg
           then (\<Union>t \<in> set (tss ! i). tree_interval t)
                  = {seg_vaddr seg..<seg_vaddr seg + max (page_up (seg_psize seg)) (page_up (seg_vsize seg))}
           else tss ! i = [])
          \<and> (\<forall>j k. j < k \<and> k < length (tss ! i) \<longrightarrow> tree_interval (tss ! i ! j) \<inter> tree_interval (tss ! i ! k) = {}))"
    by (rule elf_memory_covers_segments [OF ref.etree_axioms]) (auto simp: demo_binary_def demo_segment_def)
  then show ?thesis
    using used by (auto simp: demo_binary_def Let_def sizes up)
qed

subsection \<open>Names\<close>

lemma slice_one: "m \<le> 1 \<Longrightarrow> slice_to (m - 2) (replicate (nat (3 - m)) c) = [c]"
proof -
  assume "m \<le> 1"
  moreover from this have "nat (3 - m) = Suc (nat (2 - m))" by arith
  ultimately show ?thesis by (simp add: slice_to_def)
qed

lemma region_name_dots:
  assumes "seg_sections seg = [sec]" and "m < int (length (sec_name sec))" and "slice_to (m - 2) (sec_name sec) = ''a''"
  shows "region_name m seg = ''a..''"
proof -
  have "\<not> contains ''.text'' ''a..''" by code_simp
  then show ?thesis using assms by (simp add: region_name_def Let_def)
qed

lemma region_name_length:
  assumes m: "2 \<le> m"
  shows "int (length (region_name m seg)) \<le> m"
proof -
  let ?n = "join_str ''+'' (map sec_name (seg_sections seg))"
  let ?name = "if int (length ?n) > m then slice_to (m - 2) ?n @ ''..'' else ?n"
  have name: "int (length ?name) \<le> m" using m by (auto simp: slice_to_def)
  show ?thesis
  proof (cases "contains ''.text'' ?name")
    case True
    then have "4 \<le> m" using contains_length [OF True] name by simp
    moreover have "region_name m seg = ''text''" using True by (simp add: region_name_def Let_def)
    ultimately show ?thesis by simp
  next
    case False
    then have "region_name m seg = ?name" by (simp add: region_name_def Let_def)
    then show ?thesis using name by simp
  qed
qed

text \<open>C20. The physical name of a binary region is the component name, a bar and the region name.  The
  truncation keeps it within 63 characters for every segment exactly when the component name has
  at most 60 characters; beyond that the slice bound of the truncation is negative.\<close>

theorem region_name_fits_iff:
  "(\<forall>seg. int (length (comp_name @ ''|'' @ region_name (MAX_NAME_LEN - (int (length comp_name) + 1)) seg)) \<le> MAX_NAME_LEN)
     \<longleftrightarrow> length comp_name \<le> 60"
  (is "(\<forall>seg. ?fits seg) \<longleftrightarrow> _")
proof
  let ?m = "MAX_NAME_LEN - (int (length comp_name) + 1)"
  show "\<forall>seg. ?fits seg" if "length comp_name \<le> 60"
  proof
    show "?fits seg" for seg using region_name_length [of ?m seg] that by (simp add: MAX_NAME_LEN_def)
  qed
  show "length comp_name \<le> 60" if "\<forall>seg. ?fits seg"
  proof (rule ccontr)
    assume "\<not> length comp_name \<le> 60"
    then have m: "?m \<le> 1" by (simp add: MAX_NAME_LEN_def)
    let ?n = "replicate (nat (3 - ?m)) CHR ''a''"
    let ?seg = "demo_segment\<lparr>seg_sections := [\<lparr>sec_name = ?n, sec_offset = 0\<rparr>]\<rparr>"
    have "region_name ?m ?seg = ''a..''"
      by (rule region_name_dots [of _ "\<lparr>sec_name = ?n, sec_offset = 0\<rparr>"]) (use m slice_one [OF m] in simp_all)
    then show False using that [THEN spec, of ?seg] m by simp
  qed
qed

lemma region_name_full:
  assumes "seg_sections seg = [\<lparr>sec_name = replicate (nat m) CHR ''a'', sec_offset = 0\<rparr>]" and "0 \<le> m"
  shows "region_name m seg = replicate (nat m) CHR ''a''"
proof -
  have "\<not> contains ''.text'' (replicate (nat m) CHR ''a'')"
    by (auto simp: contains_sublist dest: set_mono_sublist)
  then show ?thesis using assms by (simp add: region_name_def Let_def)
qed

lemma segment_tree_names:
  assumes "t \<in> set (segment_trees fn m seg)" and "2 \<le> m"
  shows "\<exists>name. map_of (xt_attrib t) ''logical'' = Some name \<and> int (length name) \<le> m + 5"
  using assms region_name_length [OF assms(2), of seg] by (auto simp: segment_trees_def binary_tree_def fill_tree_def split: if_splits)

lemma full_fill_name:
  assumes "2 \<le> m"
  obtains seg t name where "t \<in> set (segment_trees fn m seg)" "map_of (xt_attrib t) ''logical'' = Some name" "int (length name) = m + 5"
proof -
  let ?seg = "demo_segment\<lparr>seg_sections := [\<lparr>sec_name = replicate (nat m) CHR ''a'', sec_offset = 0\<rparr>]\<rparr>"
  have "region_name m ?seg = replicate (nat m) CHR ''a''" by (rule region_name_full) (use assms in simp_all)
  then have "map_of (xt_attrib (fill_tree m ?seg)) ''logical'' = Some (replicate (nat m) CHR ''a'' @ ''|fill'')"
    by (simp add: fill_tree_def)
  moreover have "fill_tree m ?seg \<in> set (segment_trees fn m ?seg)"
    by (simp add: segment_trees_def used_segment_def demo_segment_def page_up_def)
  ultimately show ?thesis using assms that by simp
qed

text \<open>C21. The region filled with zeros behind a segment gets the suffix \<^verbatim>\<open>|fill\<close> after the truncation: for
  every component name of at most 60 characters the physical names of all regions of a binary have at most 68
  characters, and there is a binary with a region whose name has that many, 5 more than the maximum.\<close>

theorem fill_name_exceeds:
  assumes "etree E nodes" and "ok_world E nodes w" and "p \<in> nodes (w_heap w)"
    and "x_xpath E (w_heap w) spec ''/component/provides'' = Inr (p # r)" and "length comp_name \<le> 60"
  shows "(\<forall>binary. runs (add_elf_memory E comp_name spec binary filename) w (\<lambda>_ w'. \<exists>ts. wadds E nodes w p ts w'
            \<and> (\<forall>t \<in> set ts. \<exists>name. map_of (xt_attrib t) ''logical'' = Some name \<and> length (comp_name @ ''|'' @ name) \<le> 68)))
     \<and> (\<exists>binary. runs (add_elf_memory E comp_name spec binary filename) w (\<lambda>_ w'. \<exists>ts. wadds E nodes w p ts w'
            \<and> (\<exists>t \<in> set ts. \<exists>name. map_of (xt_attrib t) ''logical'' = Some name \<and> length (comp_name @ ''|'' @ name) = 68)))"
proof (intro conjI allI)
  let ?m = "MAX_NAME_LEN - (int (length comp_name) + 1)"
  note run = etree.runs_add_elf_memory [OF assms(1-4), where cn = comp_name and filename = filename]
  have m: "2 \<le> ?m" "?m = 62 - int (length comp_name)" using assms(5) by (simp_all add: MAX_NAME_LEN_def)
  have upto: "length (comp_name @ ''|'' @ name) \<le> 68" if "int (length name) \<le> ?m + 5" for name :: string
    using that m(2) by simp
  show "runs (add_elf_memory E comp_name spec binary filename) w (\<lambda>_ w'. \<exists>ts. wadds E nodes w p ts w'
      \<and> (\<forall>t \<in> set ts. \<exists>name. map_of (xt_attrib t) ''logical'' = Some name \<and> length (comp_name @ ''|'' @ name) \<le> 68))" for binary
  proof (rule runs_mono [OF run])
    fix e w' assume a: "e = foldl segment_end 0 (elf_segments binary)
      \<and> wadds E nodes w p (concat (map (segment_trees filename ?m) (elf_segments binary))) w'"
    have "\<exists>name. map_of (xt_attrib t) ''logical'' = Some name \<and> length (comp_name @ ''|'' @ name) \<le> 68"
      if "t \<in> set (concat (map (segment_trees filename ?m) (elf_segments binary)))" for t
      using that segment_tree_names [OF _ m(1), of t filename] upto by fastforce
    then show "\<exists>ts. wadds E nodes w p ts w'
      \<and> (\<forall>t \<in> set ts. \<exists>name. map_of (xt_attrib t) ''logical'' = Some name \<and> length (comp_name @ ''|'' @ name) \<le> 68)"
      using a by blast
  qed
  obtain seg t name where t: "t \<in> set (segment_trees filename ?m seg)" "map_of (xt_attrib t) ''logical'' = Some name" "int (length name) = ?m + 5"
    using full_fill_name [OF m(1)] by blast
  moreover from t(3) have "length (comp_name @ ''|'' @ name) = 68" using m(2) by simp
  ultimately have "\<exists>t \<in> set (concat (map (segment_trees filename ?m) (elf_segments (demo_binary\<lparr>elf_segments := [seg]\<rparr>)))).
      \<exists>name. map_of (xt_attrib t) ''logical'' = Some name \<and> length (comp_name @ ''|'' @ name) = 68"
    by force
  then have "runs (add_elf_memory E comp_name spec (demo_binary\<lparr>elf_segments := [seg]\<rparr>) filename) w (\<lambda>_ w'. \<exists>ts. wadds E nodes w p ts w'
      \<and> (\<exists>t \<in> set ts. \<exists>name. map_of (xt_attrib t) ''logical'' = Some name \<and> length (comp_name @ ''|'' @ name) = 68))"
    by (intro runs_mono [OF run [where binary = "demo_binary\<lparr>elf_segments := [seg]\<rparr>"]] exI conjI) (elim conjE, assumption)+
  then show "\<exists>binary. runs (add_elf_memory E comp_name spec binary filename) w (\<lambda>_ w'. \<exists>ts. wadds E nodes w p ts w'
      \<and> (\<exists>t \<in> set ts. \<exists>name. map_of (xt_attrib t) ''logical'' = Some name \<and> length (comp_name @ ''|'' @ name) = 68))"
    by (rule exI [of _ "demo_binary\<lparr>elf_segments := [seg]\<rparr>"])
qed

theorem fill_name_exceeds_witness:
  "\<exists>binary. runs (add_elf_memory one_lxml ''hello'' 0 binary ''hello.muen'') one_world (\<lambda>_ w'. \<exists>ts. wadds one_lxml ref_nodes one_world 0 ts w'
     \<and> (\<exists>t \<in> set ts. \<exists>name. map_of (xt_attrib t) ''logical'' = Some name \<and> length (''hello'' @ ''|'' @ name) = 68))"
  by (rule fill_name_exceeds [THEN conjunct2, OF ref.etree_axioms]) auto

subsection \<open>The copy of the binary\<close>

lemma overwrite_nth:
  assumes "off + length bs \<le> length c"
  shows "length (overwrite off bs c) = length c"
    and "j < length c \<Longrightarrow> overwrite off bs c ! j = (if off \<le> j \<and> j < off + length bs then bs ! (j - off) else c ! j)"
  using assms by (auto simp: overwrite_def nth_append)

text \<open>C22. The copy of the binary is patched with NOP instructions from the start of the \<^verbatim>\<open>.interp\<close> section up
  to the start of \<^verbatim>\<open>.text\<close>, its length and every other byte are unchanged, and no other file
  changes.\<close>

theorem patch_binary_correct:
  assumes "elf_get_section binary ''.text'' = Some t" and "elf_get_section binary ''.interp'' = Some i"
    and "0 \<le> sec_offset i" and "sec_offset i \<le> sec_offset t" and "sec_offset t \<le> int (length c)"
    and "w_files w path = Some c" and "writable_path w path"
  shows "runs (patch_binary path binary) w (\<lambda>_ w'. \<exists>c'. w_files w' = (w_files w)(path := Some c') \<and> length c' = length c
     \<and> (\<forall>j < length c. c' ! j = (if sec_offset i \<le> int j \<and> int j < sec_offset t then NOP else c ! j)))"
proof -
  let ?off = "nat (sec_offset i)" and ?bs = "replicate (nat (sec_offset t - sec_offset i)) NOP"
  have fits: "?off + length ?bs \<le> length c" using assms(3-5) by simp
  have byte: "overwrite ?off ?bs c ! j = (if sec_offset i \<le> int j \<and> int j < sec_offset t then NOP else c ! j)" if "j < length c" for j
    using overwrite_nth(2) [OF fits that] assms(3,4) that by (auto simp: nat_less_iff nat_le_iff)
  have "writable_path (w\<lparr>w_out := out\<rparr>) path" for out using assms(7) by (simp add: writable_path_def)
  then have "runs (patch_binary path binary) w (\<lambda>_ w'. w_files w' = (w_files w)(path := Some (overwrite ?off ?bs c)))"
    using assms(1-3,6) by (auto simp: patch_binary_def wp Let_def intro!: runs_print)
  then show ?thesis
    by (rule runs_mono) (auto simp: overwrite_nth(1) [OF fits] byte)
qed

definition demo_fs :: "rheap world" where
  "demo_fs = (flat_world 0 (\<lambda>_. ([], [])))\<lparr>w_files := (\<lambda>p. if p = ''hello.muen'' then Some ''ELF binary'' else None)\<rparr>"

theorem patch_binary_correct_witness:
  "runs (patch_binary ''hello.muen'' demo_binary) demo_fs (\<lambda>_ w'. \<exists>c'. w_files w' = (w_files demo_fs)(''hello.muen'' := Some c')
     \<and> length c' = length ''ELF binary''
     \<and> (\<forall>j < length ''ELF binary''. c' ! j = (if 1 \<le> int j \<and> int j < 3 then NOP else ''ELF binary'' ! j)))"
proof -
  have "writable_path demo_fs ''hello.muen''"
  proof -
    have "dirname ''hello.muen'' = []" by code_simp
    then show ?thesis by (simp add: writable_path_def demo_fs_def flat_world_def)
  qed
  then show ?thesis
    using patch_binary_correct [of demo_binary "\<lparr>sec_name = ''.text'', sec_offset = 3\<rparr>" "\<lparr>sec_name = ''.interp'', sec_offset = 1\<rparr>" "''ELF binary''" demo_fs "''hello.muen''"]
    by (simp add: demo_binary_def demo_fs_def)
qed

subsection \<open>The ABI check\<close>

text \<open>C23. The check of the ABI information accepts a JSON object exactly when it is of the type
  \<^verbatim>\<open>solo5.abi\<close> for the target \<^verbatim>\<open>muen\<close> in version 3 (or the float that is equal to it); otherwise the script stops with an error.\<close>

theorem validate_solo5_abi_iff:
  assumes "json_loads V raw = Inr (JObj d)"
  shows "(\<exists>w'. validate_solo5_abi V raw w = (Inr (), w')) \<longleftrightarrow>
     map_of d ''type'' = Some (JStr ''solo5.abi'') \<and> map_of d ''target'' = Some (JStr ''muen'')
     \<and> (\<exists>v. map_of d ''version'' = Some v \<and> (v = JInt 3 \<or> (\<exists>t. v = JFloat t (Some 3))))"
proof -
  have get: "runs (jget (JObj d) k) v Q \<longleftrightarrow> (\<exists>x. map_of d k = Some x \<and> Q x v)" for k v and Q :: "json \<Rightarrow> 'a world \<Rightarrow> bool"
    by (auto simp: jget_def wp split: option.splits)
  have three: "json_eq_int v 3 \<longleftrightarrow> v = JInt 3 \<or> (\<exists>t. v = JFloat t (Some 3))" for v
    by (cases v) (auto simp: json_eq_int_def)
  have jstr_False: "\<not> runs (jstr x) v (\<lambda>_ _. False)" for x and v :: "'a world" by (simp add: runs_def)
  have "runs (validate_solo5_abi V raw) w (\<lambda>_ _. True) \<longleftrightarrow>
     map_of d ''type'' = Some (JStr ''solo5.abi'') \<and> map_of d ''target'' = Some (JStr ''muen'')
       \<and> (\<exists>v. map_of d ''version'' = Some v \<and> (v = JInt 3 \<or> (\<exists>t. v = JFloat t (Some 3))))"
    using assms three by (auto simp: validate_solo5_abi_def wp get runs_print_iff jstr_False ABI_TARGET_def ABI_VERSION_def split: if_splits)
  then show ?thesis by (auto simp: runs_def)
qed

definition demo_env :: solo5_env where
  "demo_env = \<lparr>lief_parse = (\<lambda>_. Some demo_binary), check_output = (\<lambda>_. Some []),
     json_loads = (\<lambda>_. Inr (JObj [(''type'', JStr ''solo5.abi''), (''target'', JStr ''hvt''), (''version'', JInt 3)]))\<rparr>"

theorem validate_solo5_abi_iff_witness:
  "\<not> (\<exists>w'. validate_solo5_abi demo_env [] demo_fs = (Inr (), w'))"
  using validate_solo5_abi_iff [of demo_env "[]" "[(''type'', JStr ''solo5.abi''), (''target'', JStr ''hvt''), (''version'', JInt 3)]" demo_fs]
  by (simp add: demo_env_def)

end
