(* ===== verification/Solo5_Channels.thy ===== *)
theory Solo5_Channels
  imports Solo5_Props
begin

text \<open>
  Properties of the part of \<^verbatim>\<open>tools/scripts/solo5-muen-gencspec.py\<close> that places the RAM region
  behind the binary and the channels of the network devices behind the RAM.
\<close>

subsection \<open>RAM\<close>

definition provides_path :: "xstep list" where
  "provides_path = [(''component'', []), (''provides'', [])]"

definition rsp_path :: "xstep list" where
  "rsp_path = map (\<lambda>t. (t, [])) [''component'', ''requires'', ''vcpu'', ''registers'', ''gpr'', ''rsp'']"

lemma render_ram_paths:
  "render_path provides_path = ''/component/provides''"
  "render_path rsp_path = ''/component/requires/vcpu/registers/gpr/rsp''"
  by (simp_all add: render_path_def render_step_def provides_path_def rsp_path_def)

definition ram_tree :: "int \<Rightarrow> int \<Rightarrow> xtree" where
  "ram_tree a sz =
     XT ''memory'' [(''logical'', ''ram''), (''virtualAddress'', int_to_ada_hex_int a), (''size'', int_to_ada_hex_int sz),
                    (''executable'', ''false''), (''writable'', ''true''), (''type'', ''subject'')] None []"

context etree
begin

lemma runs_settext:
  assumes "n \<in> nodes (w_heap w)"
    and "\<And>w'. x_node E (w_heap w') = (x_node E (w_heap w))(n := (x_node E (w_heap w) n)\<lparr>n_text := Some s\<rparr>) \<Longrightarrow>
           nodes (w_heap w') = nodes (w_heap w) \<Longrightarrow> same_fs w w' \<Longrightarrow> Q () w'"
  shows "runs (xsettext E n s) w Q"
  using assms by (simp add: xsettext_def wp settext_view settext_nodes)

lemma runs_set_rsp:
  assumes "q \<in> nodes (w_heap w)" and "x_xpath E (w_heap w) spec ''/component/requires/vcpu/registers/gpr/rsp'' = Inr (q # s)"
  shows "runs (set_rsp E spec a) w (\<lambda>_ w'. same_fs w w' \<and> x_node E (w_heap w') =
     (x_node E (w_heap w))(q := (x_node E (w_heap w) q)\<lparr>n_text := Some (int_to_ada_hex_int a)\<rparr>))"
  using assms by (auto simp: set_rsp_def wp intro!: runs_settext runs_print)

lemma runs_add_ram_memory:
  assumes w: "ok_world E nodes w" and root: "spec \<in> nodes (w_heap w)" "n_parent (x_node E (w_heap w) spec) = None"
    and law: "xpath_law E provides_path" "xpath_law E rsp_path"
    and p: "xabs (x_node E (w_heap w)) spec provides_path = p # r"
    and rsp: "xabs (x_node E (w_heap w)) spec rsp_path = q # s"
  shows "runs (add_ram_memory E spec spec binary_end mb) w (\<lambda>e w'. e = binary_end + mb * 2 ^ 20
     \<and> (\<exists>w1. wadds E nodes w p [ram_tree binary_end (mb * 2 ^ 20)] w1 \<and> same_fs w1 w'
           \<and> x_node E (w_heap w') = (x_node E (w_heap w1))(q := (x_node E (w_heap w) q)
               \<lparr>n_text := Some (int_to_ada_hex_int (binary_end + mb * 2 ^ 20 - 8))\<rparr>)))"
proof -
  have pm: "p \<in> nodes (w_heap w)" "n_tag (x_node E (w_heap w) p) = ''provides''"
    using xabs_head_mem [OF w root(1) p] by (simp_all add: provides_path_def)
  have qm: "q \<in> nodes (w_heap w)" "n_tag (x_node E (w_heap w) q) = ''rsp''"
    using xabs_head_mem [OF w root(1) rsp] by (simp_all add: rsp_path_def)
  have first: "x_xpath E (w_heap w) spec ''/component/provides'' = Inr (p # r)"
    using xpath_law_query [OF law(1) root(2)] p by (simp add: render_ram_paths)
  have second: "runs (set_rsp E spec a) w1 (\<lambda>_ w'. same_fs w1 w' \<and> x_node E (w_heap w') =
     (x_node E (w_heap w1))(q := (x_node E (w_heap w) q)\<lparr>n_text := Some (int_to_ada_hex_int a)\<rparr>))"
    if g: "wadds E nodes w p [ram_tree binary_end (mb * 2 ^ 20)] w1" for w1 a
  proof -
    have "n_parent (x_node E (w_heap w1) spec) = None"
      using g root by (cases "spec = p") (auto simp: wgrows_def grows_def)
    moreover have "xabs (x_node E (w_heap w1)) spec rsp_path = q # s"
      using xabs_wgrows_tags [OF g w root(1), of rsp_path] rsp by (simp add: ram_tree_def rsp_path_def)
    ultimately have "x_xpath E (w_heap w1) spec ''/component/requires/vcpu/registers/gpr/rsp'' = Inr (q # s)"
      using xpath_law_query [OF law(2), of w1 spec] by (simp add: render_ram_paths)
    moreover have "x_node E (w_heap w1) q = x_node E (w_heap w) q"
      by (rule wgrows_other [OF g qm(1)]) (use pm qm in auto)
    ultimately show ?thesis using runs_set_rsp [OF wgrows_mem [OF g qm(1)], of spec s a] by simp
  qed
  have "runs (set_rsp E spec (binary_end + mb * 2 ^ 20 - 8)) w1 (\<lambda>_ w'. \<exists>w1. wadds E nodes w p [ram_tree binary_end (mb * 2 ^ 20)] w1
       \<and> same_fs w1 w' \<and> x_node E (w_heap w') = (x_node E (w_heap w1))(q := (x_node E (w_heap w) q)
               \<lparr>n_text := Some (int_to_ada_hex_int (binary_end + mb * 2 ^ 20 - 8))\<rparr>))"
    if "wadds E nodes w p [ram_tree binary_end (mb * 2 ^ 20)] w1" for w1
    by (rule runs_mono [OF second [OF that]], rule exI [of _ w1]) (use that in auto)
  then show ?thesis
    using w pm(1) unfolding add_ram_memory_def
    by (auto simp: wp first Let_def ram_tree_def intro!: runs_print
        runs_subelement [where as' = "xt_attrib (ram_tree binary_end (mb * 2 ^ 20))"])
qed

end

text \<open>C17. The RAM region starts where the binary ends and has the requested size; the stack pointer is
  set to the last 8-byte slot of it, and the address behind it is returned, where the channels
  start.  Nothing else of the specification changes.\<close>

theorem ram_memory_placed:
  assumes "etree E nodes" and "ok_world E nodes w" and "spec \<in> nodes (w_heap w)" and "n_parent (x_node E (w_heap w) spec) = None"
    and "xpath_law E provides_path" and "xpath_law E rsp_path"
    and "xabs (x_node E (w_heap w)) spec provides_path = p # r" and "xabs (x_node E (w_heap w)) spec rsp_path = q # s"
    and "0 < binary_end" and "0 < mb"
  shows "runs (add_ram_memory E spec spec binary_end mb) w (\<lambda>e w'. e = binary_end + mb * 2 ^ 20
     \<and> (\<exists>w1 t rsp. wadds E nodes w p [t] w1 \<and> tree_interval t = {binary_end..<e} \<and> ada_value (Some rsp) = Some (e - 8)
           \<and> x_node E (w_heap w') = (x_node E (w_heap w1))(q := (x_node E (w_heap w) q)\<lparr>n_text := Some rsp\<rparr>)
           \<and> same_fs w1 w'))"
proof -
  have int: "tree_interval (ram_tree binary_end (mb * 2 ^ 20)) = {binary_end..<binary_end + mb * 2 ^ 20}"
    using assms(9,10) by (simp add: tree_interval_def ram_tree_def ada_value_hex)
  have rsp: "ada_value (Some (int_to_ada_hex_int (binary_end + mb * 2 ^ 20 - 8))) = Some (binary_end + mb * 2 ^ 20 - 8)"
    using assms(9,10) by (intro ada_value_hex) simp
  show ?thesis
    by (rule runs_mono [OF etree.runs_add_ram_memory [OF assms(1-8)]]) (use int rsp in blast)
qed

definition demo_spec :: "nat xnode list" where
  "demo_spec =
     [nd ''component'' [(''name'', ''hello'')] [1, 2] None, nd ''provides'' [] [] (Some 0), nd ''requires'' [] [3, 7] (Some 0),
      nd ''vcpu'' [] [4] (Some 2), nd ''registers'' [] [5] (Some 3), nd ''gpr'' [] [6] (Some 4), nd ''rsp'' [] [] (Some 5),
      nd ''devices'' [] [] (Some 2)]"

definition requires_path :: "xstep list" where
  "requires_path = [(''component'', []), (''requires'', [])]"

definition devices_path :: "xstep list" where
  "devices_path = [(''component'', []), (''requires'', []), (''devices'', [])]"

abbreviation demo_spec_lxml :: "(rheap, nat) lxml" where
  "demo_spec_lxml \<equiv> ref_lxml (\<lambda>_. None) (path_query [provides_path, rsp_path, requires_path, devices_path])"

lemmas spec_path_defs = provides_path_def rsp_path_def requires_path_def devices_path_def

lemma demo_spec_laws:
  "xpath_law demo_spec_lxml provides_path" "xpath_law demo_spec_lxml rsp_path"
  "xpath_law demo_spec_lxml requires_path" "xpath_law demo_spec_lxml devices_path"
  by (rule path_query_law; auto simp: spec_path_defs render_path_def render_step_def)+

lemma demo_spec_ok: "table_ok demo_spec"
  by code_simp

lemma demo_spec_paths:
  "xabs (table_view demo_spec) 0 provides_path = [1]" "xabs (table_view demo_spec) 0 rsp_path = [6]"
  "xabs (table_view demo_spec) 0 requires_path = [2]" "xabs (table_view demo_spec) 0 devices_path = [7]"
  by code_simp+

theorem ram_memory_placed_witness:
  "runs (add_ram_memory demo_spec_lxml 0 0 0x106000 64) (table_world demo_spec) (\<lambda>e w'. e = 0x106000 + 64 * 2 ^ 20
     \<and> (\<exists>w1 t rsp. wadds demo_spec_lxml ref_nodes (table_world demo_spec) 1 [t] w1 \<and> tree_interval t = {0x106000..<e} \<and> ada_value (Some rsp) = Some (e - 8)
           \<and> x_node demo_spec_lxml (w_heap w') = (x_node demo_spec_lxml (w_heap w1))(6 := (x_node demo_spec_lxml (w_heap (table_world demo_spec)) 6)\<lparr>n_text := Some rsp\<rparr>)
           \<and> same_fs w1 w'))"
  by (rule ram_memory_placed [OF ref.etree_axioms ok_table_world [OF demo_spec_ok] _ _ demo_spec_laws(1,2)])
    (simp_all add: demo_spec_paths, simp_all add: demo_spec_def table_view_def nd_def)

subsection \<open>Channels\<close>

text \<open>The pair of channels of one device.\<close>

definition chan_trees :: "int \<Rightarrow> string \<Rightarrow> xtree list" where
  "chan_trees a name =
     [XT ''reader'' [(''logical'', name @ ''|in''), (''virtualAddress'', int_to_ada_hex_int a), (''size'', int_to_ada_hex_int chan_size)] None [],
      XT ''writer'' [(''logical'', name @ ''|out''), (''virtualAddress'', int_to_ada_hex_int (a + chan_size)), (''size'', int_to_ada_hex_int chan_size)] None []]"

text \<open>A device of the manifest with its type and name.\<close>

definition dev_fields :: "json \<Rightarrow> string \<Rightarrow> string \<Rightarrow> bool" where
  "dev_fields d t n \<longleftrightarrow> (\<exists>m. d = JObj m \<and> map_of m ''type'' = Some (JStr t) \<and> map_of m ''name'' = Some (JStr n))"

lemma runs_dev_fields:
  assumes "dev_fields d t n"
  shows "runs (jget d ''type'') w Q \<longleftrightarrow> Q (JStr t) w" and "runs (jget d ''name'') w Q \<longleftrightarrow> Q (JStr n) w"
  using assms by (auto simp: dev_fields_def jget_def wp)

lemma runs_jstr [wp]: "runs (jstr (JStr s)) w Q \<longleftrightarrow> Q s w"
  by (simp add: jstr_def wp)

text \<open>The new \<^verbatim>\<open>channels\<close> section below \<open>req\<close>: it is the last child, or stands before the devices section
  \<open>ds\<close> found there, which is moved to the end; nothing else changed.\<close>

definition section_added ::
  "('h, 'n) lxml \<Rightarrow> ('h \<Rightarrow> 'n set) \<Rightarrow> 'h world \<Rightarrow> 'n \<Rightarrow> 'n list \<Rightarrow> 'n \<Rightarrow> xtree list \<Rightarrow> 'h world \<Rightarrow> bool" where
  "section_added E nodes w req ds c ts w' \<longleftrightarrow>
     ok_world E nodes w' \<and> nodes (w_heap w) \<subseteq> nodes (w_heap w')
     \<and> has_tree (nodes (w_heap w') - nodes (w_heap w)) (x_node E (w_heap w')) c (XT ''channels'' [] None ts)
     \<and> x_node E (w_heap w') req = (x_node E (w_heap w) req)\<lparr>n_children :=
         (let cs = n_children (x_node E (w_heap w) req) in
          case ds of [] \<Rightarrow> cs @ [c] | d # _ \<Rightarrow> removeAll d cs @ [c, d])\<rparr>
     \<and> (\<forall>q \<in> nodes (w_heap w) - {req}. x_node E (w_heap w') q = x_node E (w_heap w) q) \<and> same_fs w w'"

lemma section_added_out [simp]:
  "section_added E nodes w req ds c ts (w'\<lparr>w_out := out\<rparr>) = section_added E nodes w req ds c ts w'"
  by (simp add: section_added_def)

lemma section_added_more:
  assumes s: "section_added E nodes w req ds c ts w1" and a: "wadds E nodes w1 c us w2" and req: "req \<in> nodes (w_heap w)"
  shows "section_added E nodes w req ds c (ts @ us) w2"
proof -
  let ?A = "nodes (w_heap w)" and ?A1 = "nodes (w_heap w1)" and ?f1 = "x_node E (w_heap w1)"
  from s have sub: "?A \<subseteq> ?A1" and tree: "has_tree (?A1 - ?A) ?f1 c (XT ''channels'' [] None ts)"
    by (auto simp: section_added_def)
  then have c: "c \<notin> ?A" by (auto dest: has_tree_root)
  have "has_tree (nodes (w_heap w2) - ?A) (x_node E (w_heap w2)) c (XT ''channels'' [] None (ts @ us))"
    by (rule has_tree_grows [OF tree _ sub]) (use a in \<open>simp add: wgrows_def\<close>)
  moreover have "x_node E (w_heap w2) q = ?f1 q" if "q \<in> ?A" for q
    using wgrows_other [OF a, of q] that c sub by auto
  moreover have "nodes (w_heap w1) \<subseteq> nodes (w_heap w2)" using wgrows_mem [OF a] by auto
  ultimately show ?thesis
    using s a req by (auto simp: section_added_def wgrows_ok wgrows_def intro: same_fs_trans)
qed

lemma detach_reattach:
  assumes wf: "wf_view A f" and d: "n_parent (f d) = Some p" and ne: "d \<noteq> p" and mem: "p \<in> A" "d \<in> A"
  shows "attach_last p d (detach d f) = f(p := (f p)\<lparr>n_children := removeAll d (n_children (f p)) @ [d]\<rparr>)"
    and "wf_view A (attach_last p d (detach d f))"
proof -
  let ?g = "detach d f"
  have wg: "wf_view A ?g" by (rule wf_detach [OF wf])
  have root: "n_parent (?g d) = None" by (simp add: detach_def)
  have other: "removeAll d (n_children (f q)) = n_children (f q)" if "q \<noteq> p" for q
    using that d wf_viewD(4) [OF wf, of d q] by (auto intro: removeAll_id)
  show "attach_last p d ?g = f(p := (f p)\<lparr>n_children := removeAll d (n_children (f p)) @ [d]\<rparr>)"
    using attach_last_root [OF wg root] ne d other by (auto simp: fun_eq_iff detach_def)
  show "wf_view A (attach_last p d ?g)"
    using wf_attach_root [OF wg root] ne mem attach_last_eq [OF wg root] by auto
qed

text \<open>Below a child of the root there is no way back up.\<close>

lemma may_attach_below_root:
  assumes wf: "wf_view A f" and root: "n_parent (f r) = None" and p: "n_parent (f p) = Some r" and d: "d \<noteq> r" "d \<noteq> p"
  shows "may_attach f p d"
proof -
  have up: "(x, y) \<in> child_rel f \<Longrightarrow> n_parent (f y) = Some x" for x y
    using wf_viewD(4) [OF wf] by (auto simp: child_rel_def)
  have top: "x = r" if "(x, r) \<in> (child_rel f)\<^sup>*" for x
    using that by (cases rule: rtranclE) (use root up in fastforce)+
  have "x = p \<or> x = r" if "(x, p) \<in> (child_rel f)\<^sup>*" for x
    using that by (cases rule: rtranclE) (use p up top in fastforce)+
  then show ?thesis using d by (auto simp: may_attach_def)
qed

context etree
begin

lemma runs_channel_appended:
  assumes w: "ok_world E nodes w" and c: "c \<in> nodes (w_heap w)"
    and Q: "\<And>w'. wadds E nodes w c [XT t [(''logical'', l), (''virtualAddress'', int_to_ada_hex_int a), (''size'', int_to_ada_hex_int chan_size)] None []] w' \<Longrightarrow> Q (Inr c) w'"
  shows "runs (bnd (channel_elem E t l a) (\<lambda>r. channels_append E (Inr c) r)) w Q"
  unfolding runs_bnd channel_elem_def channels_append_def
  by (auto simp: wp w intro!: runs_element runs_append_built [OF _ c] Q)

lemma runs_add_channel:
  assumes w: "ok_world E nodes w" and c: "c \<in> nodes (w_heap w)"
  shows "runs (add_channel E name a (Inr c)) w (\<lambda>r w'. r = (a + 2 * chan_size, Inr c) \<and> wadds E nodes w c (chan_trees a name) w')"
proof -
  note app = runs_channel_appended [unfolded runs_bnd]
  show ?thesis
    unfolding add_channel_def runs_bnd runs_Let
    by (auto simp: wp w c intro!: runs_print app)
      (auto simp: chan_trees_def dest: wadds_trans intro: wgrows_ok wgrows_mem [where w = w and q = c] c)
qed

lemma runs_move_devices:
  assumes w1: "section_added E nodes w req [] c [] w1" and w: "ok_world E nodes w"
    and root: "n_parent (x_node E (w_heap w) r) = None" "n_parent (x_node E (w_heap w) req) = Some r"
    and mem: "req \<in> nodes (w_heap w)" "r \<in> nodes (w_heap w)" and d: "d \<in> set (n_children (x_node E (w_heap w) req))"
  shows "runs (seq (xremove E req d) (xappend E req d)) w1 (\<lambda>_. section_added E nodes w req (d # ds) c [])"
proof -
  let ?f = "x_node E (w_heap w)" and ?f1 = "x_node E (w_heap w1)" and ?A1 = "nodes (w_heap w1)"
  let ?h = "x_remove E req d (w_heap w1)"
  have wf: "wf_view (nodes (w_heap w)) ?f" "wf_view ?A1 ?f1" using w w1 by (auto simp: ok_world_def section_added_def)
  have dp: "n_parent (?f d) = Some req" and dA: "d \<in> nodes (w_heap w)"
    using d wf_viewD(4) [OF wf(1)] wf_viewD(2) [OF wf(1), of req] by auto
  have ne: "d \<noteq> req" "d \<noteq> r" "r \<noteq> req" using dp root by auto
  from w1 have sub: "nodes (w_heap w) \<subseteq> ?A1" and req1: "?f1 req = (?f req)\<lparr>n_children := n_children (?f req) @ [c]\<rparr>"
    and same: "\<And>q. q \<in> nodes (w_heap w) \<Longrightarrow> q \<noteq> req \<Longrightarrow> ?f1 q = ?f q"
    and c: "has_tree (?A1 - nodes (w_heap w)) ?f1 c (XT ''channels'' [] None [])"
    by (auto simp: section_added_def)
  have cA: "c \<notin> nodes (w_heap w)" "c \<noteq> d" using c dA by (auto dest: has_tree_root)
  have mem1: "req \<in> ?A1" "d \<in> ?A1" using sub mem dA by auto
  have d1: "d \<in> set (n_children (?f1 req))" "n_parent (?f1 d) = Some req"
    using d req1 same [OF dA ne(1)] dp by auto
  have rm: "x_node E ?h = detach d ?f1" "nodes ?h = ?A1"
    using remove_view [OF mem1(1) d1(1)] remove_nodes [OF mem1(1)] by simp_all
  have "may_attach (detach d ?f1) req d"
    by (rule may_attach_below_root [where r = r, OF wf_detach [OF wf(2)]])
      (use same [OF mem(2) ne(3)] req1 root ne in \<open>auto simp: detach_def\<close>)
  then have view: "x_node E (x_append E req d ?h) = attach_last req d (detach d ?f1)"
    and nodes: "nodes (x_append E req d ?h) = ?A1"
    using append_view [of req ?h d] append_nodes [of req ?h d] rm mem1 by simp_all
  note re = detach_reattach [OF wf(2) d1(2) ne(1) mem1]
  have "section_added E nodes w req (d # ds) c [] (w1\<lparr>w_heap := x_append E req d ?h\<rparr>)"
    using w1 re(2) cA c req1 has_tree_frame(1) [of "?A1 - nodes (w_heap w)" "?A1 - nodes (w_heap w)" _ ?f1 c] mem(1)
    by (auto simp: section_added_def view nodes re(1) ok_world_def Let_def)
  then show ?thesis using d1(1) by (simp add: xremove_def xappend_def wp)
qed

lemma runs_create_channels:
  assumes w: "ok_world E nodes w" and root: "spec \<in> nodes (w_heap w)" "n_parent (x_node E (w_heap w) spec) = None"
    and law: "xpath_law E requires_path" "xpath_law E devices_path"
    and req: "xabs (x_node E (w_heap w)) spec requires_path = [req]"
    and ds: "xabs (x_node E (w_heap w)) spec devices_path = ds"
  shows "runs (create_channels E spec) w (\<lambda>c w'. section_added E nodes w req ds c [] w')"
proof -
  let ?f = "x_node E (w_heap w)"
  have wf: "wf_view (nodes (w_heap w)) ?f" using w by (simp add: ok_world_def)
  have rm: "req \<in> nodes (w_heap w)" using xabs_head_mem [OF w root(1) req] by simp
  have kids: "filter (step_ok ?f (''requires'', [])) (n_children (?f spec)) = [req]" "step_ok ?f (''component'', []) spec"
    using req by (auto simp: requires_path_def split: if_splits)
  have "req \<in> set (n_children (?f spec))" by (rule filter_Cons_mem [OF kids(1)])
  then have rp: "n_parent (?f req) = Some spec" using wf_viewD(4) [OF wf] by simp
  have dsk: "d \<in> set (n_children (?f req))" if "ds = d # r" for d r
    using ds kids that by (auto simp: devices_path_def dest: filter_Cons_mem)
  have first: "x_xpath E (w_heap w) spec ''/component/requires'' = Inr [req]"
    using xpath_law_query [OF law(1) root(2)] req by (simp add: requires_path_def render_path_def render_step_def)
  have tail: "runs (bnd (xpath E spec ''/component/requires/devices'') (\<lambda>devs.
       seq (case devs of [] \<Rightarrow> ret () | d # _ \<Rightarrow> seq (xremove E req d) (xappend E req d)) (ret c))) w1 (\<lambda>c. section_added E nodes w req ds c [])"
    if g: "wadds E nodes w req [XT ''channels'' [] None []] w1" "c \<in> nodes (w_heap w1) - nodes (w_heap w)"
      "n_children (x_node E (w_heap w1) req) = n_children (?f req) @ [c]" for c w1
  proof -
    have s: "section_added E nodes w req [] c [] w1"
      using g(1,3) wgrows_ok [OF g(1)] by (auto simp: section_added_def wgrows_def grows_def)
    have "n_parent (x_node E (w_heap w1) spec) = None"
      using g(1) root by (cases "spec = req") (auto simp: wgrows_def grows_def)
    moreover have "xabs (x_node E (w_heap w1)) spec devices_path = ds"
      using xabs_wgrows_tags [OF g(1) w root(1), of devices_path] ds by (simp add: devices_path_def)
    ultimately have "x_xpath E (w_heap w1) spec ''/component/requires/devices'' = Inr ds"
      using xpath_law_query [OF law(2), of w1 spec] by (simp add: devices_path_def render_path_def render_step_def)
    then show ?thesis
    proof (cases ds)
      case Nil
      with \<open>x_xpath E (w_heap w1) spec _ = Inr ds\<close> s show ?thesis by (simp add: wp)
    next
      case (Cons d r)
      then show ?thesis
        using \<open>x_xpath E (w_heap w1) spec _ = Inr ds\<close> runs_move_devices [OF s w root(2) rp rm root(1) dsk [OF Cons], of r] by (simp add: wp)
    qed
  qed
  show ?thesis
    unfolding create_channels_def
    by (simp add: wp first) (rule runs_subelement_node [OF w rm], simp, drule (2) tail, simp add: wp)
qed

text \<open>One device, in each of the states the loop goes through.\<close>

lemma section_added_children:
  assumes "section_added E nodes w req ds c ts v"
  shows "length (n_children (x_node E (w_heap v) c)) = length ts" and "c \<in> nodes (w_heap v)" and "ok_world E nodes v"
  using assms by (auto simp: section_added_def dest: has_trees_length)

lemma runs_add_device_more:
  assumes s: "section_added E nodes w req ds c ts v" and ts: "ts \<noteq> []" and req: "req \<in> nodes (w_heap w)"
    and dev: "dev_fields dev ''NET_BASIC'' nm"
  shows "runs (add_device E spec (a, Inr c) dev) v
     (\<lambda>r v'. r = (a + 2 * chan_size, Inr c) \<and> section_added E nodes w req ds c (ts @ chan_trees a nm) v')"
proof -
  have "n_children (x_node E (w_heap v) c) \<noteq> []" using section_added_children(1) [OF s] ts by auto
  moreover have "runs (add_channel E nm a (Inr c)) v
     (\<lambda>r v'. r = (a + 2 * chan_size, Inr c) \<and> section_added E nodes w req ds c (ts @ chan_trees a nm) v')"
    by (rule runs_mono [OF runs_add_channel [OF section_added_children(3,2) [OF s]]])
      (use section_added_more [OF s _ req] in auto)
  ultimately show ?thesis by (simp add: add_device_def wp runs_dev_fields [OF dev] channels_len_def)
qed

lemma runs_add_device_first:
  assumes w: "ok_world E nodes w" and root: "spec \<in> nodes (w_heap w)" "n_parent (x_node E (w_heap w) spec) = None"
    and law: "xpath_law E requires_path" "xpath_law E devices_path"
    and req: "xabs (x_node E (w_heap w)) spec requires_path = [req]"
    and ds: "xabs (x_node E (w_heap w)) spec devices_path = ds"
    and dev: "dev_fields dev ''NET_BASIC'' nm"
  shows "runs (add_device E spec (a, Inl []) dev) w
     (\<lambda>r v'. \<exists>c. r = (a + 2 * chan_size, Inr c) \<and> section_added E nodes w req ds c (chan_trees a nm) v')"
proof -
  have rm: "req \<in> nodes (w_heap w)" using xabs_head_mem [OF w root(1) req] by simp
  have "runs (add_channel E nm a (Inr c)) v
     (\<lambda>r v'. \<exists>c. r = (a + 2 * chan_size, Inr c) \<and> section_added E nodes w req ds c (chan_trees a nm) v')"
    if s: "section_added E nodes w req ds c [] v" for c v
    by (rule runs_mono [OF runs_add_channel [OF section_added_children(3,2) [OF s]]])
      (use section_added_more [OF s _ rm] in auto)
  then have "runs (create_channels E spec) w (\<lambda>c v. runs (add_channel E nm a (Inr c)) v
     (\<lambda>r v'. \<exists>c. r = (a + 2 * chan_size, Inr c) \<and> section_added E nodes w req ds c (chan_trees a nm) v'))"
    by (intro runs_mono [OF runs_create_channels [OF w root law req ds]])
  then show ?thesis by (simp add: add_device_def wp runs_dev_fields [OF dev] channels_len_def)
qed

lemma runs_add_device_other:
  "dev_fields dev t nm \<Longrightarrow> t \<noteq> ''NET_BASIC'' \<Longrightarrow> runs (add_device E spec st dev) v (\<lambda>r v'. r = st \<and> v' = v)"
  by (cases st) (auto simp: add_device_def wp runs_dev_fields)

end

text \<open>The names of the network devices, and the channels they get from an address on.\<close>

definition net_names :: "(json \<Rightarrow> string) \<Rightarrow> (json \<Rightarrow> string) \<Rightarrow> json list \<Rightarrow> string list" where
  "net_names ty nm devs = map nm (filter (\<lambda>d. ty d = ''NET_BASIC'') devs)"

definition net_trees :: "int \<Rightarrow> string list \<Rightarrow> xtree list" where
  "net_trees a names = concat (map (\<lambda>i. chan_trees (a + 2 * chan_size * int i) (names ! i)) [0..<length names])"

lemma net_trees_snoc: "net_trees a (ns @ [n]) = net_trees a ns @ chan_trees (a + 2 * chan_size * int (length ns)) n"
  by (auto simp: net_trees_def nth_append intro!: arg_cong [where f = concat])

lemma net_names_snoc [simp]:
  "net_names ty nm (ds @ [d]) = net_names ty nm ds @ (if ty d = ''NET_BASIC'' then [nm d] else [])"
  by (simp add: net_names_def)

text \<open>C18. The channels of the network devices, for a specification that has no channels section: when the
  manifest has a network device, the section is created below \<^verbatim>\<open>requires\<close>, in front of the devices
  section, which is moved to the end, and holds for each network device in order a reader and a
  writer of the channel size at consecutive addresses from the given one on; the other devices
  add nothing.  Without a network device nothing changes.\<close>

theorem net_channels_placed:
  fixes E :: "('h, 'b) lxml"
  assumes "etree E nodes" and "ok_world E nodes w" and "spec \<in> nodes (w_heap w)" and "n_parent (x_node E (w_heap w) spec) = None"
    and "xpath_law E requires_path" and "xpath_law E devices_path"
    and "xabs (x_node E (w_heap w)) spec requires_path = [req]" and "xabs (x_node E (w_heap w)) spec devices_path = ds"
    and "\<And>d. d \<in> set devs \<Longrightarrow> dev_fields d (ty d) (nm d)"
  shows "runs (foldM (add_device E spec) (a, Inl []) devs) w (\<lambda>(a', ch) w'.
     let names = net_names ty nm devs in
     a' = a + 2 * chan_size * int (length names)
     \<and> (if names = [] then ch = Inl [] \<and> w' = w
        else \<exists>c. ch = Inr c \<and> section_added E nodes w req ds c (net_trees a names) w'))"
proof -
  let ?N = "net_names ty nm"
  let ?I = "\<lambda>pre (a', ch :: 'b channels) w'. a' = a + 2 * chan_size * int (length (?N pre))
     \<and> (if ?N pre = [] then ch = Inl [] \<and> w' = w else \<exists>c. ch = Inr c \<and> section_added E nodes w req ds c (net_trees a (?N pre)) w')"
  have rm: "req \<in> nodes (w_heap w)" using xabs_head_mem [OF assms(2,3,7)] by simp
  have "runs (foldM (add_device E spec) (a, Inl []) devs) w (?I devs)"
  proof (rule runs_foldM)
    show "?I [] (a, Inl []) w" by (simp add: net_names_def)
  next
    fix pre d post st v
    assume "devs = pre @ d # post" and I: "?I pre st v"
    then have d: "dev_fields d (ty d) (nm d)" using assms(9) by simp
    obtain b ch where st: "st = (b, ch)" and b: "b = a + 2 * chan_size * int (length (?N pre))" using I by (cases st) auto
    consider "ty d \<noteq> ''NET_BASIC''" | "ty d = ''NET_BASIC''" "?N pre = []" | "ty d = ''NET_BASIC''" "?N pre \<noteq> []" by blast
    then show "runs (add_device E spec st d) v (?I (pre @ [d]))"
    proof cases
      case 1
      show ?thesis
        by (rule runs_mono [OF etree.runs_add_device_other [OF assms(1) d 1]]) (use I 1 in auto)
    next
      case 2
      then have "ch = Inl []" "v = w" using I st by auto
      moreover have "net_trees b [nm d] = chan_trees b (nm d)" by (simp add: net_trees_def)
      ultimately show ?thesis
        using runs_mono [OF etree.runs_add_device_first [OF assms(1-8), of d "nm d" b]] d 2 b st by auto
    next
      case 3
      then obtain c where c: "ch = Inr c" "section_added E nodes w req ds c (net_trees a (?N pre)) v" using I st by auto
      have "net_trees a (?N pre) \<noteq> []" using 3(2) by (auto simp: net_trees_def chan_trees_def)
      from runs_mono [OF etree.runs_add_device_more [OF assms(1) c(2) this rm, of d "nm d" spec b]] show ?thesis
        using d 3 b st c(1) by (auto simp: net_trees_snoc algebra_simps)
    qed
  qed
  then show ?thesis by (auto simp: Let_def elim!: runs_mono split: prod.splits)
qed

definition json_fields :: "json \<Rightarrow> string \<Rightarrow> string" where
  "json_fields d k = (case d of JObj m \<Rightarrow> (case map_of m k of Some (JStr s) \<Rightarrow> s | _ \<Rightarrow> []) | _ \<Rightarrow> [])"

definition demo_device :: "string \<Rightarrow> string \<Rightarrow> json" where
  "demo_device t n = JObj [(''name'', JStr n), (''type'', JStr t)]"

lemma demo_device_fields: "dev_fields (demo_device t n) (json_fields (demo_device t n) ''type'') (json_fields (demo_device t n) ''name'')"
  by (simp add: dev_fields_def demo_device_def json_fields_def)

theorem net_channels_placed_witness:
  "runs (foldM (add_device demo_spec_lxml 0) (0x4106000, Inl []) [demo_device ''BLOCK_BASIC'' ''disk'', demo_device ''NET_BASIC'' ''net0''])
     (table_world demo_spec) (\<lambda>(a', ch) w'. a' = 0x4306000 \<and> (\<exists>c. ch = Inr c
        \<and> section_added demo_spec_lxml ref_nodes (table_world demo_spec) 2 [7] c (net_trees 0x4106000 [''net0'']) w'))"
proof -
  let ?devs = "[demo_device ''BLOCK_BASIC'' ''disk'', demo_device ''NET_BASIC'' ''net0'']"
  let ?ty = "\<lambda>d. json_fields d ''type''" and ?nm = "\<lambda>d. json_fields d ''name''"
  have names: "net_names ?ty ?nm ?devs = [''net0'']"
    by (simp add: net_names_def demo_device_def json_fields_def)
  have "runs (foldM (add_device demo_spec_lxml 0) (0x4106000, Inl []) ?devs) (table_world demo_spec) (\<lambda>(a', ch) w'.
     let names = net_names ?ty ?nm ?devs in
     a' = 0x4106000 + 2 * chan_size * int (length names)
     \<and> (if names = [] then ch = Inl [] \<and> w' = table_world demo_spec
        else \<exists>c. ch = Inr c \<and> section_added demo_spec_lxml ref_nodes (table_world demo_spec) 2 [7] c (net_trees 0x4106000 names) w'))"
    by (rule net_channels_placed [OF ref.etree_axioms ok_table_world [OF demo_spec_ok] _ _ demo_spec_laws(3,4)])
      (simp_all add: demo_spec_paths, auto simp: demo_spec_def table_view_def nd_def intro: demo_device_fields)
  then show ?thesis unfolding names by (simp add: chan_size_def)
qed

text \<open>C19. For a specification that already has a channels section the query result is a list of elements,
  and the loop appends a reader and a writer for each network device to this list: no node of the
  specification changes, so the channels of the network devices are missing from the output.\<close>

theorem existing_channels_lost:
  assumes "etree E nodes" and "ok_world E nodes w" and "\<And>d. d \<in> set devs \<Longrightarrow> dev_fields d (ty d) (nm d)"
  shows "runs (foldM (add_device E spec) (a, Inl (c # cs)) devs) w
     (\<lambda>r w'. (\<exists>b new. r = (b, Inl (c # cs @ new)) \<and> length new = 2 * length (filter (\<lambda>d. ty d = ''NET_BASIC'') devs))
        \<and> nodes (w_heap w) \<subseteq> nodes (w_heap w') \<and> (\<forall>n \<in> nodes (w_heap w). x_node E (w_heap w') n = x_node E (w_heap w) n))"
proof -
  let ?same = "\<lambda>v. ok_world E nodes v \<and> nodes (w_heap w) \<subseteq> nodes (w_heap v) \<and> (\<forall>n \<in> nodes (w_heap w). x_node E (w_heap v) n = x_node E (w_heap w) n)"
  let ?net = "\<lambda>d. ty d = ''NET_BASIC''"
  let ?I = "\<lambda>pre (r :: int \<times> 'b channels) v. (\<exists>b new. r = (b, Inl (c # cs @ new)) \<and> length new = 2 * length (filter ?net pre)) \<and> ?same v"
  have elem: "runs (channel_elem E t l b) v (\<lambda>r v'. runs (channels_append E (Inl ns) r) v' Q)"
    if "?same v" "\<And>n v'. ?same v' \<Longrightarrow> Q (Inl (ns @ [n])) v'" for t l b v ns Q
    using that unfolding channel_elem_def channels_append_def
    by (auto simp: wp wbuilds_def builds_def ok_world_def subset_iff intro!: etree.runs_element [OF assms(1)])
  have dev: "runs (add_device E spec (b, Inl (c # ns)) d) v (\<lambda>r v'. (\<exists>b' new. r = (b', Inl (c # ns @ new)) \<and> length new = (if ?net d then 2 else 0)) \<and> ?same v')"
    if "?same v" "d \<in> set devs" for b ns d v
  proof (cases "?net d")
    case True
    have "runs (add_channel E (nm d) b (Inl (c # ns))) v (\<lambda>r v'. (\<exists>b' new. r = (b', Inl (c # ns @ new)) \<and> length new = 2) \<and> ?same v')"
      using that(1) unfolding add_channel_def runs_bnd runs_Let
      by (auto simp: wp intro!: runs_print elem)
    then show ?thesis
      using that assms(3) [OF that(2)] True by (simp add: add_device_def wp runs_dev_fields channels_len_def)
  next
    case False
    then show ?thesis
      using that assms(3) [OF that(2)] by (auto simp: add_device_def wp runs_dev_fields)
  qed
  have "runs (foldM (add_device E spec) (a, Inl (c # cs)) devs) w (?I devs)"
  proof (rule runs_foldM [of ?I])
    show "?I [] (a, Inl (c # cs)) w" using assms(2) by simp
  next
    fix pre d post r v
    assume split: "devs = pre @ d # post" and I: "?I pre r v"
    then obtain b new where r: "r = (b, Inl (c # cs @ new))" "length new = 2 * length (filter ?net pre)" and v: "?same v" by auto
    show "runs (add_device E spec r d) v (?I (pre @ [d]))"
      unfolding r(1) by (rule runs_mono [OF dev [OF v]]) (use split r(2) in auto)
  qed
  then show ?thesis by (rule runs_mono) auto
qed

definition demo_with_channels :: "nat xnode list" where
  "demo_with_channels = [nd ''component'' [] [1] None, nd ''requires'' [] [2] (Some 0), nd ''channels'' [] [] (Some 1)]"

theorem existing_channels_lost_witness:
  "runs (foldM (add_device demo_spec_lxml 0) (0x4106000, Inl [2]) [demo_device ''NET_BASIC'' ''net0'']) (table_world demo_with_channels)
     (\<lambda>r w'. (\<exists>b m n. r = (b, Inl [2, m, n])) \<and> n_children (x_node demo_spec_lxml (w_heap w') 2) = [])"
proof -
  have "table_ok demo_with_channels" by code_simp
  note run = existing_channels_lost [OF ref.etree_axioms ok_table_world [OF this],
      of "[demo_device ''NET_BASIC'' ''net0'']" "\<lambda>d. json_fields d ''type''" "\<lambda>d. json_fields d ''name''"]
  have "2 \<in> ref_nodes (w_heap (table_world demo_with_channels))" "n_children (table_view demo_with_channels 2) = []"
    by (simp_all add: demo_with_channels_def table_view_def nd_def)
  then show ?thesis
    by (intro runs_mono [OF run]) (auto simp: dev_fields_def json_fields_def demo_device_def numeral_2_eq_2 length_Suc_conv)
qed

end
