(* ===== verification/Linux_Gencspec.thy ===== *)
theory Linux_Gencspec
  imports Solo5_Props
begin

text \<open>
  \<^verbatim>\<open>components/linux/misc/linux-muen-gencspec.py\<close>: adds the memory regions of a Linux kernel image
  and of its modules' initramfs to a component specification.  The second region is placed behind
  the initramfs that the system policy maps already.
\<close>

definition LINUX_VIRTUAL_ADDRESS :: string where "LINUX_VIRTUAL_ADDRESS = ''16#0040_0000#''"
definition INITRAMFS_VIRTUAL_ADDRESS :: int where "INITRAMFS_VIRTUAL_ADDRESS = 0x90000000"
definition BOOT_HEAP_SIZE :: int where "BOOT_HEAP_SIZE = 0x10000"
definition BOOT_STACK_SIZE :: int where "BOOT_STACK_SIZE = 0x4000"

text \<open>The permissions are strings, or the value \<^verbatim>\<open>False\<close>.\<close>

definition add_provides_memory ::
  "('h, 'n) lxml \<Rightarrow> 'n \<Rightarrow> string \<Rightarrow> string \<Rightarrow> string \<Rightarrow> string \<Rightarrow> int \<Rightarrow> pyval \<Rightarrow> pyval \<Rightarrow> ('h, unit) py" where
  "add_provides_memory E xml_spec name region_type address filename sz executable writable =
     bnd (xpath0 E xml_spec ''/component/provides'') (\<lambda>provides.
     let mem_size = page_up sz in
     seq (print (''* Adding '' @ sq name @ '' region with size '' @ str_int mem_size
                 @ '' bytes, address '' @ address @ '', type '' @ region_type)) (
     bnd (lift (int_to_ada_hex (PInt mem_size))) (\<lambda>size_str.
     bnd (element E ''memory''
            [(''logical'', PStr name), (''virtualAddress'', PStr address), (''size'', PStr size_str),
             (''executable'', executable), (''writable'', writable), (''type'', PStr region_type)]) (\<lambda>mem.
     seq (subelement E mem ''file'' [(''filename'', PStr filename), (''offset'', PStr ''none'')]) (
     xappend E provides mem)))))"

text \<open>\<^verbatim>\<open>a + b\<close> on integers and strings.\<close>

definition py_add :: "pyval \<Rightarrow> pyval \<Rightarrow> pyerr + pyval" where
  "py_add a b =
     (case (a, b) of
        (PInt i, PInt j) \<Rightarrow> Inr (PInt (i + j))
      | (PStr s, PStr t) \<Rightarrow> Inr (PStr (s @ t))
      | _ \<Rightarrow> Inl TypeError)"

text \<open>The loop over the mappings: \<open>None\<close> stands for the early return.  \<^verbatim>\<open>x and y\<close> is \<^verbatim>\<open>x\<close> when it is the
  empty string and otherwise \<^verbatim>\<open>y\<close>.\<close>

fun check_mappings ::
  "('h, 'n) lxml \<Rightarrow> string \<Rightarrow> string \<Rightarrow> string \<Rightarrow> 'n list \<Rightarrow> ('h, (string \<times> string) option) py" where
  "check_mappings E virtual_address executable writable [] = ret (Some (executable, writable))"
| "check_mappings E virtual_address executable writable (mapping # mems) =
     bnd (xattr E mapping ''virtualAddress'') (\<lambda>va.
     if va \<noteq> virtual_address
     then seq (print ''Warning: Initramfs mappings not at same virtual address.'') (ret None)
     else bnd (if executable = [] then ret executable else xattr E mapping ''executable'') (\<lambda>executable.
          bnd (if writable = [] then ret writable else xattr E mapping ''writable'') (\<lambda>writable.
          check_mappings E virtual_address executable writable mems)))"

text \<open>The outer \<open>None\<close> is the bare \<^verbatim>\<open>return None\<close>, the inner one the missing address of the triple.\<close>

definition get_initramfs_attrs ::
  "('h, 'n) lxml \<Rightarrow> 'n \<Rightarrow> ('h, (string option \<times> pyval \<times> pyval) option) py" where
  "get_initramfs_attrs E xml_spec =
     bnd (xpath E xml_spec (''/system/memory/memory[@type='' @ sq ''subject_initrd'' @ '']'')) (\<lambda>phys_regions.
     if length phys_regions > 1
     then seq (print ''Warning: Muen system policy has multiple initramfs regions.'') (ret None)
     else (case phys_regions of
       [] \<Rightarrow> bnd (lift (int_to_ada_hex (PInt INITRAMFS_VIRTUAL_ADDRESS))) (\<lambda>a.
              ret (Some (Some a, PBool False, PBool False)))
     | phys # _ \<Rightarrow>
         bnd (xattr E phys ''name'') (\<lambda>n.
         bnd (xpath E xml_spec (''/system/subjects/subject/memory/memory[@physical='' @ sq (lower_str n) @ '']'')) (\<lambda>mems.
         case mems of
           [] \<Rightarrow> bnd (lift (int_to_ada_hex (PInt INITRAMFS_VIRTUAL_ADDRESS))) (\<lambda>a.
                  ret (Some (Some a, PBool False, PBool False)))
         | m # _ \<Rightarrow>
             bnd (xattr E phys ''size'') (\<lambda>s.
             bnd (lift (ada_hex_to_int (PStr s))) (\<lambda>sz.
             bnd (xattr E m ''virtualAddress'') (\<lambda>virtual_address.
             bnd (xattr E m ''executable'') (\<lambda>executable.
             bnd (xattr E m ''writable'') (\<lambda>writable.
             bnd (check_mappings E virtual_address executable writable mems) (\<lambda>r.
             case r of
               None \<Rightarrow> ret (Some (None, PBool False, PBool False))
             | Some (executable, writable) \<Rightarrow>
                 bnd (lift (ada_hex_to_int (PStr virtual_address))) (\<lambda>va.
                 bnd (lift (py_add va sz)) (\<lambda>new_address.
                 bnd (lift (int_to_ada_hex new_address)) (\<lambda>a.
                 ret (Some (Some a, PStr executable, PStr writable)))))))))))))))"

record linux_args =
  l_kernel_binary :: string
  l_src_xml_spec :: string
  l_out_spec :: "string option"
  l_initramfs :: "string option"
  l_src_policy :: "string option"

text \<open>The checks of the arguments; returns the path of the output.\<close>

definition linux_check_args :: "linux_args \<Rightarrow> ('h, string) py" where
  "linux_check_args args =
     bnd (isfile (l_kernel_binary args)) (\<lambda>b.
     seq (if \<not> b then sys_exit (''Error: Linux kernel binary not found '' @ sq (l_kernel_binary args)) else ret ()) (
     bnd (isfile (l_src_xml_spec args)) (\<lambda>b.
     seq (if \<not> b then sys_exit ''Error: Source component XML specification not found'' else ret ()) (
     case l_out_spec args of
       None \<Rightarrow> sys_exit ''Error: Muen output component XML specification not specified''
     | Some out_spec_path \<Rightarrow>
         seq (case l_initramfs args of
                None \<Rightarrow> ret ()
              | Some _ \<Rightarrow>
                  (case l_src_policy args of
                     None \<Rightarrow> sys_exit ''Error: Muen source system policy XML not specified''
                   | Some p \<Rightarrow>
                       bnd (isfile p) (\<lambda>b.
                       if \<not> b then sys_exit (''Error: Muen source system policy XML not found '' @ sq p) else ret ()))) (
         let out_spec_dir = dirname out_spec_path in
         bnd (isdir out_spec_dir) (\<lambda>d.
         if length out_spec_dir > 0 \<and> \<not> d
         then sys_exit (''Error: Output directory for component specification does not exist ('' @ sq (dirname out_spec_dir) @ '')'')
         else ret out_spec_path))))))"

text \<open>The second region; unpacking the bare \<^verbatim>\<open>None\<close> is a \<^verbatim>\<open>TypeError\<close>.\<close>

definition add_initramfs :: "('h, 'n) lxml \<Rightarrow> 'n \<Rightarrow> string \<Rightarrow> string \<Rightarrow> ('h, unit) py" where
  "add_initramfs E src_spec src_initramfs_path src_policy_path =
     seq (print (''Reading source system policy from '' @ sq src_policy_path)) (
     bnd (xparse E src_policy_path) (\<lambda>src_policy.
     bnd (get_initramfs_attrs E src_policy) (\<lambda>r.
     case r of
       None \<Rightarrow> raise TypeError
     | Some (initramfs_addr, executable, writable) \<Rightarrow>
         (case initramfs_addr of
            None \<Rightarrow> print (''Warning: Manually add mappings for '' @ src_initramfs_path)
          | Some a \<Rightarrow>
              seq (print (''Processing initramfs '' @ sq src_initramfs_path)) (
              bnd (getsize src_initramfs_path) (\<lambda>initramfs_size.
              add_provides_memory E src_spec ''modules_initramfs'' ''subject_initrd'' a (basename src_initramfs_path)
                initramfs_size executable writable))))))"

definition linux_generate :: "('h, 'n) lxml \<Rightarrow> linux_args \<Rightarrow> ('h, 'n) py" where
  "linux_generate E args =
     seq (print (''Reading source component specification from '' @ sq (l_src_xml_spec args))) (
     bnd (xparse E (l_src_xml_spec args)) (\<lambda>src_spec.
     seq (print (''Processing Linux binary '' @ sq (l_kernel_binary args))) (
     bnd (getsize (l_kernel_binary args)) (\<lambda>binary_size.
     seq (add_provides_memory E src_spec ''binary'' ''subject_binary'' LINUX_VIRTUAL_ADDRESS (basename (l_kernel_binary args))
            (binary_size + (BOOT_HEAP_SIZE + BOOT_STACK_SIZE)) (PStr ''true'') (PStr ''true'')) (
     seq (case l_initramfs args of
            None \<Rightarrow> ret ()
          | Some p \<Rightarrow> bnd (as_str (l_src_policy args)) (add_initramfs E src_spec p)) (
     ret src_spec))))))"

definition linux_main :: "('h, 'n) lxml \<Rightarrow> linux_args \<Rightarrow> ('h, unit) py" where
  "linux_main E args =
     bnd (linux_check_args args) (\<lambda>out_spec_path.
     bnd (linux_generate E args) (\<lambda>src_spec.
     seq (open_write out_spec_path) (
     seq (print (''Writing component specification to '' @ sq out_spec_path)) (
     bnd (xtostring E src_spec) (write_file out_spec_path)))))"

subsection \<open>The place of the initramfs\<close>

lemma runs_check_mappings:
  assumes "\<And>m. m \<in> set ms \<Longrightarrow> attr_of E w m ''virtualAddress'' = Some (va m) \<and> attr_of E w m ''executable'' = Some (ex m)
             \<and> attr_of E w m ''writable'' = Some (wr m) \<and> ex m \<noteq> [] \<and> wr m \<noteq> []"
  shows "x \<noteq> [] \<Longrightarrow> y \<noteq> [] \<Longrightarrow> w_heap v = w_heap w \<Longrightarrow> same_fs w v \<Longrightarrow>
     runs (check_mappings E a x y ms) v (\<lambda>r v'. w_heap v' = w_heap w \<and> same_fs w v' \<and>
       r = (if \<forall>m \<in> set ms. va m = a then Some (last (x # map ex ms), last (y # map wr ms)) else None))"
  using assms
proof (induction ms arbitrary: x y)
  case (Cons m ms)
  have m: "attr_of E v m ''virtualAddress'' = Some (va m)" "attr_of E v m ''executable'' = Some (ex m)"
    "attr_of E v m ''writable'' = Some (wr m)" "ex m \<noteq> []" "wr m \<noteq> []"
    using Cons.prems by auto
  have ms: "runs (check_mappings E a (ex m) (wr m) ms) v (\<lambda>r v'. w_heap v' = w_heap w \<and> same_fs w v' \<and>
       r = (if \<forall>m \<in> set ms. va m = a then Some (last (ex m # map ex ms), last (wr m # map wr ms)) else None))"
    by (rule Cons.IH) (use Cons.prems m in auto)
  show ?case
  proof (cases "va m = a")
    case True
    then show ?thesis
      using Cons.prems(1,2) m runs_mono [OF ms] by (simp add: wp last_ConsR)
  next
    case False
    then show ?thesis
      using m(1) Cons.prems(3,4) by (auto simp: wp intro!: runs_print)
  qed
qed (simp add: wp)

text \<open>C28. The place of the additional initramfs, for a policy with one initramfs region that subjects map:
  when all mappings are at the same virtual address, the returned address is directly behind
  the region; otherwise no address is returned.  The permissions are those of the last mapping.\<close>

theorem initramfs_adjacent:
  assumes "x_xpath E (w_heap w) policy (''/system/memory/memory[@type='' @ sq ''subject_initrd'' @ '']'') = Inr [phys]"
    and "attr_of E w phys ''name'' = Some n" and "attr_of E w phys ''size'' = Some s" and "ada_hex_to_int (PStr s) = Inr (PInt k)"
    and "x_xpath E (w_heap w) policy (''/system/subjects/subject/memory/memory[@physical='' @ sq (lower_str n) @ '']'') = Inr (m # ms)"
    and "\<And>x. x \<in> set (m # ms) \<Longrightarrow> attr_of E w x ''virtualAddress'' = Some (va x) \<and> attr_of E w x ''executable'' = Some (ex x)
             \<and> attr_of E w x ''writable'' = Some (wr x) \<and> ex x \<noteq> [] \<and> wr x \<noteq> []"
    and "ada_hex_to_int (PStr (va m)) = Inr (PInt a)"
  shows "runs (get_initramfs_attrs E policy) w (\<lambda>r w'. w_heap w' = w_heap w \<and> same_fs w w' \<and>
     r = Some (if \<forall>x \<in> set ms. va x = va m
               then (Some (int_to_ada_hex_int (a + k)), PStr (ex (last (m # ms))), PStr (wr (last (m # ms))))
               else (None, PBool False, PBool False)))"
proof -
  have last: "last (ex m # map ex (m # ms)) = ex (last (m # ms))" "last (wr m # map wr (m # ms)) = wr (last (m # ms))"
    by (simp_all add: last_map)
  have loop: "runs (check_mappings E (va m) (ex m) (wr m) (m # ms)) w (\<lambda>r v'. w_heap v' = w_heap w \<and> same_fs w v' \<and>
       r = (if \<forall>x \<in> set (m # ms). va x = va m then Some (ex (last (m # ms)), wr (last (m # ms))) else None))"
    unfolding last [symmetric] by (rule runs_check_mappings [where w = w]) (use assms(6) in auto)
  have m: "attr_of E w m ''virtualAddress'' = Some (va m)" "attr_of E w m ''executable'' = Some (ex m)" "attr_of E w m ''writable'' = Some (wr m)"
    using assms(6) [of m] by simp_all
  show ?thesis
    using assms(1-5) m unfolding get_initramfs_attrs_def
    by (auto simp: wp simp del: check_mappings.simps intro!: runs_mono [OF loop] split: if_splits)
      (simp_all add: assms(7) py_add_def wp)
qed

definition demo_initrd :: "rheap world" where
  "demo_initrd = flat_world 3 (\<lambda>n. if n = 0 then (''memory'', [(''name'', ''initramfs''), (''size'', ''16#0010_0000#''), (''type'', ''subject_initrd'')])
     else (''memory'', [(''physical'', ''initramfs''), (''virtualAddress'', ''16#9000_0000#''),
                        (''executable'', if n = 1 then ''false'' else ''true''), (''writable'', ''false'')]))"

abbreviation demo_initrd_lxml :: "(rheap, nat) lxml" where
  "demo_initrd_lxml \<equiv> ref_lxml (\<lambda>_. None) (\<lambda>f n q. Inr (if startswith q ''/system/memory'' then [0] else [1, 2]))"

theorem initramfs_adjacent_witness:
  "runs (get_initramfs_attrs demo_initrd_lxml 0) demo_initrd (\<lambda>r w'. w_heap w' = w_heap demo_initrd \<and> same_fs demo_initrd w' \<and>
     r = Some (Some (int_to_ada_hex_int 0x90100000), PStr ''true'', PStr ''false''))"
proof -
  have lits: "ada_hex_to_int (PStr ''16#0010_0000#'') = Inr (PInt 0x100000)" "ada_hex_to_int (PStr ''16#9000_0000#'') = Inr (PInt 0x90000000)"
    by (simp_all add: ada_hex_eval)
  have "runs (get_initramfs_attrs demo_initrd_lxml 0) demo_initrd (\<lambda>r w'. w_heap w' = w_heap demo_initrd \<and> same_fs demo_initrd w' \<and>
     r = Some (if \<forall>x \<in> set [2 :: nat]. ''16#9000_0000#'' = ''16#9000_0000#''
               then (Some (int_to_ada_hex_int (0x90000000 + 0x100000)), PStr (if last [1, 2 :: nat] = 1 then ''false'' else ''true''), PStr ''false'')
               else (None, PBool False, PBool False)))"
    by (rule initramfs_adjacent [where va = "\<lambda>_. ''16#9000_0000#''" and wr = "\<lambda>_. ''false''" and phys = 0])
      (auto simp: demo_initrd_def startswith_def new_node_def lits)
  then show ?thesis by simp
qed

subsection \<open>The regions of the specification\<close>

definition provides_tree :: "string \<Rightarrow> string \<Rightarrow> string \<Rightarrow> string \<Rightarrow> int \<Rightarrow> string \<Rightarrow> string \<Rightarrow> xtree" where
  "provides_tree name t a filename sz x wr =
     XT ''memory'' [(''logical'', name), (''virtualAddress'', a), (''size'', int_to_ada_hex_int (page_up sz)),
                    (''executable'', x), (''writable'', wr), (''type'', t)] None
        [XT ''file'' [(''filename'', filename), (''offset'', ''none'')] None []]"

context etree
begin

lemma runs_add_provides_memory:
  assumes "ok_world E nodes w" and "p \<in> nodes (w_heap w)" and "x_xpath E (w_heap w) spec ''/component/provides'' = Inr (p # r)"
  shows "runs (add_provides_memory E spec name t a filename sz (PStr x) (PStr wr)) w
     (\<lambda>_. wadds E nodes w p [provides_tree name t a filename sz x wr])"
  using assms unfolding add_provides_memory_def runs_bnd
  by (auto simp: wp Let_def provides_tree_def intro!: runs_print runs_nested_element [unfolded runs_bnd])

end


text \<open>C27. The script without an initramfs: the output is the source specification with one region more, the
  kernel image with room for the boot heap and stack, rounded up to whole pages, at its fixed
  address; no other file changes.\<close>

theorem linux_binary_region:
  assumes "etree E nodes" and "ok_world E nodes w"
    and "w_files w (l_kernel_binary args) = Some img" and "w_files w (l_src_xml_spec args) = Some c"
    and "l_out_spec args = Some out" and "l_initramfs args = None" and "writable_path w out"
    and "x_parse E c (w_heap w) = Inr (spec, h)" and "x_xpath E h spec ''/component/provides'' = Inr (p # r)" and "p \<in> nodes h"
  shows "runs (linux_main E args) w (\<lambda>_ w'. \<exists>t. tree_interval t = {0x400000..<0x400000 + page_up (int (length img) + 0x14000)}
     \<and> adds (nodes h) (x_node E h) p [t] (nodes (w_heap w')) (x_node E (w_heap w'))
     \<and> w_files w' = (w_files w)(out := Some (x_tostring E (w_heap w') spec)))"
proof -
  let ?sz = "int (length img) + (BOOT_HEAP_SIZE + BOOT_STACK_SIZE)"
  let ?t = "provides_tree ''binary'' ''subject_binary'' LINUX_VIRTUAL_ADDRESS (basename (l_kernel_binary args)) ?sz ''true'' ''true''"
  have pos: "0 < page_up ?sz" using page_up_bounds(1) [of ?sz] by (simp add: BOOT_HEAP_SIZE_def BOOT_STACK_SIZE_def)
  have a: "ada_value (Some LINUX_VIRTUAL_ADDRESS) = Some 0x400000"
    by (simp add: ada_value_def LINUX_VIRTUAL_ADDRESS_def ada_hex_eval)
  have int: "tree_interval ?t = {0x400000..<0x400000 + page_up (int (length img) + 0x14000)}"
    using pos a by (simp add: tree_interval_def provides_tree_def ada_value_hex) (simp add: BOOT_HEAP_SIZE_def BOOT_STACK_SIZE_def)
  obtain u where "builds (nodes (w_heap w)) (x_node E (w_heap w)) spec u (nodes h) (x_node E h)"
    using etree.parse_builds [OF assms(1) _ assms(8)] assms(2) by (auto simp: ok_world_def)
  then have ok: "ok_world E nodes (w\<lparr>w_heap := h, w_out := o1\<rparr>)" for o1 by (simp add: ok_world_def builds_def)
  have gen: "runs (linux_generate E args) (w\<lparr>w_out := o1\<rparr>) (\<lambda>s w'. s = spec \<and> wadds E nodes (w\<lparr>w_heap := h\<rparr>) p [?t] w')" for o1
    unfolding linux_generate_def runs_bnd
    by (auto simp: wp assms(3,4,6,8) intro!: runs_print runs_mono [OF etree.runs_add_provides_memory [OF assms(1)]])
      (use ok assms(9,10) in auto)
  have chk: "runs (linux_check_args args) w (\<lambda>o1 w'. o1 = out \<and> w' = w)"
    using assms(3-7) by (auto simp: linux_check_args_def wp Let_def writable_path_def)
  have out: "runs (open_write out) v (\<lambda>_ v. runs (print m) v (\<lambda>_ v. runs (xtostring E spec) v (\<lambda>s v. runs (write_file out s) v (\<lambda>_ w'.
      \<exists>t. tree_interval t = {0x400000..<0x400000 + page_up (int (length img) + 0x14000)}
       \<and> adds (nodes h) (x_node E h) p [t] (nodes (w_heap w')) (x_node E (w_heap w'))
       \<and> w_files w' = (w_files w)(out := Some (x_tostring E (w_heap w') spec))))))"
    if "wadds E nodes (w\<lparr>w_heap := h\<rparr>) p [?t] v" for v m
    using that int assms(7) by (auto simp: wp wgrows_def same_fs_def writable_path_def intro!: runs_print)
  have "runs (linux_generate E args) w (\<lambda>s w'. s = spec \<and> wadds E nodes (w\<lparr>w_heap := h\<rparr>) p [?t] w')"
    using gen [of "w_out w"] by simp
  then show ?thesis
    unfolding linux_main_def runs_bnd by (intro runs_mono [OF chk]) (auto intro: out elim!: runs_mono)
qed

definition demo_linux_args :: linux_args where
  "demo_linux_args = \<lparr>l_kernel_binary = ''bzImage'', l_src_xml_spec = ''linux.xml'', l_out_spec = Some ''out.xml'', l_initramfs = None, l_src_policy = None\<rparr>"

definition demo_linux_world :: "rheap world" where
  "demo_linux_world = (flat_world 0 (\<lambda>_. ([], [])))\<lparr>w_files := [''bzImage'' \<mapsto> ''kernel'', ''linux.xml'' \<mapsto> ''<component/>'']\<rparr>"

abbreviation demo_linux_lxml :: "(rheap, nat) lxml" where
  "demo_linux_lxml \<equiv> ref_lxml (\<lambda>_. Some (XT ''component'' [] None [XT ''provides'' [] None []])) (\<lambda>f n q. Inr (xabs f n [(''component'', []), (''provides'', [])]))"

theorem linux_binary_region_witness:
  "runs (linux_main demo_linux_lxml demo_linux_args) demo_linux_world (\<lambda>_ w'. \<exists>t. tree_interval t = {0x400000..<0x415000}
     \<and> w_files w' ''out.xml'' \<noteq> None)"
proof -
  let ?spec = "fst (ref_build (XT ''component'' [] None [XT ''provides'' [] None []]) (w_heap demo_linux_world))"
  let ?h = "snd (ref_build (XT ''component'' [] None [XT ''provides'' [] None []]) (w_heap demo_linux_world))"
  have up: "page_up (int (length ''kernel'') + 0x14000) = 0x15000" by (simp add: page_up_def)
  have dir: "dirname ''out.xml'' = []" by code_simp
  have q: "xabs (r_view ?h) ?spec [(''component'', []), (''provides'', [])] = [1]" and n: "1 \<in> ref_nodes ?h"
    by (simp_all add: demo_linux_world_def flat_world_def ref_new_def ref_map_def ref_nodes_def attach_last_def attach_def detach_def
        new_node_def step_ok_def Let_def)
  have "runs (linux_main demo_linux_lxml demo_linux_args) demo_linux_world (\<lambda>_ w'. \<exists>t.
        tree_interval t = {0x400000..<0x400000 + page_up (int (length ''kernel'') + 0x14000)}
     \<and> adds (ref_nodes ?h) (x_node demo_linux_lxml ?h) 1 [t] (ref_nodes (w_heap w')) (x_node demo_linux_lxml (w_heap w'))
     \<and> w_files w' = (w_files demo_linux_world)(''out.xml'' := Some (x_tostring demo_linux_lxml (w_heap w') ?spec)))"
    by (rule linux_binary_region [OF ref.etree_axioms, where c = "''<component/>''" and r = "[]"])
      (use q n in \<open>simp_all add: demo_linux_args_def demo_linux_world_def writable_path_def dir\<close>,
        simp_all add: flat_world_def ok_world_def wf_view_def ref_lxml_def new_node_def)
  then show ?thesis unfolding up by (rule runs_mono) auto
qed

subsection \<open>Failures\<close>




end
