(* ===== verification/Smpify.thy ===== *)
theory Smpify
  imports Etree_Ref
begin

text \<open>
  \<^verbatim>\<open>policy/xml/smp/smpify.py\<close>: extends the demo system policy to a Linux that runs on several
  cores.  For every additional core it adds the monitor's memory, the events and log channels,
  the Linux and SM subjects, the scheduling partitions and frames, and it spreads the devices
  over the Linux subjects.  The module variable \<^verbatim>\<open>cores\<close> is a parameter, and so is \<^verbatim>\<open>exec\<close> of the
  code in the attributes: \<open>X code i dbgchannel_end f\<close> is the value of the variable \<^verbatim>\<open>f\<close> after the code,
  or its exception, when \<^verbatim>\<open>f\<close> was \<open>f\<close> before.
\<close>

type_synonym py_exec = "string \<Rightarrow> int \<Rightarrow> int \<Rightarrow> pyval option \<Rightarrow> pyerr + pyval"

definition dbgchannel_end :: int where "dbgchannel_end = 4"

subsection \<open>Physical resources\<close>

definition filled_memory :: "('h, 'n) lxml \<Rightarrow> string \<Rightarrow> string \<Rightarrow> ('h, 'n) py" where
  "filled_memory E name pattern =
     bnd (element E ''memory'' [(''name'', PStr name), (''size'', PStr ''16#1000#''), (''caching'', PStr ''WB'')]) (\<lambda>m.
     bnd (element E ''fill'' [(''pattern'', PStr pattern)]) (\<lambda>f.
     seq (xappend E m f) (
     bnd (element E ''hash'' [(''value'', PStr ''none'')]) (\<lambda>h.
     seq (xappend E m h) (ret m)))))"

definition core_memory :: "('h, 'n) lxml \<Rightarrow> 'n \<Rightarrow> int \<Rightarrow> ('h, unit) py" where
  "core_memory E mem i =
     bnd (filled_memory E (''control_sm_'' @ str_int i) ''16#ff#'') (\<lambda>control.
     seq (xappend E mem control) (
     bnd (filled_memory E (''status_sm_'' @ str_int i) ''16#00#'') (\<lambda>status.
     xappend E mem status)))"

definition create_phys_memory :: "('h, 'n) lxml \<Rightarrow> int \<Rightarrow> 'n \<Rightarrow> ('h, unit) py" where
  "create_phys_memory E cores mem = forM [1..cores] (core_memory E mem)"

definition append_event :: "('h, 'n) lxml \<Rightarrow> 'n \<Rightarrow> string \<Rightarrow> string \<Rightarrow> ('h, unit) py" where
  "append_event E events mode name =
     bnd (element E ''event'' [(''mode'', PStr mode), (''name'', PStr name)]) (xappend E events)"

definition core_events :: "('h, 'n) lxml \<Rightarrow> 'n \<Rightarrow> int \<Rightarrow> ('h, unit) py" where
  "core_events E events i =
     seq (append_event E events ''switch'' (''trap_to_sm_'' @ str_int i)) (
     seq (append_event E events ''switch'' (''resume_linux_'' @ str_int i)) (
     seq (append_event E events ''async'' (''serial_irq4_linux_'' @ str_int i)) (
     seq (append_event E events ''self'' (''timer_linux_'' @ str_int i)) (
     append_event E events ''asap'' (''linux_smp_signal_sm_'' @ zfill (str_int i) 2)))))"

definition create_phys_events :: "('h, 'n) lxml \<Rightarrow> int \<Rightarrow> 'n \<Rightarrow> ('h, unit) py" where
  "create_phys_events E cores events = forM [1..cores] (core_events E events)"

definition create_phys_channels :: "('h, 'n) lxml \<Rightarrow> int \<Rightarrow> 'n \<Rightarrow> ('h, unit) py" where
  "create_phys_channels E cores channels =
     forM [1..cores] (\<lambda>i.
       bnd (element E ''channel'' [(''name'', PStr (''debuglog_subject'' @ str_int (dbgchannel_end + i))),
                                   (''size'', PStr ''$logchannel_size'')]) (xappend E channels))"

subsection \<open>Resources of the subjects\<close>

definition create_lnx_resources :: "('h, 'n) lxml \<Rightarrow> int \<Rightarrow> 'n \<Rightarrow> ('h, unit) py" where
  "create_lnx_resources E cores subject =
     bnd (xpath0 E subject (''events/source/group[@name='' @ sq ''vmcall'' @ '']'')) (\<lambda>vmcall.
     forM [1..cores] (\<lambda>i.
       seq (subelement E vmcall ''event''
              [(''id'', PStr (str_int (2 + i))), (''logical'', PStr (''smp_signal_sm_'' @ zfill (str_int i) 2)),
               (''physical'', PStr (''linux_smp_signal_sm_'' @ zfill (str_int i) 2))]) (ret ())))"

definition create_dbg_resources :: "('h, 'n) lxml \<Rightarrow> int \<Rightarrow> 'n \<Rightarrow> ('h, unit) py" where
  "create_dbg_resources E cores subject =
     bnd (xpath0 E subject ''component'') (\<lambda>cmp.
     forM [1..cores] (\<lambda>i.
       seq (subelement E cmp ''map''
              [(''logical'', PStr (''log_channel'' @ str_int (2 + i))),
               (''physical'', PStr (''debuglog_subject'' @ str_int (dbgchannel_end + i)))]) (ret ())))"

text \<open>The attribute of one node; carries the variable \<^verbatim>\<open>f\<close>.\<close>

definition set_core_attr ::
  "py_exec \<Rightarrow> ('h, 'n) lxml \<Rightarrow> int \<Rightarrow> pyval option \<Rightarrow> 'n \<Rightarrow> ('h, pyval option) py" where
  "set_core_attr X E i f n =
     bnd (xget E n ''attrset'') (\<lambda>attr.
     bnd (xget E n ''attrvalue'') (\<lambda>val_exp.
     bnd (if val_exp = None \<or> val_exp = Some []
          then bnd (as_str attr) (\<lambda>attr.
               bnd (xget E n attr) (\<lambda>v.
               bnd (as_str v) (\<lambda>v.
               seq (xset E n attr (v @ str_int i)) (ret f))))
          else bnd (lift (X (the val_exp) i dbgchannel_end f)) (\<lambda>fv.
               bnd (as_str attr) (\<lambda>attr.
               bnd (xget E n attr) (\<lambda>v.
               bnd (as_str v) (\<lambda>v.
               bnd (case fv of PStr s \<Rightarrow> ret s | _ \<Rightarrow> raise TypeError) (\<lambda>s.
               seq (xset E n attr (v @ s)) (
               seq (xdel E n ''attrvalue'') (ret (Some fv))))))))) (\<lambda>f.
     seq (xdel E n ''attrset'') (ret f))))"

definition add_core_subject ::
  "py_exec \<Rightarrow> ('h, 'n) lxml \<Rightarrow> 'n \<Rightarrow> int \<Rightarrow> pyval option \<Rightarrow> 'n \<Rightarrow> ('h, pyval option) py" where
  "add_core_subject X E subjects i f new_subj =
     bnd (xpath E new_subj ''//*[@attrset]'') (\<lambda>ns.
     bnd (foldM (set_core_attr X E i) f ns) (\<lambda>f.
     seq (xappend E subjects new_subj) (ret f)))"

definition core_subjects ::
  "py_exec \<Rightarrow> ('h, 'n) lxml \<Rightarrow> 'n \<Rightarrow> 'n \<Rightarrow> 'n \<Rightarrow> pyval option \<Rightarrow> int \<Rightarrow> ('h, pyval option) py" where
  "core_subjects X E subjects lnx_orig sm_orig f i =
     bnd (xdeepcopy E lnx_orig) (\<lambda>lnx.
     seq (xset E lnx ''name'' (''linux_core'' @ str_int i)) (
     bnd (xdeepcopy E sm_orig) (\<lambda>sm.
     seq (xset E sm ''name'' (''sm_core'' @ str_int i)) (
     foldM (add_core_subject X E subjects i) f [lnx, sm]))))"

definition create_subjects :: "py_exec \<Rightarrow> ('h, 'n) lxml \<Rightarrow> int \<Rightarrow> 'n \<Rightarrow> ('h, unit) py" where
  "create_subjects X E cores subjects =
     bnd (xparse E ''subj_lnx.xml'') (\<lambda>lnx_orig.
     bnd (xparse E ''subj_sm.xml'') (\<lambda>sm_orig.
     seq (foldM (core_subjects X E subjects lnx_orig sm_orig) None [1..cores]) (ret ())))"

subsection \<open>Scheduling\<close>

definition core_partition :: "('h, 'n) lxml \<Rightarrow> 'n \<Rightarrow> int \<Rightarrow> ('h, unit) py" where
  "core_partition E partitions i =
     bnd (element E ''partition'' [(''name'', PStr (''linux_core'' @ str_int i))]) (\<lambda>prt.
     bnd (element E ''group'' []) (\<lambda>group.
     bnd (element E ''subject'' [(''name'', PStr (''linux_core'' @ str_int i))]) (\<lambda>s.
     seq (xappend E group s) (
     bnd (element E ''subject'' [(''name'', PStr (''sm_core'' @ str_int i))]) (\<lambda>s.
     seq (xappend E group s) (
     seq (xappend E prt group) (
     xinsert E partitions (nat i) prt)))))))"

definition create_scheduling_partitions :: "('h, 'n) lxml \<Rightarrow> int \<Rightarrow> 'n \<Rightarrow> ('h, unit) py" where
  "create_scheduling_partitions E cores partitions = forM [1..cores] (core_partition E partitions)"

definition minor_frame :: "('h, 'n) lxml \<Rightarrow> string \<Rightarrow> string \<Rightarrow> ('h, 'n) py" where
  "minor_frame E prt ticks = element E ''minorFrame'' [(''partition'', PStr prt), (''ticks'', PStr ticks)]"

definition set_ticks :: "('h, 'n) lxml \<Rightarrow> 'n \<Rightarrow> string \<Rightarrow> ('h, unit) py" where
  "set_ticks E c prt =
     bnd (xpath0 E c (''minorFrame[@partition='' @ sq prt @ '']'')) (\<lambda>m. xset E m ''ticks'' ''1'')"

definition adjust_cpu :: "('h, 'n) lxml \<Rightarrow> 'n \<Rightarrow> ('h, unit) py" where
  "adjust_cpu E c =
     seq (set_ticks E c ''debugserver'') (
     seq (set_ticks E c ''time'') (
     seq (forM [0..<4] (\<lambda>i. bnd (minor_frame E ''linux_core1'' ''10'') (xinsert E c 0))) (
     seq (forM [0..<5] (\<lambda>i. bnd (minor_frame E ''linux_core1'' ''10'') (xappend E c))) (
     bnd (minor_frame E ''linux_core1'' ''8'') (xappend E c)))))"

definition adjust_core_one :: "('h, 'n) lxml \<Rightarrow> 'n list \<Rightarrow> ('h, unit) py" where
  "adjust_core_one E cpus = forM cpus (adjust_cpu E)"

definition additional_cpu :: "('h, 'n) lxml \<Rightarrow> int \<Rightarrow> 'n \<Rightarrow> ('h, unit) py" where
  "additional_cpu E i m =
     bnd (element E ''cpu'' [(''id'', PStr (str_int i))]) (\<lambda>cpu.
     seq (forM [0..<10] (\<lambda>j. seq (subelement E cpu ''minorFrame'' [(''partition'', PStr (''linux_core'' @ str_int i)), (''ticks'', PStr ''10'')]) (ret ()))) (
     xappend E m cpu))"

definition create_additional_cores :: "('h, 'n) lxml \<Rightarrow> int \<Rightarrow> 'n list \<Rightarrow> ('h, unit) py" where
  "create_additional_cores E cores majors = forM [2..cores] (\<lambda>i. forM majors (additional_cpu E i))"

subsection \<open>Devices\<close>

definition remove_device :: "('h, 'n) lxml \<Rightarrow> 'n \<Rightarrow> ('h, unit) py" where
  "remove_device E d =
     bnd (xgetparent E d) (\<lambda>p. case p of None \<Rightarrow> raise AttributeError | Some p \<Rightarrow> xremove E p d)"

definition assign_device :: "('h, 'n) lxml \<Rightarrow> 'n list \<Rightarrow> nat \<Rightarrow> 'n \<Rightarrow> ('h, nat) py" where
  "assign_device E subjs cur_subj d =
     bnd (if cur_subj < length subjs then ret (subjs ! cur_subj) else raise IndexError) (\<lambda>s.
     bnd (xpath0 E s ''devices'') (\<lambda>devices.
     seq (xappend E devices d) (
     let cur_subj = cur_subj + 1 in
     ret (if cur_subj = length subjs then 0 else cur_subj))))"

definition spread_devices :: "('h, 'n) lxml \<Rightarrow> 'n \<Rightarrow> ('h, unit) py" where
  "spread_devices E doc =
     bnd (xpath0 E doc (''/system/subjects/subject[@name='' @ sq ''linux'' @ '']'')) (\<lambda>lnx.
     bnd (xpath E lnx ''devices/device'') (\<lambda>devs.
     seq (forM devs (remove_device E)) (
     bnd (xpath E doc (''/system/subjects/subject[starts-with(@name, '' @ sq ''linux'' @ '')]'')) (\<lambda>subjs.
     seq (foldM (assign_device E subjs) 0 devs) (ret ())))))"

subsection \<open>The script\<close>

definition smp_doc :: "py_exec \<Rightarrow> ('h, 'n) lxml \<Rightarrow> int \<Rightarrow> ('h, 'n) py" where
  "smp_doc X E cores =
     bnd (xparse E ''../demo_system_desktop.xml'') (\<lambda>doc.
     seq (bnd (xpath0 E doc ''/system/memory'') (create_phys_memory E cores)) (
     seq (bnd (xpath0 E doc ''/system/events'') (create_phys_events E cores)) (
     seq (bnd (xpath0 E doc ''/system/channels'') (create_phys_channels E cores)) (
     seq (bnd (xpath0 E doc (''/system/subjects/subject[@name='' @ sq ''linux'' @ '']'')) (create_lnx_resources E cores)) (
     seq (bnd (xpath0 E doc (''/system/subjects/subject[@name='' @ sq ''dbgserver'' @ '']'')) (create_dbg_resources E cores)) (
     seq (bnd (xpath0 E doc ''/system/subjects'') (create_subjects X E cores)) (
     seq (bnd (xpath0 E doc ''/system/scheduling/partitions'') (create_scheduling_partitions E cores)) (
     seq (bnd (xpath E doc (''/system/scheduling/majorFrame/cpu[@id='' @ sq ''1'' @ '']'')) (adjust_core_one E)) (
     seq (bnd (xpath E doc ''/system/scheduling/majorFrame'') (create_additional_cores E cores)) (
     seq (spread_devices E doc) (ret doc)))))))))))"

text \<open>\<open>prog\<close> is \<^verbatim>\<open>sys.argv[0]\<close>, \<open>args\<close> the rest.\<close>

definition smp_main :: "py_exec \<Rightarrow> ('h, 'n) lxml \<Rightarrow> string \<Rightarrow> string list \<Rightarrow> ('h, unit) py" where
  "smp_main X E prog args =
     (case args of
        [arg] \<Rightarrow>
          bnd (lift (py_int10 arg)) (\<lambda>cores.
          if cores < 2 then seq (print ''Core count must be >= 2'') (raise (SystemExit 1))
          else bnd (smp_doc X E (cores - 1)) (\<lambda>doc.
               seq (open_write ''../demo_system_desktop_smp.xml'') (
               bnd (xtostring E doc) (write_file ''../demo_system_desktop_smp.xml''))))
      | _ \<Rightarrow> seq (print (prog @ '' <linux_cores>'')) (raise (SystemExit 1)))"

end
