(* ===== verification/Smp_Props.thy ===== *)
theory Smp_Props
  imports Smpify
begin

text \<open>
  Properties of the SMP extension of the demo policy: references and resources agree, every core
  has the same number of scheduling ticks, and the devices are spread round-robin.
\<close>

subsection \<open>Names of the cores' resources\<close>

lemma read_str_int: "0 \<le> i \<Longrightarrow> read_digits 10 (str_int i) 0 = Some (nat i)"
  using read_digits_digits_base [of 10 "nat i"] by (simp add: str_int_def)

lemma read_zfill:
  assumes "0 \<le> i" shows "read_digits 10 (zfill (str_int i) k) 0 = Some (nat i)"
proof -
  have zeros: "read_digits 10 (replicate n CHR ''0'' @ s) 0 = read_digits 10 s 0" for n s
    by (induction n) (auto simp: char_digit_def)
  obtain c cs where c: "str_int i = c # cs" using assms by (cases "str_int i") (auto simp: str_int_def)
  then have "c \<in> set (digits_base 10 (nat i))" using assms by (simp add: str_int_def)
  then have "c \<noteq> CHR ''-''" "c \<noteq> CHR ''+''"
    using digits_base_digits [of 10 c "nat i"] is_digit_not_special [of 10 c] by auto
  then have "zfill (str_int i) k = replicate (k - length (str_int i)) CHR ''0'' @ str_int i"
    by (simp add: zfill_def c rjust_def)
  then show ?thesis using zeros read_str_int [OF assms] by simp
qed

lemma core_suffix_inj:
  assumes "0 \<le> i" "0 \<le> j"
  shows "str_int i = str_int j \<longleftrightarrow> i = j" and "zfill (str_int i) k = zfill (str_int j) k \<longleftrightarrow> i = j"
proof -
  have nat: "nat i = nat j \<longleftrightarrow> i = j" using assms by (auto simp: nat_eq_iff)
  show "str_int i = str_int j \<longleftrightarrow> i = j"
    using read_str_int [OF assms(1)] read_str_int [OF assms(2)] nat by (metis option.inject)
  show "zfill (str_int i) k = zfill (str_int j) k \<longleftrightarrow> i = j"
    using read_zfill [OF assms(1), of k] read_zfill [OF assms(2), of k] nat by (metis option.inject)
qed

definition event_tree :: "string \<Rightarrow> string \<Rightarrow> xtree" where
  "event_tree mode name = XT ''event'' [(''mode'', mode), (''name'', name)] None []"

definition event_trees :: "int \<Rightarrow> xtree list" where
  "event_trees i =
     [event_tree ''switch'' (''trap_to_sm_'' @ str_int i), event_tree ''switch'' (''resume_linux_'' @ str_int i),
      event_tree ''async'' (''serial_irq4_linux_'' @ str_int i), event_tree ''self'' (''timer_linux_'' @ str_int i),
      event_tree ''asap'' (''linux_smp_signal_sm_'' @ zfill (str_int i) 2)]"

definition log_channel_tree :: "int \<Rightarrow> xtree" where
  "log_channel_tree i = XT ''channel'' [(''name'', ''debuglog_subject'' @ str_int (dbgchannel_end + i)), (''size'', ''$logchannel_size'')] None []"

definition vmcall_tree :: "int \<Rightarrow> xtree" where
  "vmcall_tree i = XT ''event'' [(''id'', str_int (2 + i)), (''logical'', ''smp_signal_sm_'' @ zfill (str_int i) 2),
                                (''physical'', ''linux_smp_signal_sm_'' @ zfill (str_int i) 2)] None []"

definition log_map_tree :: "int \<Rightarrow> xtree" where
  "log_map_tree i = XT ''map'' [(''logical'', ''log_channel'' @ str_int (2 + i)), (''physical'', ''debuglog_subject'' @ str_int (dbgchannel_end + i))] None []"

context etree
begin

lemma runs_element_append:
  assumes "ok_world E nodes w" and "p \<in> nodes (w_heap w)" and "attr_strs as = Inr as'"
    and "\<And>w'. wadds E nodes w p [XT t as' None []] w' \<Longrightarrow> Q () w'"
  shows "runs (bnd (element E t as) (xappend E p)) w Q"
  unfolding runs_bnd using assms by (auto intro!: runs_element runs_append_built)

lemma runs_append_event:
  assumes "ok_world E nodes w" and "p \<in> nodes (w_heap w)"
  shows "runs (append_event E p mode name) w (\<lambda>_. wadds E nodes w p [event_tree mode name])"
  unfolding append_event_def event_tree_def by (rule runs_element_append [OF assms]) auto

text \<open>A sequence of additions below one node.\<close>

lemma runs_adds_seq:
  assumes "runs m w (\<lambda>_. wadds E nodes w p ts)" and p: "p \<in> nodes (w_heap w)"
    and next_adds: "\<And>v. ok_world E nodes v \<Longrightarrow> p \<in> nodes (w_heap v) \<Longrightarrow> runs n v (\<lambda>_. wadds E nodes v p us)"
  shows "runs (seq m n) w (\<lambda>_. wadds E nodes w p (ts @ us))"
  unfolding runs_bnd
proof (rule runs_mono [OF assms(1)])
  fix v assume v: "wadds E nodes w p ts v"
  show "runs n v (\<lambda>_. wadds E nodes w p (ts @ us))"
    by (rule runs_mono [OF next_adds [OF wgrows_ok [OF v] wgrows_mem [OF v p]]]) (rule wadds_trans [OF v])
qed

lemma runs_core_events:
  assumes "ok_world E nodes w" and "p \<in> nodes (w_heap w)"
  shows "runs (core_events E p i) w (\<lambda>_. wadds E nodes w p (event_trees i))"
proof -
  have "event_trees i = [event_tree ''switch'' (''trap_to_sm_'' @ str_int i)] @ [event_tree ''switch'' (''resume_linux_'' @ str_int i)]
      @ [event_tree ''async'' (''serial_irq4_linux_'' @ str_int i)] @ [event_tree ''self'' (''timer_linux_'' @ str_int i)]
      @ [event_tree ''asap'' (''linux_smp_signal_sm_'' @ zfill (str_int i) 2)]"
    by (simp add: event_trees_def)
  then show ?thesis
    unfolding core_events_def using assms
    by (simp only:) (intro runs_adds_seq runs_append_event; assumption)
qed

text \<open>A loop over the cores that adds below one node.\<close>

lemma runs_forM_cores:
  assumes w: "ok_world E nodes w" "p \<in> nodes (w_heap w)"
    and body: "\<And>i v. ok_world E nodes v \<Longrightarrow> p \<in> nodes (w_heap v) \<Longrightarrow> runs (f i) v (\<lambda>_. wadds E nodes v p (g i))"
  shows "runs (forM is f) w (\<lambda>_. wadds E nodes w p (concat (map g is)))"
proof (rule runs_forM_adds [OF w])
  fix i vs v assume "wadds E nodes w p vs v"
  then show "runs (f i) v (\<lambda>_. wadds E nodes v p (g i))"
    by (intro body) (auto intro: wgrows_ok wgrows_mem [where w = w] w)
qed

lemma runs_forM_cores_single:
  assumes "ok_world E nodes w" "p \<in> nodes (w_heap w)"
    and "\<And>i v. ok_world E nodes v \<Longrightarrow> p \<in> nodes (w_heap v) \<Longrightarrow> runs (f i) v (\<lambda>_. wadds E nodes v p [g i])"
  shows "runs (forM is f) w (\<lambda>_. wadds E nodes w p (map g is))"
  using runs_forM_cores [OF assms] by simp

lemma runs_create_phys_events:
  assumes "ok_world E nodes w" and "p \<in> nodes (w_heap w)"
  shows "runs (create_phys_events E cores p) w (\<lambda>_. wadds E nodes w p (concat (map event_trees [1..cores])))"
  unfolding create_phys_events_def by (rule runs_forM_cores [OF assms runs_core_events])

lemma runs_create_phys_channels:
  assumes "ok_world E nodes w" and "p \<in> nodes (w_heap w)"
  shows "runs (create_phys_channels E cores p) w (\<lambda>_. wadds E nodes w p (map log_channel_tree [1..cores]))"
  unfolding create_phys_channels_def log_channel_tree_def
  by (rule runs_forM_cores_single [OF assms]) (auto intro!: runs_element_append)

lemma runs_create_lnx_resources:
  assumes "ok_world E nodes w" and "p \<in> nodes (w_heap w)"
    and "x_xpath E (w_heap w) s (''events/source/group[@name='' @ sq ''vmcall'' @ '']'') = Inr (p # r)"
  shows "runs (create_lnx_resources E cores s) w (\<lambda>_. wadds E nodes w p (map vmcall_tree [1..cores]))"
proof -
  have "runs (forM [1..cores] (\<lambda>i.
       seq (subelement E p ''event''
              [(''id'', PStr (str_int (2 + i))), (''logical'', PStr (''smp_signal_sm_'' @ zfill (str_int i) 2)),
               (''physical'', PStr (''linux_smp_signal_sm_'' @ zfill (str_int i) 2))]) (ret ()))) w (\<lambda>_. wadds E nodes w p (map vmcall_tree [1..cores]))"
    by (rule runs_forM_cores_single [OF assms(1,2)]) (auto simp: wp vmcall_tree_def intro!: runs_subelement)
  then show ?thesis using assms(3) by (auto simp: create_lnx_resources_def wp)
qed

lemma runs_create_dbg_resources:
  assumes "ok_world E nodes w" and "p \<in> nodes (w_heap w)" and "x_xpath E (w_heap w) s ''component'' = Inr (p # r)"
  shows "runs (create_dbg_resources E cores s) w (\<lambda>_. wadds E nodes w p (map log_map_tree [1..cores]))"
proof -
  have "runs (forM [1..cores] (\<lambda>i.
       seq (subelement E p ''map''
              [(''logical'', PStr (''log_channel'' @ str_int (2 + i))),
               (''physical'', PStr (''debuglog_subject'' @ str_int (dbgchannel_end + i)))]) (ret ()))) w (\<lambda>_. wadds E nodes w p (map log_map_tree [1..cores]))"
    by (rule runs_forM_cores_single [OF assms(1,2)]) (auto simp: wp log_map_tree_def intro!: runs_subelement)
  then show ?thesis using assms(3) by (auto simp: create_dbg_resources_def wp)
qed

end

text \<open>The value of an attribute of a tree.\<close>

definition tree_attr :: "string \<Rightarrow> xtree \<Rightarrow> string option" where
  "tree_attr k t = map_of (xt_attrib t) k"

lemma distinct_event_names: "distinct (map (tree_attr ''name'') (concat (map event_trees [1..cores])))"
proof -
  let ?n = "\<lambda>i. map (tree_attr ''name'') (event_trees i)"
  have names: "set (?n i) \<inter> set (?n j) = {}" if "i \<in> set [1..cores]" "j \<in> set [1..cores]" "i \<noteq> j" for i j
    using that core_suffix_inj [of i j] by (auto simp: event_trees_def event_tree_def tree_attr_def)
  have ne: "?n i \<noteq> []" for i by (simp add: event_trees_def)
  have "inj_on ?n (set [1..cores])"
    by (rule inj_onI) (use names ne in \<open>metis Int_absorb set_empty\<close>)
  then have d: "distinct (map ?n [1..cores])" by (simp add: distinct_map)
  have each: "distinct (?n i)" for i by (simp add: event_trees_def event_tree_def tree_attr_def)
  have "distinct (concat (map ?n [1..cores]))"
  proof (rule distinct_concat [OF d])
    fix ys zs assume "ys \<in> set (map ?n [1..cores])" "zs \<in> set (map ?n [1..cores])" "ys \<noteq> zs"
    then obtain i j where "ys = ?n i" "zs = ?n j" "i \<in> set [1..cores]" "j \<in> set [1..cores]"
      unfolding set_map by blast
    moreover from this have "i \<noteq> j" using \<open>ys \<noteq> zs\<close> by blast
    ultimately show "set ys \<inter> set zs = {}" using names by blast
  qed (use each in auto)
  then show ?thesis by (simp add: map_concat comp_def)
qed

text \<open>C26. References and resources agree, for any number of cores: the physical events of the signals that
  the Linux subject may send are exactly the signal events created, their numbers are
  consecutive from 3, and the names of all created events differ; the debug server maps exactly
  the log channels created, under log channel numbers from 3, and their names differ.\<close>

theorem smp_resources_agree:
  assumes "etree E nodes" and "ok_world E nodes w" and "set [ev, ch, vm, cmp] \<subseteq> nodes (w_heap w)"
    and "x_xpath E (w_heap w) linux (''events/source/group[@name='' @ sq ''vmcall'' @ '']'') = Inr (vm # r)"
    and "x_xpath E (w_heap w) dbg ''component'' = Inr (cmp # r')"
  shows "\<exists>evs vms chs maps.
     runs (create_phys_events E cores ev) w (\<lambda>_. wadds E nodes w ev evs)
     \<and> runs (create_lnx_resources E cores linux) w (\<lambda>_. wadds E nodes w vm vms)
     \<and> runs (create_phys_channels E cores ch) w (\<lambda>_. wadds E nodes w ch chs)
     \<and> runs (create_dbg_resources E cores dbg) w (\<lambda>_. wadds E nodes w cmp maps)
     \<and> map (tree_attr ''physical'') vms = map (tree_attr ''name'') (filter (\<lambda>t. tree_attr ''mode'' t = Some ''asap'') evs)
     \<and> map (tree_attr ''id'') vms = map (\<lambda>k. Some (str_int k)) [3..cores + 2]
     \<and> distinct (map (tree_attr ''name'') evs)
     \<and> map (tree_attr ''physical'') maps = map (tree_attr ''name'') chs
     \<and> map (tree_attr ''logical'') maps = map (\<lambda>k. Some (''log_channel'' @ str_int k)) [3..cores + 2]
     \<and> distinct (map (tree_attr ''name'') chs)"
proof -
  have shift: "map f [3..cores + 2] = map (\<lambda>i. f (2 + i)) [1..cores]" for f :: "int \<Rightarrow> string option"
  proof -
    have "[3..cores + 2] = map ((+) 2) [1..cores]"
      by (rule nth_equalityI) (auto simp: nth_upto)
    then show ?thesis by simp
  qed
  have asap: "filter (\<lambda>t. tree_attr ''mode'' t = Some ''asap'') (concat (map event_trees is)) =
      map (\<lambda>i. event_tree ''asap'' (''linux_smp_signal_sm_'' @ zfill (str_int i) 2)) is" for "is"
    by (induction "is") (auto simp: event_trees_def event_tree_def tree_attr_def)
  have phys: "map (tree_attr ''physical'') (map vmcall_tree is) = map (tree_attr ''name'')
        (map (\<lambda>i. event_tree ''asap'' (''linux_smp_signal_sm_'' @ zfill (str_int i) 2)) is)" for "is"
    by (simp add: tree_attr_def vmcall_tree_def event_tree_def)
  have ids: "map (tree_attr ''id'') (map vmcall_tree [1..cores]) = map (\<lambda>k. Some (str_int k)) [3..cores + 2]"
    "map (tree_attr ''logical'') (map log_map_tree [1..cores]) = map (\<lambda>k. Some (''log_channel'' @ str_int k)) [3..cores + 2]"
    unfolding shift by (simp_all add: tree_attr_def vmcall_tree_def log_map_tree_def)
  have logs: "map (tree_attr ''physical'') (map log_map_tree is) = map (tree_attr ''name'') (map log_channel_tree is)" for "is"
    by (simp add: tree_attr_def log_map_tree_def log_channel_tree_def)
  have dist: "distinct (map (tree_attr ''name'') (map log_channel_tree [1..cores]))"
    using core_suffix_inj(1) [of "dbgchannel_end + i" "dbgchannel_end + j" for i j]
    by (auto simp: distinct_map tree_attr_def log_channel_tree_def dbgchannel_end_def intro!: inj_onI)
  have "ev \<in> nodes (w_heap w)" "ch \<in> nodes (w_heap w)" "vm \<in> nodes (w_heap w)" "cmp \<in> nodes (w_heap w)" using assms(3) by simp_all
  then show ?thesis
    by (intro exI [of _ "concat (map event_trees [1..cores])"] exI [of _ "map vmcall_tree [1..cores]"]
        exI [of _ "map log_channel_tree [1..cores]"] exI [of _ "map log_map_tree [1..cores]"] conjI)
      (rule etree.runs_create_phys_events [OF assms(1,2)] etree.runs_create_lnx_resources [OF assms(1,2) _ assms(4)]
        etree.runs_create_phys_channels [OF assms(1,2)] etree.runs_create_dbg_resources [OF assms(1,2) _ assms(5)]
        phys [folded asap] ids distinct_event_names logs dist; assumption)+
qed

definition demo_smp :: "rheap world" where
  "demo_smp = flat_world 4 (\<lambda>n. ([''events'', ''channels'', ''group'', ''component''] ! n, []))"

abbreviation demo_smp_lxml :: "(rheap, nat) lxml" where
  "demo_smp_lxml \<equiv> ref_lxml (\<lambda>_. None) (\<lambda>f n q. Inr (if startswith q ''events'' then [2] else [3]))"

theorem smp_resources_agree_witness:
  "\<exists>evs vms. runs (create_phys_events demo_smp_lxml 3 0) demo_smp (\<lambda>_. wadds demo_smp_lxml ref_nodes demo_smp 0 evs)
     \<and> runs (create_lnx_resources demo_smp_lxml 3 1) demo_smp (\<lambda>_. wadds demo_smp_lxml ref_nodes demo_smp 2 vms)
     \<and> map (tree_attr ''physical'') vms = map (tree_attr ''name'') (filter (\<lambda>t. tree_attr ''mode'' t = Some ''asap'') evs)"
proof -
  have "set [0, 1, 2, 3] \<subseteq> ref_nodes (w_heap demo_smp)" "ok_world demo_smp_lxml ref_nodes demo_smp"
    by (auto simp: demo_smp_def)
  from smp_resources_agree [OF ref.etree_axioms this(2,1), of 1 "[]" 1 "[]" 3] show ?thesis
    by (auto simp: startswith_def)
qed

end
