(* ===== verification/Smp_Schedule.thy ===== *)
theory Smp_Schedule
  imports Smp_Props
begin

text \<open>
  The scheduling frames that \<^verbatim>\<open>policy/xml/smp/smpify.py\<close> writes: the ticks of the cores in each major
  frame.
\<close>

definition tick_value :: "string option \<Rightarrow> int" where
  "tick_value s = (case s of None \<Rightarrow> 0 | Some t \<Rightarrow> (case py_int10 t of Inr i \<Rightarrow> i | Inl _ \<Rightarrow> 0))"

text \<open>The ticks of the minor frames of a CPU.\<close>

definition ticks_of :: "('h, 'n) lxml \<Rightarrow> 'h world \<Rightarrow> 'n \<Rightarrow> string option list" where
  "ticks_of E w c = map (\<lambda>m. attr_of E w m ''ticks'') (n_children (x_node E (w_heap w) c))"

lemma tick_values [simp]: "tick_value (Some ''10'') = 10" "tick_value (Some ''1'') = 1" "tick_value (Some ''8'') = 8"
proof -
  have "py_int10 ''10'' = Inr 10" "py_int10 ''1'' = Inr 1" "py_int10 ''8'' = Inr 8" by code_simp+
  then show "tick_value (Some ''10'') = 10" "tick_value (Some ''1'') = 1" "tick_value (Some ''8'') = 8" by (simp_all add: tick_value_def)
qed

lemma map_of_upd_attr: "map_of (upd_attr k v as) k' = (if k' = k then Some v else map_of as k')"
proof -
  let ?as = "map (\<lambda>(a, b). if a = k then (a, v) else (a, b)) as"
  have upd: "map_of ?as k' = (if k' = k then map_option (\<lambda>_. v) (map_of as k) else map_of as k')"
    by (induction as) auto
  show ?thesis
  proof (cases "map_of as k")
    case None
    then have "k \<notin> fst ` set as" by (simp add: map_of_eq_None_iff)
    then show ?thesis using None by (auto simp: upd_attr_def map_add_def split: option.splits)
  next
    case (Some b)
    then have "k \<in> fst ` set as" by (metis map_of_eq_None_iff option.distinct(1))
    then show ?thesis using Some upd by (simp add: upd_attr_def)
  qed
qed

definition cpu_tree :: "int \<Rightarrow> xtree" where
  "cpu_tree i = XT ''cpu'' [(''id'', str_int i)] None
     (replicate 10 (XT ''minorFrame'' [(''partition'', ''linux_core'' @ str_int i), (''ticks'', ''10'')] None []))"

text \<open>The ticks of a CPU of core one, with \<open>a\<close> and \<open>b\<close> the frames of the debug server and of the time subject.\<close>

definition core_one_ticks :: "('h, 'n) lxml \<Rightarrow> 'h world \<Rightarrow> 'n \<Rightarrow> 'n \<Rightarrow> 'n \<Rightarrow> string option list" where
  "core_one_ticks E w a b c = replicate 4 (Some ''10'')
     @ map (\<lambda>m. if m = a \<or> m = b then Some ''1'' else attr_of E w m ''ticks'') (n_children (x_node E (w_heap w) c))
     @ replicate 5 (Some ''10'') @ [Some ''8'']"

text \<open>Nothing changed but the nodes \<open>S\<close> and their children, and new nodes.\<close>

definition keeps_except :: "('h, 'n) lxml \<Rightarrow> ('h \<Rightarrow> 'n set) \<Rightarrow> 'h world \<Rightarrow> 'n set \<Rightarrow> 'h world \<Rightarrow> bool" where
  "keeps_except E nodes w S w' \<longleftrightarrow> ok_world E nodes w' \<and> nodes (w_heap w) \<subseteq> nodes (w_heap w')
     \<and> (\<forall>q \<in> nodes (w_heap w). n_parent (x_node E (w_heap w') q) = n_parent (x_node E (w_heap w) q))
     \<and> (\<forall>q \<in> nodes (w_heap w). q \<notin> S \<longrightarrow> n_parent (x_node E (w_heap w) q) \<notin> Some ` S \<longrightarrow> x_node E (w_heap w') q = x_node E (w_heap w) q)"

lemma keeps_except_refl: "ok_world E nodes w \<Longrightarrow> keeps_except E nodes w S w"
  by (simp add: keeps_except_def)

lemma keeps_except_trans:
  "keeps_except E nodes w S w1 \<Longrightarrow> keeps_except E nodes w1 T w2 \<Longrightarrow> keeps_except E nodes w (S \<union> T) w2"
  unfolding keeps_except_def by (auto simp: subset_iff image_Un)

lemma keeps_except_wgrows: "wgrows E nodes w p pre ts post w' \<Longrightarrow> keeps_except E nodes w {p} w'"
proof -
  assume g: "wgrows E nodes w p pre ts post w'"
  have "n_parent (x_node E (w_heap w') q) = n_parent (x_node E (w_heap w) q)" if "q \<in> nodes (w_heap w)" for q
    using wgrows_other [OF g that] g by (cases "q = p") (auto simp: wgrows_def grows_def)
  then show ?thesis using g by (auto simp: keeps_except_def wgrows_ok wgrows_mem wgrows_other)
qed

lemma keeps_except_ticks:
  assumes k: "keeps_except E nodes w S w'" and w: "ok_world E nodes w" and q: "q \<in> nodes (w_heap w)" "q \<notin> S"
    and p: "n_parent (x_node E (w_heap w) q) \<notin> Some ` S" and kids: "set (n_children (x_node E (w_heap w) q)) \<inter> S = {}"
  shows "x_node E (w_heap w') q = x_node E (w_heap w) q" and "ticks_of E w' q = ticks_of E w q"
    and "m \<in> set (n_children (x_node E (w_heap w) q)) \<Longrightarrow> x_node E (w_heap w') m = x_node E (w_heap w) m"
proof -
  have wf: "wf_view (nodes (w_heap w)) (x_node E (w_heap w))" using w by (simp add: ok_world_def)
  show same: "x_node E (w_heap w') q = x_node E (w_heap w) q" using k q p by (simp add: keeps_except_def)
  have kid: "x_node E (w_heap w') m = x_node E (w_heap w) m" if m: "m \<in> set (n_children (x_node E (w_heap w) q))" for m
    using k m kids q(2) wf_viewD(2) [OF wf, of q] wf_viewD(4) [OF wf, of m q] by (auto simp: keeps_except_def)
  then show "m \<in> set (n_children (x_node E (w_heap w) q)) \<Longrightarrow> x_node E (w_heap w') m = x_node E (w_heap w) m" .
  show "ticks_of E w' q = ticks_of E w q" using same kid by (simp add: ticks_of_def)
qed

text \<open>Every node \<open>q\<close> got the trees \<open>R q\<close> as last children, and nothing else changed.\<close>

definition spreads :: "('h, 'n) lxml \<Rightarrow> ('h \<Rightarrow> 'n set) \<Rightarrow> 'h world \<Rightarrow> ('n \<Rightarrow> xtree list) \<Rightarrow> 'h world \<Rightarrow> bool" where
  "spreads E nodes w R w' \<longleftrightarrow> ok_world E nodes w' \<and> nodes (w_heap w) \<subseteq> nodes (w_heap w')
     \<and> (\<forall>q \<in> nodes (w_heap w). \<exists>ns. x_node E (w_heap w') q = (x_node E (w_heap w) q)\<lparr>n_children := n_children (x_node E (w_heap w) q) @ ns\<rparr>
          \<and> has_trees (nodes (w_heap w') - nodes (w_heap w)) (x_node E (w_heap w')) ns (R q))"

lemma spreads_refl: "ok_world E nodes w \<Longrightarrow> spreads E nodes w (\<lambda>_. []) w"
  by (simp add: spreads_def)

lemma spreads_cong: "spreads E nodes w R w' \<Longrightarrow> (\<And>q. R' q = R q) \<Longrightarrow> spreads E nodes w R' w'"
  by (simp add: spreads_def)

lemma spreads_step:
  assumes R: "spreads E nodes w R v" and p: "p \<in> nodes (w_heap w)" and g: "wadds E nodes v p [t] v'"
  shows "spreads E nodes w (R(p := R p @ [t])) v'"
proof -
  let ?A = "nodes (w_heap w)" and ?B = "nodes (w_heap v)" and ?C = "nodes (w_heap v')"
  let ?f = "x_node E (w_heap w)" and ?g = "x_node E (w_heap v)" and ?h = "x_node E (w_heap v')"
  have sub: "?A \<subseteq> ?B" "?B \<subseteq> ?C" and other: "\<forall>q \<in> ?B - {p}. ?h q = ?g q"
    using R g by (auto simp: spreads_def wgrows_def grows_def)
  obtain new where new: "?h p = (?g p)\<lparr>n_children := n_children (?g p) @ new\<rparr>" "has_trees (?C - ?B) ?h new [t]"
    using g by (auto simp: wgrows_def grows_def)
  have old: "has_trees (?C - ?A) ?h ns ts" if "has_trees (?B - ?A) ?g ns ts" for ns ts
    by (rule has_tree_frame(2) [OF _ _ that]) (use sub other p in auto)
  have "\<exists>ns. ?h q = (?f q)\<lparr>n_children := n_children (?f q) @ ns\<rparr> \<and> has_trees (?C - ?A) ?h ns ((R(p := R p @ [t])) q)" if q: "q \<in> ?A" for q
  proof -
    obtain ns where ns: "?g q = (?f q)\<lparr>n_children := n_children (?f q) @ ns\<rparr>" "has_trees (?B - ?A) ?g ns (R q)"
      using R q by (auto simp: spreads_def)
    show ?thesis
    proof (cases "q = p")
      case True
      have "has_trees (?C - ?A) ?h new [t]" by (rule has_tree_frame(2) [OF _ _ new(2)]) (use sub in auto)
      then have "has_trees (?C - ?A) ?h (ns @ new) (R p @ [t])" using has_trees_append old [OF ns(2)] True by blast
      then show ?thesis using True ns(1) new(1) by (intro exI [of _ "ns @ new"]) simp
    next
      case False
      then show ?thesis using other q sub(1) ns(1) old [OF ns(2)] by (intro exI [of _ ns]) auto
    qed
  qed
  then show ?thesis using sub wgrows_ok [OF g] by (auto simp: spreads_def)
qed

lemma spreads_ticks:
  assumes "spreads E nodes w R w'" and "ok_world E nodes w" and "q \<in> nodes (w_heap w)" and "R q = []"
  shows "ticks_of E w' q = ticks_of E w q"
proof -
  have "set (n_children (x_node E (w_heap w) q)) \<subseteq> nodes (w_heap w)"
    using assms(2,3) wf_viewD(2) [of "nodes (w_heap w)" "x_node E (w_heap w)" q] by (simp add: ok_world_def)
  moreover have "n_attrib (x_node E (w_heap w') m) = n_attrib (x_node E (w_heap w) m)" if "m \<in> nodes (w_heap w)" for m
    using assms(1) that by (fastforce simp: spreads_def)
  moreover have "x_node E (w_heap w') q = x_node E (w_heap w) q" using assms(1,3,4) by (fastforce simp: spreads_def)
  ultimately show ?thesis by (auto simp: ticks_of_def)
qed

context etree
begin

lemma runs_front_frame:
  assumes w: "ok_world E nodes w" and c: "c \<in> nodes (w_heap w)"
  shows "runs (bnd (minor_frame E prt t) (xinsert E c 0)) w
     (\<lambda>_ w'. keeps_except E nodes w {c} w' \<and> ticks_of E w' c = Some t # ticks_of E w c)"
proof -
  let ?t = "XT ''minorFrame'' [(''partition'', prt), (''ticks'', t)] None []" and ?kids = "n_children (x_node E (w_heap w) c)"
  have "runs (bnd (minor_frame E prt t) (xinsert E c 0)) w (\<lambda>_. wgrows E nodes w c [] [?t] ?kids)"
    unfolding minor_frame_def runs_bnd by (rule runs_element [OF w]) (auto intro: runs_insert_built [OF _ c])
  then show ?thesis
  proof (rule runs_mono)
    fix w' assume g: "wgrows E nodes w c [] [?t] ?kids w'"
    have "attr_of E w' m k = attr_of E w m k" if "m \<in> set ?kids" for m k
      using wgrows_kid [OF g w that] by simp
    then show "keeps_except E nodes w {c} w' \<and> ticks_of E w' c = Some t # ticks_of E w c"
      using g keeps_except_wgrows [OF g] by (auto simp: ticks_of_def wgrows_def grows_def)
  qed
qed

lemma runs_back_frame:
  assumes w: "ok_world E nodes w" and c: "c \<in> nodes (w_heap w)"
  shows "runs (bnd (minor_frame E prt t) (xappend E c)) w
     (\<lambda>_ w'. keeps_except E nodes w {c} w' \<and> ticks_of E w' c = ticks_of E w c @ [Some t])"
proof -
  let ?t = "XT ''minorFrame'' [(''partition'', prt), (''ticks'', t)] None []" and ?kids = "n_children (x_node E (w_heap w) c)"
  have "runs (bnd (minor_frame E prt t) (xappend E c)) w (\<lambda>_. wadds E nodes w c [?t])"
    unfolding minor_frame_def by (rule runs_element_append [OF w c]) auto
  then show ?thesis
  proof (rule runs_mono)
    fix w' assume g: "wadds E nodes w c [?t] w'"
    have "attr_of E w' m k = attr_of E w m k" if "m \<in> set ?kids" for m k
      using wgrows_kid [OF g w that] by simp
    then show "keeps_except E nodes w {c} w' \<and> ticks_of E w' c = ticks_of E w c @ [Some t]"
      using g keeps_except_wgrows [OF g] by (auto simp: ticks_of_def wgrows_def grows_def)
  qed
qed

lemma runs_set_ticks:
  assumes w: "ok_world E nodes w" and c: "c \<in> nodes (w_heap w)" and law: "xpath_rel_law E [(''minorFrame'', [(''partition'', prt)])]"
    and q: "xwalk (x_node E (w_heap w)) c [(''minorFrame'', [(''partition'', prt)])] = a # r"
  shows "runs (set_ticks E c prt) w (\<lambda>_ w'. ok_world E nodes w' \<and> nodes (w_heap w') = nodes (w_heap w)
     \<and> x_node E (w_heap w') = (x_node E (w_heap w))(a := (x_node E (w_heap w) a)\<lparr>n_attrib := upd_attr ''ticks'' ''1'' (n_attrib (x_node E (w_heap w) a))\<rparr>))"
proof -
  have "x_xpath E (w_heap w) c (''minorFrame[@partition='' @ sq prt @ '']'') = Inr (a # r)"
    using law q by (simp add: xpath_rel_law_def render_path_def render_step_def)
  moreover have "set (a # r) \<subseteq> nodes (w_heap w)"
    unfolding q [symmetric] by (rule xwalk_mem) (use w c in \<open>simp_all add: ok_world_def\<close>)
  ultimately show ?thesis
    using w by (auto simp: set_ticks_def wp xset_def set_view set_nodes ok_world_def intro: wf_view_same_links)
qed

lemma keeps_here: "keeps_except E nodes w S v \<Longrightarrow> c \<in> nodes (w_heap w) \<Longrightarrow> ok_world E nodes v \<and> c \<in> nodes (w_heap v)"
  by (auto simp: keeps_except_def)

lemma runs_forM_frames:
  assumes "ok_world E nodes w" and "c \<in> nodes (w_heap w)"
  shows "runs (forM [0..<k] (\<lambda>i. bnd (minor_frame E prt t) (xinsert E c 0))) w
           (\<lambda>_ w'. keeps_except E nodes w {c} w' \<and> ticks_of E w' c = replicate k (Some t) @ ticks_of E w c)"
    and "runs (forM [0..<k] (\<lambda>i. bnd (minor_frame E prt t) (xappend E c))) w
           (\<lambda>_ w'. keeps_except E nodes w {c} w' \<and> ticks_of E w' c = ticks_of E w c @ replicate k (Some t))"
proof -
  let ?F = "\<lambda>pre w'. keeps_except E nodes w {c} w' \<and> ticks_of E w' c = replicate (length pre) (Some t) @ ticks_of E w c"
  have "runs (forM [0..<k] (\<lambda>i. bnd (minor_frame E prt t) (xinsert E c 0))) w (\<lambda>_. ?F [0..<k])"
  proof (rule runs_forM [of ?F])
    fix pre x post v
    assume I: "?F pre v"
    then show "runs (bnd (minor_frame E prt t) (xinsert E c 0)) v (\<lambda>_. ?F (pre @ [x]))"
      using keeps_here [OF _ assms(2)] keeps_except_trans [of E nodes w "{c}" v "{c}"] by (auto intro!: runs_mono [OF runs_front_frame])
  qed (use assms in \<open>simp add: keeps_except_refl\<close>)
  then show "runs (forM [0..<k] (\<lambda>i. bnd (minor_frame E prt t) (xinsert E c 0))) w
           (\<lambda>_ w'. keeps_except E nodes w {c} w' \<and> ticks_of E w' c = replicate k (Some t) @ ticks_of E w c)" by simp
  let ?B = "\<lambda>pre w'. keeps_except E nodes w {c} w' \<and> ticks_of E w' c = ticks_of E w c @ replicate (length pre) (Some t)"
  have "runs (forM [0..<k] (\<lambda>i. bnd (minor_frame E prt t) (xappend E c))) w (\<lambda>_. ?B [0..<k])"
  proof (rule runs_forM [of ?B])
    fix pre x post v
    assume I: "?B pre v"
    then show "runs (bnd (minor_frame E prt t) (xappend E c)) v (\<lambda>_. ?B (pre @ [x]))"
      using keeps_here [OF _ assms(2)] keeps_except_trans [of E nodes w "{c}" v "{c}"]
      by (auto intro!: runs_mono [OF runs_back_frame] simp: replicate_append_same)
  qed (use assms in \<open>simp add: keeps_except_refl\<close>)
  then show "runs (forM [0..<k] (\<lambda>i. bnd (minor_frame E prt t) (xappend E c))) w
           (\<lambda>_ w'. keeps_except E nodes w {c} w' \<and> ticks_of E w' c = ticks_of E w c @ replicate k (Some t))" by simp
qed

text \<open>Both frames of a CPU set to one tick.\<close>

lemma runs_two_ticks:
  assumes w: "ok_world E nodes w" and c: "c \<in> nodes (w_heap w)"
    and law: "xpath_rel_law E [(''minorFrame'', [(''partition'', ''debugserver'')])]" "xpath_rel_law E [(''minorFrame'', [(''partition'', ''time'')])]"
    and q: "xwalk (x_node E (w_heap w)) c [(''minorFrame'', [(''partition'', ''debugserver'')])] = a # r"
      "xwalk (x_node E (w_heap w)) c [(''minorFrame'', [(''partition'', ''time'')])] = b # s"
  shows "runs (seq (set_ticks E c ''debugserver'') (set_ticks E c ''time'')) w (\<lambda>_ v. keeps_except E nodes w {c} v
     \<and> ticks_of E v c = map (\<lambda>m. if m = a \<or> m = b then Some ''1'' else attr_of E w m ''ticks'') (n_children (x_node E (w_heap w) c)))"
proof -
  let ?f = "x_node E (w_heap w)"
  let ?set = "\<lambda>f n. f(n := (f n)\<lparr>n_attrib := upd_attr ''ticks'' ''1'' (n_attrib (f n))\<rparr>)"
  have wf: "wf_view (nodes (w_heap w)) ?f" using w by (simp add: ok_world_def)
  have par: "n_parent (?f a) = Some c" "n_parent (?f b) = Some c"
    using q wf_viewD(4) [OF wf] by (auto dest!: filter_Cons_mem)
  have walk: "xwalk (?set ?f a) c [(''minorFrame'', [(''partition'', ''time'')])] = b # s"
  proof -
    have "step_ok (?set ?f a) (''minorFrame'', [(''partition'', ''time'')]) = step_ok ?f (''minorFrame'', [(''partition'', ''time'')])"
      by (auto simp: step_ok_def map_of_upd_attr fun_eq_iff)
    moreover have "n_children (?set ?f a c) = n_children (?f c)" by simp
    ultimately show ?thesis using q(2) by simp
  qed
  have two: "runs (set_ticks E c ''time'') v (\<lambda>_ v'. ok_world E nodes v' \<and> nodes (w_heap v') = nodes (w_heap w) \<and> x_node E (w_heap v') = ?set (?set ?f a) b)"
    if v: "ok_world E nodes v \<and> nodes (w_heap v) = nodes (w_heap w) \<and> x_node E (w_heap v) = ?set ?f a" for v
    by (rule runs_mono [OF runs_set_ticks [OF _ _ law(2)]]) (use v walk c in auto)
  show ?thesis
    unfolding runs_bnd [of "set_ticks E c p" for p]
  proof (rule runs_mono [OF runs_set_ticks [OF w c law(1) q(1)]], rule runs_mono [OF two], assumption)
    fix v' assume "ok_world E nodes v' \<and> nodes (w_heap v') = nodes (w_heap w) \<and> x_node E (w_heap v') = ?set (?set ?f a) b"
    with par show "keeps_except E nodes w {c} v'
        \<and> ticks_of E v' c = map (\<lambda>m. if m = a \<or> m = b then Some ''1'' else attr_of E w m ''ticks'') (n_children (?f c))"
      by (auto simp: keeps_except_def ticks_of_def map_of_upd_attr)
  qed
qed

lemma runs_adjust_cpu:
  assumes w: "ok_world E nodes w" and c: "c \<in> nodes (w_heap w)"
    and law: "xpath_rel_law E [(''minorFrame'', [(''partition'', ''debugserver'')])]" "xpath_rel_law E [(''minorFrame'', [(''partition'', ''time'')])]"
    and q: "xwalk (x_node E (w_heap w)) c [(''minorFrame'', [(''partition'', ''debugserver'')])] = a # r"
      "xwalk (x_node E (w_heap w)) c [(''minorFrame'', [(''partition'', ''time'')])] = b # s"
  shows "runs (adjust_cpu E c) w (\<lambda>_ w'. keeps_except E nodes w {c} w' \<and> ticks_of E w' c = replicate 4 (Some ''10'')
     @ map (\<lambda>m. if m = a \<or> m = b then Some ''1'' else attr_of E w m ''ticks'') (n_children (x_node E (w_heap w) c))
     @ replicate 5 (Some ''10'') @ [Some ''8''])"
proof -
  let ?L = "map (\<lambda>m. if m = a \<or> m = b then Some ''1'' else attr_of E w m ''ticks'') (n_children (x_node E (w_heap w) c))"
  let ?K = "\<lambda>ts v. keeps_except E nodes w {c} v \<and> ticks_of E v c = ts"
  have step: "?K ts v'" if "?K us v" "keeps_except E nodes v {c} v' \<and> ticks_of E v' c = ts" for us ts v v'
    using that keeps_except_trans [of E nodes w "{c}" v "{c}" v'] by simp
  have front: "runs (forM [0..<4] (\<lambda>i. bnd (minor_frame E ''linux_core1'' ''10'') (xinsert E c 0))) v (\<lambda>_. ?K (replicate 4 (Some ''10'') @ ?L))"
    if v: "?K ?L v" for v
    by (rule runs_mono [OF runs_forM_frames(1)]) (use keeps_here [OF _ c] v step [OF v] in auto)
  have rear: "runs (forM [0..<5] (\<lambda>i. bnd (minor_frame E ''linux_core1'' ''10'') (xappend E c))) v (\<lambda>_. ?K (replicate 4 (Some ''10'') @ ?L @ replicate 5 (Some ''10'')))"
    if v: "?K (replicate 4 (Some ''10'') @ ?L) v" for v
    by (rule runs_mono [OF runs_forM_frames(2)]) (use keeps_here [OF _ c] v step [OF v] in auto)
  have last: "runs (bnd (minor_frame E ''linux_core1'' ''8'') (xappend E c)) v (\<lambda>_. ?K (replicate 4 (Some ''10'') @ ?L @ replicate 5 (Some ''10'') @ [Some ''8'']))"
    if v: "?K (replicate 4 (Some ''10'') @ ?L @ replicate 5 (Some ''10'')) v" for v
    by (rule runs_mono [OF runs_back_frame]) (use keeps_here [OF _ c] v step [OF v] in auto)
  note two = runs_two_ticks [OF w c law q, unfolded runs_bnd]
  show ?thesis
    unfolding adjust_cpu_def runs_bnd [of "set_ticks E c p" for p] runs_bnd [of "forM xs f" for xs f]
    by (rule runs_mono [OF two], rule runs_mono, assumption, rule runs_mono [OF front], assumption, rule runs_mono [OF rear], assumption, rule last)
qed

text \<open>The CPUs of core one, one after the other; \<open>M\<close> are the major frames they are in.\<close>

lemma runs_adjust_core_one:
  assumes w: "ok_world E nodes w" and dist: "distinct cs" and M: "set cs \<inter> M = {}"
    and cs: "\<And>c. c \<in> set cs \<Longrightarrow> c \<in> nodes (w_heap w) \<and> n_parent (x_node E (w_heap w) c) \<in> Some ` M"
    and law: "xpath_rel_law E [(''minorFrame'', [(''partition'', ''debugserver'')])]" "xpath_rel_law E [(''minorFrame'', [(''partition'', ''time'')])]"
    and q: "\<And>c. c \<in> set cs \<Longrightarrow> \<exists>r. xwalk (x_node E (w_heap w)) c [(''minorFrame'', [(''partition'', ''debugserver'')])] = a c # r"
      "\<And>c. c \<in> set cs \<Longrightarrow> \<exists>r. xwalk (x_node E (w_heap w)) c [(''minorFrame'', [(''partition'', ''time'')])] = b c # r"
  shows "runs (adjust_core_one E cs) w (\<lambda>_ w'. keeps_except E nodes w (set cs) w'
     \<and> (\<forall>c \<in> set cs. ticks_of E w' c = core_one_ticks E w (a c) (b c) c))"
proof -
  let ?f = "x_node E (w_heap w)" and ?T = "\<lambda>c. core_one_ticks E w (a c) (b c) c"
  let ?I = "\<lambda>pre v. keeps_except E nodes w (set pre) v \<and> (\<forall>c \<in> set pre. ticks_of E v c = ?T c)"
  have wf: "wf_view (nodes (w_heap w)) ?f" using w by (simp add: ok_world_def)
  have "runs (forM cs (adjust_cpu E)) w (\<lambda>_. ?I cs)"
  proof (rule runs_forM [of ?I])
    show "?I [] w" using w by (simp add: keeps_except_refl)
  next
    fix pre c post v
    assume split: "cs = pre @ c # post" and I: "?I pre v"
    have c: "c \<in> set cs" "c \<notin> set pre" "set pre \<subseteq> set cs" using split dist by auto
    have v: "ok_world E nodes v" "c \<in> nodes (w_heap v)" using I cs [OF c(1)] by (auto simp: keeps_except_def)
    have "m \<notin> set pre" if "m \<in> set (n_children (?f c))" for m
      using that wf_viewD(4) [OF wf, of m c] cs [of m] M c(1,3) by auto
    then have kids: "set (n_children (?f c)) \<inter> set pre = {}" by auto
    have par: "n_parent (?f c) \<notin> Some ` set pre" using cs [OF c(1)] M c(3) by auto
    note same = keeps_except_ticks [OF conjunct1 [OF I] w conjunct1 [OF cs [OF c(1)]] c(2) par kids]
    have walk: "xwalk (x_node E (w_heap v)) c [st] = xwalk ?f c [st]" for st
      using same(1,3) by (auto simp: step_ok_def cong: filter_cong)
    obtain r1 r2 where qs: "xwalk ?f c [(''minorFrame'', [(''partition'', ''debugserver'')])] = a c # r1" "xwalk ?f c [(''minorFrame'', [(''partition'', ''time'')])] = b c # r2"
      using q [OF c(1)] by blast
    have T: "core_one_ticks E v (a c) (b c) c = ?T c" using same(1,3) by (simp add: core_one_ticks_def)
    show "runs (adjust_cpu E c) v (\<lambda>_. ?I (pre @ [c]))"
    proof (rule runs_mono [OF runs_adjust_cpu [OF v law, unfolded walk, OF qs, folded core_one_ticks_def, unfolded T]])
      fix v' assume v': "keeps_except E nodes v {c} v' \<and> ticks_of E v' c = ?T c"
      have "ticks_of E v' d = ticks_of E v d" if d: "d \<in> set pre" for d
      proof (rule keeps_except_ticks(2) [OF conjunct1 [OF v'] v(1)])
        have dn: "d \<in> nodes (w_heap w)" "n_parent (?f d) \<in> Some ` M" "d \<in> set cs" using cs [of d] c(3) d by auto
        then show "d \<in> nodes (w_heap v)" using I by (auto simp: keeps_except_def)
        show "d \<notin> {c}" using c(2) d by auto
        have "n_parent (x_node E (w_heap v) d) = n_parent (?f d)" "n_parent (x_node E (w_heap v) c) = n_parent (?f c)"
          using I dn(1) cs [OF c(1)] by (auto simp: keeps_except_def)
        then show "n_parent (x_node E (w_heap v) d) \<notin> Some ` {c}" "set (n_children (x_node E (w_heap v) d)) \<inter> {c} = {}"
          using dn(2,3) cs [OF c(1)] M c(1) wf_viewD(4) [of "nodes (w_heap v)" "x_node E (w_heap v)" c d] v(1) by (auto simp: ok_world_def)
      qed
      then show "?I (pre @ [c]) v'" using I v' keeps_except_trans [of E nodes w "set pre" v "{c}" v'] by auto
    qed
  qed
  then show ?thesis by (simp add: adjust_core_one_def)
qed

lemma runs_additional_cpu:
  assumes w: "ok_world E nodes w" and m: "m \<in> nodes (w_heap w)"
  shows "runs (additional_cpu E i m) w (\<lambda>_. wadds E nodes w m [cpu_tree i])"
proof -
  let ?frame = "XT ''minorFrame'' [(''partition'', ''linux_core'' @ str_int i), (''ticks'', ''10'')] None []"
  let ?body = "\<lambda>cpu (j :: nat). seq (subelement E cpu ''minorFrame'' [(''partition'', PStr (''linux_core'' @ str_int i)), (''ticks'', PStr ''10'')]) (ret ())"
  have frames: "runs (forM [0..<10] (?body cpu)) v (\<lambda>_ v'. wbuilds E nodes w cpu (cpu_tree i) v')"
    if b: "wbuilds E nodes w cpu (XT ''cpu'' [(''id'', str_int i)] None []) v" for cpu v
  proof -
    have "runs (forM [0..<10] (?body cpu)) v (\<lambda>_. wadds E nodes v cpu (map (\<lambda>_. ?frame) [0..<10]))"
      by (rule runs_forM_cores_single [OF wbuilds_ok [OF b] wbuilds_mem [OF b]]) (auto simp: wp intro!: runs_subelement)
    then show ?thesis
      by (rule runs_mono) (drule wbuilds_nested [OF b], simp add: cpu_tree_def map_replicate_const)
  qed
  show ?thesis
    unfolding additional_cpu_def runs_bnd
    by (rule runs_element [OF w], simp) (rule runs_mono [OF frames [unfolded runs_bnd]], auto intro: runs_append_built [OF _ m])
qed

lemma runs_additional_cpus:
  assumes w: "ok_world E nodes w" and ms: "set ms \<subseteq> nodes (w_heap w)" and dist: "distinct ms"
  shows "runs (create_additional_cores E cores ms) w (\<lambda>_. spreads E nodes w (\<lambda>m. if m \<in> set ms then map cpu_tree [2..cores] else []))"
proof -
  have inner: "runs (forM ms (additional_cpu E i)) v (\<lambda>_. spreads E nodes w (\<lambda>m. if m \<in> set ms then map cpu_tree (pre @ [i]) else []))"
    if v: "spreads E nodes w (\<lambda>m. if m \<in> set ms then map cpu_tree pre else []) v" for pre i v
  proof -
    let ?J = "\<lambda>js v. spreads E nodes w (\<lambda>m. if m \<in> set ms then map cpu_tree pre @ (if m \<in> set js then [cpu_tree i] else []) else []) v"
    have "runs (forM ms (additional_cpu E i)) v (\<lambda>_. ?J ms)"
    proof (rule runs_forM [of ?J])
      fix js m post v
      assume split: "ms = js @ m # post" and J: "?J js v"
      then have m: "m \<in> set ms" "m \<notin> set js" "m \<in> nodes (w_heap w)" using dist ms by auto
      have "ok_world E nodes v" "m \<in> nodes (w_heap v)" using J m(3) by (auto simp: spreads_def)
      then have "runs (additional_cpu E i m) v (\<lambda>_. wadds E nodes v m [cpu_tree i])" by (rule runs_additional_cpu)
      then show "runs (additional_cpu E i m) v (\<lambda>_. ?J (js @ [m]))"
      proof (rule runs_mono)
        fix v' assume "wadds E nodes v m [cpu_tree i] v'"
        from spreads_step [OF J m(3) this] show "?J (js @ [m]) v'"
          by (rule spreads_cong) (use m in auto)
      qed
    qed (use v in \<open>auto elim: spreads_cong\<close>)
    then show ?thesis by (rule runs_mono) (auto elim: spreads_cong)
  qed
  let ?I = "\<lambda>pre v. spreads E nodes w (\<lambda>m. if m \<in> set ms then map cpu_tree pre else []) v"
  have "runs (forM [2..cores] (\<lambda>i. forM ms (additional_cpu E i))) w (\<lambda>_. ?I [2..cores])"
    by (rule runs_forM [of ?I]) (use w inner in \<open>auto simp: spreads_refl cong: if_cong\<close>)
  then show ?thesis by (simp add: create_additional_cores_def)
qed

end

lemma sum_replaced:
  fixes g :: "'n \<Rightarrow> int"
  assumes "distinct cs" and "a \<in> set cs" and "b \<in> set cs" and "a \<noteq> b"
  shows "sum_list (map (\<lambda>m. if m = a \<or> m = b then 1 else g m) cs) = 2 + sum_list (map g (filter (\<lambda>m. m \<noteq> a \<and> m \<noteq> b) cs))"
proof -
  have split: "sum_list (map (\<lambda>m. if m = a \<or> m = b then 1 else g m) xs) =
      int (length (filter (\<lambda>m. m = a \<or> m = b) xs)) + sum_list (map g (filter (\<lambda>m. m \<noteq> a \<and> m \<noteq> b) xs))" for xs
    by (induction xs) auto
  have "length (filter (\<lambda>m. m = a \<or> m = b) cs) = card (set (filter (\<lambda>m. m = a \<or> m = b) cs))"
    using assms(1) by (metis distinct_card distinct_filter)
  also have "set (filter (\<lambda>m. m = a \<or> m = b) cs) = {a, b}" using assms(2,3) by auto
  finally show ?thesis using split [of cs] assms(4) by simp
qed

lemma core_one_total:
  assumes w: "ok_world E nodes w" and q: "xwalk (x_node E (w_heap w)) c [(''minorFrame'', [(''partition'', ''debugserver'')])] = a # r"
      "xwalk (x_node E (w_heap w)) c [(''minorFrame'', [(''partition'', ''time'')])] = b # s"
  shows "sum_list (map tick_value (core_one_ticks E w a b c)) =
     100 + sum_list (map (\<lambda>k. tick_value (attr_of E w k ''ticks'')) (filter (\<lambda>k. k \<noteq> a \<and> k \<noteq> b) (n_children (x_node E (w_heap w) c))))"
proof -
  let ?f = "x_node E (w_heap w)" and ?cs = "n_children (x_node E (w_heap w) c)"
  have mem: "a \<in> set ?cs" "step_ok ?f (''minorFrame'', [(''partition'', ''debugserver'')]) a"
    "b \<in> set ?cs" "step_ok ?f (''minorFrame'', [(''partition'', ''time'')]) b"
    using q by (auto dest: filter_Cons_mem filter_Cons_holds)
  then have "a \<noteq> b" by (auto simp: step_ok_def)
  moreover have "distinct ?cs" by (rule wf_viewD(1)) (use w in \<open>simp add: ok_world_def\<close>)
  ultimately have "sum_list (map (\<lambda>k. if k = a \<or> k = b then 1 else tick_value (attr_of E w k ''ticks'')) ?cs) =
      2 + sum_list (map (\<lambda>k. tick_value (attr_of E w k ''ticks'')) (filter (\<lambda>k. k \<noteq> a \<and> k \<noteq> b) ?cs))"
    using mem by (intro sum_replaced)
  moreover have "map tick_value (map (\<lambda>k. if k = a \<or> k = b then Some ''1'' else attr_of E w k ''ticks'') ?cs) =
      map (\<lambda>k. if k = a \<or> k = b then 1 else tick_value (attr_of E w k ''ticks'')) ?cs" by simp
  ultimately show ?thesis by (simp add: core_one_ticks_def sum_list_replicate del: map_map)
qed

lemma cpu_tree_ticks:
  assumes "has_tree S (x_node E (w_heap w)) n (cpu_tree i)"
  shows "attr_of E w n ''id'' = Some (str_int i)" and "sum_list (map tick_value (ticks_of E w n)) = 100"
proof -
  have "map (\<lambda>m. attr_of E w m ''ticks'') ns = replicate k (Some ''10'')"
    if "has_trees S (x_node E (w_heap w)) ns (replicate k (XT ''minorFrame'' [(''partition'', p), (''ticks'', ''10'')] None []))" for ns k p
    using that by (induction k arbitrary: ns) auto
  from this [of _ 10] assms have "ticks_of E w n = replicate 10 (Some ''10'')"
    unfolding ticks_of_def cpu_tree_def has_tree.simps by blast
  then show "sum_list (map tick_value (ticks_of E w n)) = 100" by (simp add: sum_list_replicate)
  show "attr_of E w n ''id'' = Some (str_int i)" using assms by (simp add: cpu_tree_def)
qed

lemma spreads_cpus:
  assumes "spreads E nodes v R w'" and "m \<in> nodes (w_heap v)" and "R m = map cpu_tree is"
  obtains ns where "n_children (x_node E (w_heap w') m) = n_children (x_node E (w_heap v) m) @ ns"
    and "map (\<lambda>n. attr_of E w' n ''id'') ns = map (\<lambda>i. Some (str_int i)) is"
    and "\<forall>n \<in> set ns. sum_list (map tick_value (ticks_of E w' n)) = 100"
proof -
  let ?S = "nodes (w_heap w') - nodes (w_heap v)" and ?f = "x_node E (w_heap w')"
  have trees: "map (\<lambda>n. attr_of E w' n ''id'') ns = map (\<lambda>i. Some (str_int i)) js
      \<and> (\<forall>n \<in> set ns. sum_list (map tick_value (ticks_of E w' n)) = 100)"
    if "has_trees ?S ?f ns (map cpu_tree js)" for ns js
    using that by (induction js arbitrary: ns) (auto dest: cpu_tree_ticks)
  obtain ns where "?f m = (x_node E (w_heap v) m)\<lparr>n_children := n_children (x_node E (w_heap v) m) @ ns\<rparr>" "has_trees ?S ?f ns (map cpu_tree is)"
    using assms unfolding spreads_def by metis
  with trees show ?thesis by (intro that [of ns]) auto
qed

text \<open>The two scheduling steps together: \<open>ms\<close> are the major frames, which are not nested, \<open>cs\<close> CPUs in them.\<close>

definition cpus_in :: "('h, 'n) lxml \<Rightarrow> ('h \<Rightarrow> 'n set) \<Rightarrow> 'h world \<Rightarrow> 'n list \<Rightarrow> 'n list \<Rightarrow> bool" where
  "cpus_in E nodes w ms cs \<longleftrightarrow> distinct ms \<and> distinct cs \<and> set ms \<union> set cs \<subseteq> nodes (w_heap w)
     \<and> (\<forall>m \<in> set ms. n_parent (x_node E (w_heap w) m) \<notin> Some ` (set ms \<union> set cs))
     \<and> (\<forall>c \<in> set cs. n_parent (x_node E (w_heap w) c) \<in> Some ` set ms)"

lemma cpus_inD:
  assumes "cpus_in E nodes w ms cs" and "ok_world E nodes w"
  shows "set cs \<inter> set ms = {}"
    and "\<And>m c. m \<in> set ms \<Longrightarrow> c \<in> set (n_children (x_node E (w_heap w) m)) \<Longrightarrow>
           c \<in> nodes (w_heap w) \<and> n_parent (x_node E (w_heap w) c) = Some m \<and> c \<notin> set ms"
proof -
  have wf: "wf_view (nodes (w_heap w)) (x_node E (w_heap w))" using assms(2) by (simp add: ok_world_def)
  have "n_parent (x_node E (w_heap w) x) \<in> Some ` set ms" "n_parent (x_node E (w_heap w) x) \<notin> Some ` set ms"
    if "x \<in> set cs" "x \<in> set ms" for x
    using assms(1) that by (auto simp: cpus_in_def image_Un)
  then show "set cs \<inter> set ms = {}" by blast
  show "c \<in> nodes (w_heap w) \<and> n_parent (x_node E (w_heap w) c) = Some m \<and> c \<notin> set ms"
    if "m \<in> set ms" "c \<in> set (n_children (x_node E (w_heap w) m))" for m c
    using that assms(1) wf_viewD(2) [OF wf, of m] wf_viewD(4) [OF wf, of c m] by (auto simp: cpus_in_def)
qed

lemma other_cpu_ticks:
  assumes k: "keeps_except E nodes w (set cs) v" and w: "ok_world E nodes w" and cp: "cpus_in E nodes w ms cs"
    and m: "m \<in> set ms" and c: "c \<in> set (n_children (x_node E (w_heap w) m))" "c \<notin> set cs"
  shows "ticks_of E v c = ticks_of E w c"
proof (rule keeps_except_ticks(2) [OF k w])
  have wf: "wf_view (nodes (w_heap w)) (x_node E (w_heap w))" using w by (simp add: ok_world_def)
  have cn: "c \<in> nodes (w_heap w)" "n_parent (x_node E (w_heap w) c) = Some m" "c \<notin> set ms" using cpus_inD(2) [OF cp w m c(1)] by auto
  then show "c \<in> nodes (w_heap w)" "c \<notin> set cs" "n_parent (x_node E (w_heap w) c) \<notin> Some ` set cs"
    using c(2) m cpus_inD(1) [OF cp w] by auto
  have "k \<notin> set cs" if "k \<in> set (n_children (x_node E (w_heap w) c))" for k
    using that wf_viewD(4) [OF wf, of k c] cp cn(3) by (auto simp: cpus_in_def)
  then show "set (n_children (x_node E (w_heap w) c)) \<inter> set cs = {}" by auto
qed

text \<open>C25. The ticks of the CPU elements of the major frames \<open>ms\<close> after the two scheduling steps, where \<open>cs\<close> are those of core 1:
  each CPU of core 1 has 100 ticks besides those of its frames other than the debug server's and the time subject's;
  every other CPU of the policy keeps its ticks; and every major frame gets, behind its CPUs and in order, one CPU
  for each further core, with 100 ticks.\<close>

theorem smp_ticks_balanced:
  assumes "etree E nodes" and "ok_world E nodes w" and "cpus_in E nodes w ms cs"
    and laws: "xpath_rel_law E [(''minorFrame'', [(''partition'', ''debugserver'')])]" "xpath_rel_law E [(''minorFrame'', [(''partition'', ''time'')])]"
    and frames: "\<And>c. c \<in> set cs \<Longrightarrow> \<exists>r. xwalk (x_node E (w_heap w)) c [(''minorFrame'', [(''partition'', ''debugserver'')])] = a c # r"
      "\<And>c. c \<in> set cs \<Longrightarrow> \<exists>r. xwalk (x_node E (w_heap w)) c [(''minorFrame'', [(''partition'', ''time'')])] = b c # r"
  shows "runs (seq (adjust_core_one E cs) (create_additional_cores E cores ms)) w (\<lambda>_ w'.
       (\<forall>c \<in> set cs. sum_list (map tick_value (ticks_of E w' c)) =
          100 + sum_list (map (\<lambda>k. tick_value (attr_of E w k ''ticks'')) (filter (\<lambda>k. k \<noteq> a c \<and> k \<noteq> b c) (n_children (x_node E (w_heap w) c)))))
     \<and> (\<forall>m \<in> set ms. \<forall>c \<in> set (n_children (x_node E (w_heap w) m)) - set cs. ticks_of E w' c = ticks_of E w c)
     \<and> (\<forall>m \<in> set ms. \<exists>ns. n_children (x_node E (w_heap w') m) = n_children (x_node E (w_heap w) m) @ ns
          \<and> map (\<lambda>n. attr_of E w' n ''id'') ns = map (\<lambda>i. Some (str_int i)) [2..cores]
          \<and> (\<forall>n \<in> set ns. sum_list (map tick_value (ticks_of E w' n)) = 100)))"
    (is "runs _ w (\<lambda>_ w'. (\<forall>c \<in> _. ?one w' c) \<and> (\<forall>m \<in> _. \<forall>c \<in> _ m. ?other w' c) \<and> (\<forall>m \<in> _. ?new w' m))")
proof -
  let ?f = "x_node E (w_heap w)" and ?R = "\<lambda>m. if m \<in> set ms then map cpu_tree [2..cores] else []"
  note cp = assms(3) note M = cpus_inD(1) [OF cp assms(2)]
  have mc: "distinct ms" "distinct cs" "set ms \<subseteq> nodes (w_heap w)" "\<And>c. c \<in> set cs \<Longrightarrow> c \<in> nodes (w_heap w) \<and> n_parent (?f c) \<in> Some ` set ms"
    using cp by (auto simp: cpus_in_def)
  have goal: "(\<forall>c \<in> set cs. ?one w' c) \<and> (\<forall>m \<in> set ms. \<forall>c \<in> set (n_children (?f m)) - set cs. ?other w' c) \<and> (\<forall>m \<in> set ms. ?new w' m)"
    if k: "keeps_except E nodes w (set cs) v" and t: "\<forall>c \<in> set cs. ticks_of E v c = core_one_ticks E w (a c) (b c) c"
      and sp: "spreads E nodes v ?R w'" for v w'
  proof (intro conjI ballI)
    have ok: "ok_world E nodes v" and sub: "nodes (w_heap w) \<subseteq> nodes (w_heap v)" using k by (auto simp: keeps_except_def)
    have old: "ticks_of E w' c = ticks_of E v c" if "c \<in> nodes (w_heap w)" "c \<notin> set ms" for c
      by (rule spreads_ticks [OF sp ok]) (use that sub in auto)
    show "?one w' c" if c: "c \<in> set cs" for c
    proof -
      have "ticks_of E w' c = core_one_ticks E w (a c) (b c) c" using old [of c] mc(4) [OF c] M c t by auto
      then show ?thesis using core_one_total [OF assms(2)] frames [OF c] by fastforce
    qed
    show "?other w' c" if "m \<in> set ms" "c \<in> set (n_children (?f m)) - set cs" for m c
      using that old [of c] cpus_inD(2) [OF cp assms(2), of m c] other_cpu_ticks [OF k assms(2) cp, of m c] by simp
    show "?new w' m" if m: "m \<in> set ms" for m
    proof -
      have "m \<notin> set cs" "m \<in> nodes (w_heap w)" "n_parent (?f m) \<notin> Some ` set cs" using m M cp by (auto simp: cpus_in_def image_Un)
      then have same: "x_node E (w_heap v) m = ?f m" and mv: "m \<in> nodes (w_heap v)" using k sub by (auto simp: keeps_except_def)
      from m have "?R m = map cpu_tree [2..cores]" by simp
      then obtain ns where "n_children (x_node E (w_heap w') m) = n_children (x_node E (w_heap v) m) @ ns"
        "map (\<lambda>n. attr_of E w' n ''id'') ns = map (\<lambda>i. Some (str_int i)) [2..cores]"
        "\<forall>n \<in> set ns. sum_list (map tick_value (ticks_of E w' n)) = 100"
        by (rule spreads_cpus [OF sp mv])
      then show ?thesis unfolding same by (intro exI [of _ ns] conjI)
    qed
  qed
  note one = etree.runs_adjust_core_one [OF assms(1,2) mc(2) M mc(4) laws frames]
  note new = etree.runs_additional_cpus [OF assms(1) _ _ mc(1)]
  show ?thesis
    unfolding runs_bnd
    by (rule runs_mono [OF one], assumption, assumption, assumption, elim conjE, rule runs_mono [OF new])
      (use mc(3) goal in \<open>auto simp: keeps_except_def\<close>)
qed

definition demo_schedule :: "nat xnode list" where
  "demo_schedule =
     [nd ''majorFrame'' [] [1] None, nd ''cpu'' [(''id'', ''1'')] [2, 3] (Some 0),
      nd ''minorFrame'' [(''partition'', ''time''), (''ticks'', ''10'')] [] (Some 1),
      nd ''minorFrame'' [(''partition'', ''debugserver''), (''ticks'', ''90'')] [] (Some 1)]"

definition frame_path :: "string \<Rightarrow> xstep list" where
  "frame_path prt = [(''minorFrame'', [(''partition'', prt)])]"

abbreviation demo_schedule_lxml :: "(rheap, nat) lxml" where
  "demo_schedule_lxml \<equiv> ref_lxml (\<lambda>_. None) (rel_query [frame_path ''debugserver'', frame_path ''time''])"

lemma demo_schedule_laws:
  "xpath_rel_law demo_schedule_lxml [(''minorFrame'', [(''partition'', ''debugserver'')])]"
  "xpath_rel_law demo_schedule_lxml [(''minorFrame'', [(''partition'', ''time'')])]"
  by (rule rel_query_law; auto simp: frame_path_def render_path_def render_step_def sq_def)+

lemma demo_schedule_frames:
  "table_ok demo_schedule" "xwalk (table_view demo_schedule) 1 [(''minorFrame'', [(''partition'', ''debugserver'')])] = [3]"
  "xwalk (table_view demo_schedule) 1 [(''minorFrame'', [(''partition'', ''time'')])] = [2]"
  "n_children (table_view demo_schedule 1) = [2, 3]" "length demo_schedule = 4"
  by code_simp+

lemma demo_schedule_cpus: "cpus_in demo_schedule_lxml ref_nodes (table_world demo_schedule) [0] [1]"
proof -
  have "n_parent (table_view demo_schedule 0) = None" "n_parent (table_view demo_schedule 1) = Some 0" by code_simp+
  then show ?thesis using demo_schedule_frames(5) by (simp add: cpus_in_def)
qed

theorem smp_ticks_balanced_witness:
  "runs (seq (adjust_core_one demo_schedule_lxml [1]) (create_additional_cores demo_schedule_lxml 3 [0])) (table_world demo_schedule)
     (\<lambda>_ w'. sum_list (map tick_value (ticks_of demo_schedule_lxml w' 1)) = 100
        \<and> (\<exists>m n. n_children (x_node demo_schedule_lxml (w_heap w') 0) = [1, m, n]
            \<and> sum_list (map tick_value (ticks_of demo_schedule_lxml w' n)) = 100))"
proof -
  have frames: "\<exists>r. xwalk (x_node demo_schedule_lxml (w_heap (table_world demo_schedule))) c [(''minorFrame'', [(''partition'', ''debugserver'')])] = 3 # r"
    "\<exists>r. xwalk (x_node demo_schedule_lxml (w_heap (table_world demo_schedule))) c [(''minorFrame'', [(''partition'', ''time'')])] = 2 # r"
    if "c \<in> set [1]" for c
    using that demo_schedule_frames(2,3) by simp_all
  have kids: "n_children (table_view demo_schedule 0) = [1]" by code_simp
  have len: "length ns = 2" if "map g ns = map h [2..3]" for g h and ns :: "nat list"
    using arg_cong [OF that, of length] by simp
  note run = smp_ticks_balanced [OF ref.etree_axioms ok_table_world [OF demo_schedule_frames(1)] demo_schedule_cpus demo_schedule_laws frames, of 3]
  show ?thesis
    by (rule runs_mono [OF run])
      (use kids demo_schedule_frames(4) in \<open>auto simp del: One_nat_def upto_rec_numeral dest!: len simp: numeral_2_eq_2 length_Suc_conv\<close>)
qed

end
