(* ===== verification/Smp_Devices.thy ===== *)
theory Smp_Devices
  imports Smp_Schedule
begin

text \<open>
  The distribution of the devices in \<^verbatim>\<open>policy/xml/smp/smpify.py\<close>: taken from the Linux subject and
  dealt out to all Linux subjects in turn.
\<close>

text \<open>In \<open>f'\<close> the nodes of \<open>D\<close> are gone from where \<open>f\<close> has them, and \<open>S q\<close> is appended to each \<open>q\<close>.\<close>

definition dealt :: "'n view \<Rightarrow> 'n set \<Rightarrow> ('n \<Rightarrow> 'n list) \<Rightarrow> 'n view \<Rightarrow> bool" where
  "dealt f D S f' \<longleftrightarrow>
     (\<forall>q. n_tag (f' q) = n_tag (f q) \<and> n_attrib (f' q) = n_attrib (f q) \<and> n_text (f' q) = n_text (f q)
          \<and> n_children (f' q) = filter (\<lambda>c. c \<notin> D) (n_children (f q)) @ S q)"

lemma dealt_detach:
  assumes "dealt f D (\<lambda>_. []) f'"
  shows "dealt f (insert d D) (\<lambda>_. []) (detach d f')"
  using assms by (auto simp: dealt_def detach_def removeAll_filter_not_eq intro!: filter_cong)

lemma dealt_attach:
  assumes "dealt f D S f'" and "d \<in> D" and "\<And>q. d \<notin> set (S q)"
  shows "dealt f D (S(p := S p @ [d])) (attach_last p d f')"
proof -
  have "d \<notin> set (n_children (f' q))" for q using assms by (auto simp: dealt_def)
  then have "removeAll d (n_children (f' q)) = n_children (f' q)" for q by simp
  then show ?thesis
    using assms(1) by (auto simp: dealt_def attach_last_def attach_def detach_def Let_def)
qed

lemma dealt_may_attach:
  assumes d: "dealt f D S f'" and T: "\<And>q. S q \<noteq> [] \<Longrightarrow> q \<in> T" and ok: "\<And>t. t \<in> T \<Longrightarrow> may_attach f t n" and p: "p \<in> T"
  shows "may_attach f' p n"
proof -
  have "(n, q) \<in> (child_rel f)\<^sup>*" if "(n, q) \<in> (child_rel f')\<^sup>*" for q
    using that
  proof (induction rule: rtrancl_induct)
    case (step y z)
    have "S y = []" using T [of y] ok [of y] step.IH by (auto simp: may_attach_def)
    then have "z \<in> set (n_children (f y))" using step.hyps(2) d by (auto simp: child_rel_def dealt_def)
    then have "(y, z) \<in> child_rel f" by (simp add: child_rel_def)
    with step.IH show ?case by (rule rtrancl.rtrancl_into_rtrancl)
  qed simp
  then show ?thesis using ok [OF p] by (auto simp: may_attach_def)
qed

text \<open>The devices dealt to the section \<open>q\<close> after \<open>k\<close> of them.\<close>

definition shares :: "'n list \<Rightarrow> ('n \<Rightarrow> 'n) \<Rightarrow> 'n list \<Rightarrow> nat \<Rightarrow> 'n \<Rightarrow> 'n list" where
  "shares subjs sec devs k q = map (\<lambda>i. devs ! i) (filter (\<lambda>i. sec (subjs ! (i mod length subjs)) = q) [0..<k])"

lemma shares_Suc:
  "shares subjs sec devs (Suc k) =
     (shares subjs sec devs k)(sec (subjs ! (k mod length subjs)) := shares subjs sec devs k (sec (subjs ! (k mod length subjs))) @ [devs ! k])"
  by (rule ext) (auto simp: shares_def)

lemma shares_fresh: "distinct devs \<Longrightarrow> k < length devs \<Longrightarrow> devs ! k \<notin> set (shares subjs sec devs k q)"
  by (auto simp: shares_def nth_eq_iff_index_eq)

context etree
begin

lemma runs_remove_devices:
  assumes w: "ok_world E nodes w" and devs: "distinct devs" "\<And>d. d \<in> set devs \<Longrightarrow> n_parent (x_node E (w_heap w) d) \<noteq> None"
  shows "runs (forM devs (remove_device E)) w (\<lambda>_ v. nodes (w_heap v) = nodes (w_heap w) \<and> same_fs w v
     \<and> dealt (x_node E (w_heap w)) (set devs) (\<lambda>_. []) (x_node E (w_heap v)))"
proof -
  let ?f = "x_node E (w_heap w)"
  let ?I = "\<lambda>pre v. nodes (w_heap v) = nodes (w_heap w) \<and> same_fs w v \<and> dealt ?f (set pre) (\<lambda>_. []) (x_node E (w_heap v))
     \<and> (\<forall>q. q \<notin> set pre \<longrightarrow> n_parent (x_node E (w_heap v) q) = n_parent (?f q))"
  have "runs (forM devs (remove_device E)) w (\<lambda>_. ?I devs)"
  proof (rule runs_forM)
    show "?I [] w" by (simp add: dealt_def)
  next
    fix pre d post v
    assume split: "devs = pre @ d # post" and I: "?I pre v"
    have d: "d \<notin> set pre" using devs(1) split by auto
    obtain p where p: "n_parent (?f d) = Some p" using devs(2) [of d] split by auto
    have wf: "wf_view (nodes (w_heap w)) ?f" using w by (simp add: ok_world_def)
    have "d \<in> set (n_children (?f p))" using wf_viewD(4) [OF wf] p by simp
    then have kid: "d \<in> set (n_children (x_node E (w_heap v) p))" using I d by (simp add: dealt_def)
    have "p \<in> nodes (w_heap v)" using wf_viewD(3) [OF wf, of p] \<open>d \<in> set (n_children (?f p))\<close> I by auto
    then have rm: "x_node E (x_remove E p d (w_heap v)) = detach d (x_node E (w_heap v))" "nodes (x_remove E p d (w_heap v)) = nodes (w_heap v)"
      using remove_view [OF _ kid] remove_nodes by auto
    have "n_parent (x_node E (w_heap v) d) = Some p" using I d p by simp
    then show "runs (remove_device E d) v (\<lambda>_. ?I (pre @ [d]))"
      using I kid dealt_detach [of ?f "set pre" "x_node E (w_heap v)" d]
      by (auto simp: remove_device_def wp xremove_def rm) (auto simp: detach_def)
  qed
  then show ?thesis by (rule runs_mono) auto
qed

lemma runs_assign_devices:
  assumes v: "dealt f (set devs) (\<lambda>_. []) (x_node E (w_heap v))" and mem: "set devs \<subseteq> nodes (w_heap v)" and dist: "distinct devs"
    and law: "xpath_rel_law E [(''devices'', [])]" and tags: "\<And>d. d \<in> set devs \<Longrightarrow> n_tag (f d) = ''device''"
    and subj: "\<And>s. s \<in> set subjs \<Longrightarrow> n_tag (f s) = ''subject'' \<and> sec s \<in> nodes (w_heap v) \<and> (\<exists>r. xwalk f s [(''devices'', [])] = sec s # r)"
    and ok: "\<And>s d. s \<in> set subjs \<Longrightarrow> d \<in> set devs \<Longrightarrow> may_attach f (sec s) d" and ne: "subjs \<noteq> []"
  shows "runs (foldM (assign_device E subjs) 0 devs) v (\<lambda>_ v'. dealt f (set devs) (shares subjs sec devs (length devs)) (x_node E (w_heap v')) \<and> same_fs v v')"
proof -
  let ?n = "length subjs"
  let ?I = "\<lambda>pre cur v'. cur = length pre mod ?n \<and> nodes (w_heap v') = nodes (w_heap v) \<and> same_fs v v'
     \<and> dealt f (set devs) (shares subjs sec devs (length pre)) (x_node E (w_heap v'))"
  have sec_tag: "n_tag (f (sec s)) = ''devices''" if "s \<in> set subjs" for s
    using subj [OF that] by (auto dest!: filter_Cons_holds simp: step_ok_def)
  have share: "shares subjs sec devs k q \<noteq> [] \<Longrightarrow> q \<in> sec ` set subjs" for k q
    using ne by (auto simp: shares_def filter_empty_conv)
  have "runs (foldM (assign_device E subjs) 0 devs) v (?I devs)"
  proof (rule runs_foldM [of ?I])
    show "?I [] 0 v" using v by (simp add: shares_def [abs_def])
  next
    fix pre d post cur v'
    assume split: "devs = pre @ d # post" and I: "?I pre cur v'"
    let ?k = "length pre" let ?s = "subjs ! (?k mod ?n)" and ?g = "x_node E (w_heap v')"
    have d: "d = devs ! ?k" "?k < length devs" "d \<in> set devs" using split by auto
    have s: "?s \<in> set subjs" "?k mod ?n < ?n" using ne by auto
    have S: "shares subjs sec devs ?k ?s = []"
      using share [of ?k ?s] subj [OF s(1)] sec_tag by fastforce
    have step: "step_ok ?g (''devices'', []) = step_ok f (''devices'', [])" using I by (auto simp: dealt_def step_ok_def fun_eq_iff)
    have "filter (step_ok f (''devices'', [])) (filter (\<lambda>c. c \<notin> set devs) cs) = filter (step_ok f (''devices'', [])) cs" for cs
      using tags by (auto simp: step_ok_def intro!: filter_cong)
    then have walk: "xwalk ?g ?s [(''devices'', [])] = xwalk f ?s [(''devices'', [])]"
      using I S step by (simp add: dealt_def)
    obtain r where r: "xwalk f ?s [(''devices'', [])] = sec ?s # r" using subj [OF s(1)] by blast
    have q: "x_xpath E (w_heap v') ?s ''devices'' = Inr (sec ?s # r)"
      using law walk r by (simp add: xpath_rel_law_def render_path_def render_step_def)
    have att: "may_attach ?g (sec ?s) d"
      by (rule dealt_may_attach [where T = "sec ` set subjs"]) (use I share ok d s in auto)
    have n: "sec ?s \<in> nodes (w_heap v')" "d \<in> nodes (w_heap v')" using I subj [OF s(1)] mem d by auto
    have "dealt f (set devs) (shares subjs sec devs (Suc ?k)) (x_node E (x_append E (sec ?s) d (w_heap v')))"
      unfolding append_view [OF n att] shares_Suc d(1) [symmetric]
      by (rule dealt_attach) (use I d shares_fresh [OF dist d(2)] in auto)
    then show "runs (assign_device E subjs cur d) v' (?I (pre @ [d]))"
      using I q s(2) append_nodes [OF n] ne
      by (simp add: assign_device_def wp xappend_def mod_Suc)
  qed
  then show ?thesis by (rule runs_mono) auto
qed

end

text \<open>C24. Devices are spread round-robin: every device of the Linux subject is removed from it, and the device
  number \<open>k\<close> is appended to the devices section of the Linux subject number \<open>k\<close> modulo their
  number, in order; no other list of children and no attribute changes.  The hypotheses say that
  the query for the Linux subjects returns the same once the devices are taken out, that each
  of them has a devices section, and that no such section lies inside a device.\<close>

theorem spread_devices_round_robin:
  fixes E :: "('h, 'n) lxml"
  defines "lnx_query \<equiv> ''/system/subjects/subject[@name='' @ sq ''linux'' @ '']''"
    and "subjs_query \<equiv> ''/system/subjects/subject[starts-with(@name, '' @ sq ''linux'' @ '')]''"
  assumes "etree E nodes" and "ok_world E nodes w" and "lnx \<in> nodes (w_heap w)"
    and "x_xpath E (w_heap w) doc lnx_query = Inr (lnx # r)"
    and "xpath_rel_law E [(''devices'', []), (''device'', [])]" and "xpath_rel_law E [(''devices'', [])]"
    and "xwalk (x_node E (w_heap w)) lnx [(''devices'', []), (''device'', [])] = devs"
    and "\<And>h. dealt (x_node E (w_heap w)) (set devs) (\<lambda>_. []) (x_node E h) \<Longrightarrow> x_xpath E h doc subjs_query = Inr subjs"
    and "subjs \<noteq> []" and "set subjs \<subseteq> nodes (w_heap w)"
    and "\<And>s. s \<in> set subjs \<Longrightarrow> n_tag (x_node E (w_heap w) s) = ''subject'' \<and> (\<exists>r. xwalk (x_node E (w_heap w)) s [(''devices'', [])] = sec s # r)"
    and "\<And>s d. s \<in> set subjs \<Longrightarrow> d \<in> set devs \<Longrightarrow> may_attach (x_node E (w_heap w)) (sec s) d"
  shows "runs (spread_devices E doc) w (\<lambda>_ w'. same_fs w w' \<and> (\<forall>q.
     n_tag (x_node E (w_heap w') q) = n_tag (x_node E (w_heap w) q) \<and> n_attrib (x_node E (w_heap w') q) = n_attrib (x_node E (w_heap w) q)
     \<and> n_children (x_node E (w_heap w') q) = filter (\<lambda>c. c \<notin> set devs) (n_children (x_node E (w_heap w) q))
         @ map (\<lambda>k. devs ! k) (filter (\<lambda>k. sec (subjs ! (k mod length subjs)) = q) [0..<length devs])))"
proof -
  let ?f = "x_node E (w_heap w)"
  note et = assms(3) and w = assms(4)
  have wf: "wf_view (nodes (w_heap w)) ?f" using w by (simp add: ok_world_def)
  have dev: "n_tag (?f d) = ''device'' \<and> n_parent (?f d) \<noteq> None" if "d \<in> set devs" for d
    using that wf_viewD(4) [OF wf, of d] unfolding assms(9) [symmetric] by (auto simp: step_ok_def)
  have mem: "set devs \<subseteq> nodes (w_heap w)" unfolding assms(9) [symmetric] by (rule xwalk_mem [OF wf assms(5)])
  have dist: "distinct devs" unfolding assms(9) [symmetric] by (rule xwalk_distinct [OF wf])
  have secs: "sec s \<in> nodes (w_heap w)" if "s \<in> set subjs" for s
    using assms(13) [OF that] wf_viewD(2) [OF wf, of s] by (auto dest!: filter_Cons_mem)
  have deal: "runs (foldM (assign_device E subjs) 0 devs) v (\<lambda>_ v'. dealt ?f (set devs) (shares subjs sec devs (length devs)) (x_node E (w_heap v')) \<and> same_fs v v')"
    if "nodes (w_heap v) = nodes (w_heap w)" "dealt ?f (set devs) (\<lambda>_. []) (x_node E (w_heap v))" for v
    by (rule etree.runs_assign_devices [OF et that(2) _ dist assms(8) _ _ assms(14,11)]) (use that mem dev secs assms(13) in auto)
  have "x_xpath E (w_heap w) lnx ''devices/device'' = Inr devs"
    using assms(7,9) by (simp add: xpath_rel_law_def render_path_def render_step_def)
  moreover have "runs (forM devs (remove_device E)) w (\<lambda>_ v. \<exists>ns. x_xpath E (w_heap v) doc subjs_query = Inr ns \<and>
      runs (foldM (assign_device E ns) 0 devs) v (\<lambda>_ v'. dealt ?f (set devs) (shares subjs sec devs (length devs)) (x_node E (w_heap v')) \<and> same_fs w v'))"
  proof (rule runs_mono [OF etree.runs_remove_devices [OF et w dist]])
    fix v assume v: "nodes (w_heap v) = nodes (w_heap w) \<and> same_fs w v \<and> dealt ?f (set devs) (\<lambda>_. []) (x_node E (w_heap v))"
    then have "runs (foldM (assign_device E subjs) 0 devs) v (\<lambda>_ v'. dealt ?f (set devs) (shares subjs sec devs (length devs)) (x_node E (w_heap v')) \<and> same_fs w v')"
      by (intro runs_mono [OF deal]) (auto intro: same_fs_trans)
    with v assms(10) show "\<exists>ns. x_xpath E (w_heap v) doc subjs_query = Inr ns \<and>
      runs (foldM (assign_device E ns) 0 devs) v (\<lambda>_ v'. dealt ?f (set devs) (shares subjs sec devs (length devs)) (x_node E (w_heap v')) \<and> same_fs w v')"
      by blast
  qed (use dev in auto)
  ultimately have "runs (spread_devices E doc) w (\<lambda>_ v'. dealt ?f (set devs) (shares subjs sec devs (length devs)) (x_node E (w_heap v')) \<and> same_fs w v')"
    using assms(6) unfolding lnx_query_def subjs_query_def by (auto simp: spread_devices_def wp)
  then show ?thesis by (rule runs_mono) (auto simp: dealt_def shares_def)
qed

definition demo_devices :: "nat xnode list" where
  "demo_devices =
     [nd ''subjects'' [] [1, 2] None, nd ''subject'' [(''name'', ''linux'')] [3] (Some 0), nd ''subject'' [(''name'', ''linux_core1'')] [4] (Some 0),
      nd ''devices'' [] [5, 6, 7] (Some 1), nd ''devices'' [] [] (Some 2),
      nd ''device'' [] [] (Some 3), nd ''device'' [] [] (Some 3), nd ''device'' [] [] (Some 3)]"

definition demo_devices_query :: "nat view \<Rightarrow> nat \<Rightarrow> string \<Rightarrow> pyerr + nat list" where
  "demo_devices_query f n q =
     (if startswith q ''/system/subjects/subject[@'' then Inr [1] else if startswith q ''/'' then Inr [1, 2]
      else rel_query [[(''devices'', []), (''device'', [])], [(''devices'', [])]] f n q)"

lemma demo_devices_facts:
  "table_ok demo_devices" "xwalk (table_view demo_devices) 1 [(''devices'', []), (''device'', [])] = [5, 6, 7]"
  "xwalk (table_view demo_devices) 1 [(''devices'', [])] = [3]" "xwalk (table_view demo_devices) 2 [(''devices'', [])] = [4]"
  "n_children (table_view demo_devices 4) = []" "n_tag (table_view demo_devices 1) = ''subject''" "n_tag (table_view demo_devices 2) = ''subject''"
  "length demo_devices = 8" "list_all (\<lambda>d. n_children (table_view demo_devices d) = []) [5, 6, 7]"
  by code_simp+

lemma demo_devices_laws:
  "xpath_rel_law (ref_lxml docs demo_devices_query) [(''devices'', []), (''device'', [])]"
  "xpath_rel_law (ref_lxml docs demo_devices_query) [(''devices'', [])]"
  by (auto simp: xpath_rel_law_def demo_devices_query_def rel_query_def render_path_def render_step_def startswith_def ref_lxml_def)

theorem spread_devices_round_robin_witness:
  "runs (spread_devices (ref_lxml (\<lambda>_. None) demo_devices_query) 0) (table_world demo_devices)
     (\<lambda>_ w'. n_children (x_node (ref_lxml (\<lambda>_. None) demo_devices_query) (w_heap w') 4) = [6])"
proof -
  let ?E = "ref_lxml (\<lambda>_. None) demo_devices_query :: (rheap, nat) lxml"
  have leaf: "may_attach (table_view demo_devices) p d" if "p \<noteq> d" "d \<in> {5, 6, 7}" for p d
  proof -
    have "n_children (table_view demo_devices d) = []" using that(2) demo_devices_facts(9) by auto
    then show ?thesis using that(1) by (auto simp: may_attach_def child_rel_def elim: converse_rtranclE)
  qed
  have q: "demo_devices_query f n (''/system/subjects/subject[@name='' @ sq ''linux'' @ '']'') = Inr [1]"
    "demo_devices_query f n (''/system/subjects/subject[starts-with(@name, '' @ sq ''linux'' @ '')]'') = Inr [1, 2]" for f n
    by (simp_all add: demo_devices_query_def startswith_def)
  have "runs (spread_devices ?E 0) (table_world demo_devices) (\<lambda>_ w'. same_fs (table_world demo_devices) w' \<and> (\<forall>q.
     n_tag (x_node ?E (w_heap w') q) = n_tag (x_node ?E (w_heap (table_world demo_devices)) q) \<and> n_attrib (x_node ?E (w_heap w') q) = n_attrib (x_node ?E (w_heap (table_world demo_devices)) q)
     \<and> n_children (x_node ?E (w_heap w') q) = filter (\<lambda>c. c \<notin> set [5, 6, 7]) (n_children (x_node ?E (w_heap (table_world demo_devices)) q))
         @ map (\<lambda>k. [5, 6, 7] ! k) (filter (\<lambda>k. (\<lambda>s. s + 2) ([1, 2] ! (k mod length [1, 2 :: nat])) = q) [0..<length [5, 6, 7 :: nat]])))"
    by (rule spread_devices_round_robin [OF ref.etree_axioms ok_table_world [OF demo_devices_facts(1)] _ _ demo_devices_laws, where lnx = 1 and r = "[]"])
      (auto simp: q [unfolded append_Cons append_Nil] demo_devices_facts(2-4,6-8) simp del: One_nat_def xwalk.simps intro!: leaf)
  then show ?thesis
    by (rule runs_mono) (simp add: demo_devices_facts(5) upt_rec)
qed

end
