(* ===== verification/Csl_Encode.thy ===== *)
theory Csl_Encode
  imports Pymonad
begin

text \<open>
  \<^verbatim>\<open>tools/scripts/cslencode.py\<close>: prepends a file, as a vendor specific command, to the commands of a
  CSL image.  A file is the \<^typ>\<open>string\<close> of its bytes.  \<^verbatim>\<open>struct.pack('Q', n)\<close> is the little-endian
  encoding in eight bytes (the byte order of the x86 hosts Muen is built on); values that do not
  fit are an error.
\<close>

fun pack_le :: "nat \<Rightarrow> nat \<Rightarrow> string" where
  "pack_le 0 n = []"
| "pack_le (Suc k) n = char_of (n mod 256) # pack_le k (n div 256)"

definition struct_pack_Q :: "int \<Rightarrow> pyerr + string" where
  "struct_pack_Q n = (if 0 \<le> n \<and> n < 2 ^ 64 then Inr (pack_le 8 (nat n)) else Inl StructError)"

definition CSL_VERMAGIC :: string where
  "CSL_VERMAGIC = pack_le 8 0x8adc5fa2448cb65e"

record csl_args =
  c_img_src :: string
  c_img_dst :: string
  c_cmd_id :: int
  c_file :: string

definition csl_check_args :: "csl_args \<Rightarrow> ('h, unit) py" where
  "csl_check_args args =
     bnd (isfile (c_img_src args)) (\<lambda>b.
     seq (if \<not> b then sys_exit (''Error: CSL source '' @ sq (c_img_src args) @ '' not found'') else ret ()) (
     bnd (isfile (c_file args)) (\<lambda>b.
     seq (if \<not> b then sys_exit (''Error: file '' @ sq (c_file args) @ '' not found'') else ret ()) (
     if \<not> (60000 \<le> c_cmd_id args \<and> c_cmd_id args \<le> 65535)
     then sys_exit (''Error: CMD ID '' @ str_int (c_cmd_id args) @ '' not in vendor specific range'')
     else ret ()))))"

text \<open>The destination is truncated when it is opened, before the size and the contents of the other
  files are read.  The three names stand for different files: what a run on one file under two names reads
  depends on the buffers of the file objects, which are not modelled.\<close>

definition csl_encode :: "csl_args \<Rightarrow> ('h, unit) py" where
  "csl_encode args =
     seq (csl_check_args args) (
     bnd (read_file (c_img_src args)) (\<lambda>src.
     if take 8 src \<noteq> CSL_VERMAGIC
     then sys_exit (''Error: source '' @ sq (c_img_src args) @ '' is not a CSL image'')
     else
     seq (open_write (c_img_dst args)) (
     bnd (getsize (c_file args)) (\<lambda>fsize.
     seq (print (''Encoding file '' @ sq (c_file args) @ '' of size '' @ str_int fsize
                 @ '' byte(s) as CSL CMD ID '' @ str_int (c_cmd_id args))) (
     seq (fwrite (c_img_dst args) CSL_VERMAGIC) (
     bnd (lift (struct_pack_Q (c_cmd_id args))) (\<lambda>b.
     seq (fwrite (c_img_dst args) b) (
     bnd (lift (struct_pack_Q fsize)) (\<lambda>b.
     seq (fwrite (c_img_dst args) b) (
     bnd (read_file (c_file args)) (\<lambda>c.
     seq (fwrite (c_img_dst args) c) (
     bnd (read_file (c_img_src args)) (\<lambda>src.
     fwrite (c_img_dst args) (drop 8 src))))))))))))))"

subsection \<open>Reading an image\<close>

text \<open>The format: the magic number, then commands, each an identifier and a length in eight bytes and
  that many bytes of data.\<close>

fun unpack_le :: "string \<Rightarrow> nat" where
  "unpack_le [] = 0"
| "unpack_le (c # cs) = of_char c + 256 * unpack_le cs"

definition csl_command :: "string \<Rightarrow> ((nat \<times> string) \<times> string) option" where
  "csl_command s =
     (let n = unpack_le (take 8 (drop 8 s)) in
      if length s < 16 + n then None else Some ((unpack_le (take 8 s), take n (drop 16 s)), drop (16 + n) s))"

fun csl_commands :: "nat \<Rightarrow> string \<Rightarrow> (nat \<times> string) list option" where
  "csl_commands fuel [] = Some []"
| "csl_commands 0 (b # bs) = None"
| "csl_commands (Suc fuel) (b # bs) =
     (case csl_command (b # bs) of
        None \<Rightarrow> None
      | Some (c, rest) \<Rightarrow> map_option (Cons c) (csl_commands fuel rest))"

text \<open>Every command takes at least 16 bytes, so the length is enough fuel.\<close>

definition csl_parse :: "string \<Rightarrow> (nat \<times> string) list option" where
  "csl_parse img = (if take 8 img = CSL_VERMAGIC then csl_commands (length img) (drop 8 img) else None)"

lemma length_pack [simp]: "length (pack_le k n) = k"
  by (induction k n rule: pack_le.induct) auto

lemma unpack_pack: "unpack_le (pack_le k n) = n mod 256 ^ k"
proof (induction k n rule: pack_le.induct)
  case (2 k n)
  have "n mod 256 ^ Suc k = n mod 256 + 256 * (n div 256 mod 256 ^ k)"
    by (simp add: mod_mult2_eq)
  then show ?case using 2 by simp
qed simp

lemma csl_commands_fuel: "csl_commands k s = Some cs \<Longrightarrow> k \<le> m \<Longrightarrow> csl_commands m s = Some cs"
proof (induction k arbitrary: s cs m)
  case 0
  then show ?case by (cases s) auto
next
  case (Suc k)
  obtain m' where m: "m = Suc m'" "k \<le> m'" using Suc.prems(2) by (cases m) auto
  show ?case
  proof (cases s)
    case Nil
    then show ?thesis using Suc.prems(1) by simp
  next
    case (Cons b bs)
    then obtain c r cs' where "csl_command (b # bs) = Some (c, r)" "csl_commands k r = Some cs'" "cs = c # cs'"
      using Suc.prems(1) by (auto split: option.splits)
    then show ?thesis using Suc.IH [OF _ m(2)] m(1) Cons by simp
  qed
qed

lemma csl_command_packed:
  assumes "i < 2 ^ 64" and "length f < 2 ^ 64"
  shows "csl_command (pack_le 8 i @ pack_le 8 (length f) @ f @ rest) = Some ((i, f), rest)"
proof -
  have "unpack_le (pack_le 8 i) = i" "unpack_le (pack_le 8 (length f)) = length f"
    using assms by (simp_all add: unpack_pack)
  then show ?thesis by (simp add: csl_command_def Let_def)
qed

lemma csl_commands_cons:
  assumes "i < 2 ^ 64" and "length f < 2 ^ 64" and "csl_commands k rest = Some cs"
  shows "csl_commands (Suc k) (pack_le 8 i @ pack_le 8 (length f) @ f @ rest) = Some ((i, f) # cs)"
proof -
  have "length (pack_le 8 i) \<noteq> 0" by simp
  then obtain b bs where "pack_le 8 i = b # bs" by (cases "pack_le 8 i") auto
  then show ?thesis using csl_command_packed [OF assms(1,2), of rest] assms(3) by simp
qed

text \<open>C32. Round trip: the image written reads back as the commands of the source image with the given
  command, holding the file, in front of them; every other file is as it was.\<close>

theorem csl_encode_prepends:
  assumes "w_files w (c_img_src args) = Some src" and "w_files w (c_file args) = Some f" and "csl_parse src = Some cmds"
    and "60000 \<le> c_cmd_id args" and "c_cmd_id args \<le> 65535" and "length f < 2 ^ 64" and "writable_path w (c_img_dst args)"
    and "c_img_dst args \<noteq> c_img_src args" and "c_img_dst args \<noteq> c_file args"
  shows "runs (csl_encode args) w (\<lambda>_ w'. \<exists>img. w_files w' = (w_files w)(c_img_dst args := Some img)
     \<and> csl_parse img = Some ((nat (c_cmd_id args), f) # cmds))"
proof -
  let ?i = "nat (c_cmd_id args)"
  let ?img = "CSL_VERMAGIC @ pack_le 8 ?i @ pack_le 8 (length f) @ f @ drop 8 src"
  have src: "take 8 src = CSL_VERMAGIC" "csl_commands (length src) (drop 8 src) = Some cmds"
    using assms(3) by (auto simp: csl_parse_def split: if_splits)
  have len: "8 \<le> length src"
    using arg_cong [OF src(1), of length] by (simp add: CSL_VERMAGIC_def)
  have "csl_commands (Suc (length src)) (pack_le 8 ?i @ pack_le 8 (length f) @ f @ drop 8 src) = Some ((?i, f) # cmds)"
    by (rule csl_commands_cons [OF _ assms(6) src(2)]) (use assms(5) in simp)
  then have "csl_commands (length ?img) (pack_le 8 ?i @ pack_le 8 (length f) @ f @ drop 8 src) = Some ((?i, f) # cmds)"
    by (rule csl_commands_fuel) (use len in \<open>simp add: CSL_VERMAGIC_def\<close>)
  then have parse: "csl_parse ?img = Some ((?i, f) # cmds)" by (simp add: csl_parse_def CSL_VERMAGIC_def)
  have packs: "struct_pack_Q (c_cmd_id args) = Inr (pack_le 8 ?i)" "struct_pack_Q (int (length f)) = Inr (pack_le 8 (length f))"
    using assms(4-6) by (simp_all add: struct_pack_Q_def)
  have "runs (csl_encode args) w (\<lambda>_ w'. w_files w' = (w_files w)(c_img_dst args := Some ?img))"
    using assms(1,2,4,5,7-9) src(1) packs by (auto simp: csl_encode_def csl_check_args_def wp intro!: runs_print)
  then show ?thesis by (rule runs_mono) (use parse in blast)
qed

definition demo_csl_args :: csl_args where
  "demo_csl_args = \<lparr>c_img_src = ''in.csl'', c_img_dst = ''out.csl'', c_cmd_id = 60001, c_file = ''data''\<rparr>"

definition demo_csl_world :: "unit world" where
  "demo_csl_world = \<lparr>w_heap = (), w_out = [], w_files = [''in.csl'' \<mapsto> CSL_VERMAGIC, ''data'' \<mapsto> ''abc''], w_dirs = (\<lambda>_. False)\<rparr>"

theorem csl_encode_prepends_witness:
  "runs (csl_encode demo_csl_args) demo_csl_world (\<lambda>_ w'. \<exists>img. w_files w' = (w_files demo_csl_world)(''out.csl'' := Some img)
     \<and> csl_parse img = Some [(60001, ''abc'')])"
proof -
  have "dirname ''out.csl'' = []" by code_simp
  moreover have "csl_parse CSL_VERMAGIC = Some []" by (simp add: csl_parse_def CSL_VERMAGIC_def)
  ultimately show ?thesis
    using csl_encode_prepends [of demo_csl_world demo_csl_args CSL_VERMAGIC "''abc''" "[]"]
    by (simp add: demo_csl_args_def demo_csl_world_def writable_path_def)
qed

text \<open>C33. Rejection: a command identifier outside the vendor specific range or a source without the magic
  number ends the script with an error message before any file is touched.\<close>

theorem csl_encode_rejects:
  assumes "w_files w (c_img_src args) = Some src" and "w_files w (c_file args) = Some f"
    and "c_cmd_id args < 60000 \<or> 65535 < c_cmd_id args \<or> take 8 src \<noteq> CSL_VERMAGIC"
  shows "\<exists>msg. csl_encode args w = (Inl (SystemExitMsg msg), w)"
  using assms
  by (auto simp: csl_encode_def csl_check_args_def bnd_def isfile_def ret_def raise_def read_file_def)

theorem csl_encode_rejects_witness:
  "\<exists>msg. csl_encode (demo_csl_args\<lparr>c_cmd_id := 65536\<rparr>) demo_csl_world = (Inl (SystemExitMsg msg), demo_csl_world)"
  by (rule csl_encode_rejects [of _ _ CSL_VERMAGIC "''abc''"]) (simp_all add: demo_csl_args_def demo_csl_world_def)

end
