(* ===== verification/Mulog.thy ===== *)
theory Mulog
  imports Pymonad
begin

text \<open>
  The log filters \<^verbatim>\<open>tools/scripts/mulog.py\<close>, which joins the continuation lines of the debug log with
  the lines they continue, and \<^verbatim>\<open>tools/scripts/mulog-subject.py\<close>, which extracts the messages of one
  subject.  A log line is \<^verbatim>\<open>16#hhhh#\<close>, one of the characters \<^verbatim>\<open>%\<close>, \<^verbatim>\<open>#\<close>, \<^verbatim>\<open>>\<close> and \<^verbatim>\<open>|\<close>, and the message; \<^verbatim>\<open>>\<close> marks a
  continuation.  The contents of a log file are its decoded text.
\<close>

subsection \<open>Joining continuation lines\<close>

text \<open>The search from the end of \<^verbatim>\<open>formatted\<close>, here on the reversed list.\<close>

fun append_rev :: "string \<Rightarrow> string \<Rightarrow> string list \<Rightarrow> string list option" where
  "append_rev prf line [] = None"
| "append_rev prf line (l # ls) =
     (if take 9 l = prf then Some ((l @ line) # ls) else map_option (Cons l) (append_rev prf line ls))"

definition mulog_append :: "string \<Rightarrow> string \<Rightarrow> string list \<Rightarrow> pyerr + string list" where
  "mulog_append prf line formatted =
     (case append_rev prf line (rev formatted) of
        None \<Rightarrow> Inl (ParentNotFound prf)
      | Some ls \<Rightarrow> Inr (rev ls))"

text \<open>The regular expression \<^verbatim>\<open>16#[0-9a-fA-F]{4}#>\<close> at the start of a line.\<close>

definition is_cont :: "string \<Rightarrow> bool" where
  "is_cont line \<longleftrightarrow>
     take 3 line = ''16#'' \<and> list_all (\<lambda>c. case char_digit c of Some d \<Rightarrow> d < 16 | None \<Rightarrow> False) (take 4 (drop 3 line))
     \<and> take 2 (drop 7 line) = ''#>''"

definition parent_prefix :: "string \<Rightarrow> string" where
  "parent_prefix line = replace_str ''>'' ''|'' (take 9 line)"

definition mulog_line :: "string list \<Rightarrow> string \<Rightarrow> pyerr + string list" where
  "mulog_line formatted line =
     (if is_cont line then mulog_append (parent_prefix line) (drop 9 line) formatted
      else if take 3 line \<noteq> ''---'' then Inr (formatted @ [line])
      else Inr formatted)"

fun mulog_lines :: "string list \<Rightarrow> string list \<Rightarrow> pyerr + string list" where
  "mulog_lines formatted [] = Inr formatted"
| "mulog_lines formatted (line # lines) =
     (case mulog_line formatted line of Inl e \<Rightarrow> Inl e | Inr formatted \<Rightarrow> mulog_lines formatted lines)"

definition mulog_main :: "string list \<Rightarrow> ('h, unit) py" where
  "mulog_main args =
     bnd (first args) (\<lambda>filename.
     bnd (read_file filename) (\<lambda>c.
     let lines = map (rstrip [CHR 0x0D, CHR 0x0A]) (text_lines c) in
     bnd (lift (mulog_lines [] lines)) (\<lambda>formatted.
     forM formatted print)))"

subsection \<open>The messages of one subject\<close>

definition write_out :: "string \<Rightarrow> ('h, unit) py" where
  "write_out s = (\<lambda>w. (Inr (), w\<lparr>w_out := w_out w @ s\<rparr>))"

text \<open>\<^verbatim>\<open>format(i, 'x')\<close>.\<close>

definition hex_plain :: "int \<Rightarrow> string" where
  "hex_plain i = (if i < 0 then CHR ''-'' # digits_base 16 (nat (- i)) else digits_base 16 (nat i))"

text \<open>The compiled pattern: a prefix, then one of four characters.\<close>

definition subject_match :: "int \<Rightarrow> string \<Rightarrow> bool" where
  "subject_match subject_id line \<longleftrightarrow>
     (let p = ''16#'' @ zfill (hex_plain subject_id) 4 @ ''#'' in
      startswith line p \<and> (\<exists>c \<in> set (take 1 (drop (length p) line)). c \<in> set ''%#>|''))"

text \<open>\<^verbatim>\<open>translate\<close> with a string as table maps the code points below its length and keeps the others.\<close>

definition log_translate :: "string \<Rightarrow> string" where
  "log_translate s = map (\<lambda>c. if c = CHR 0x00 then CHR 0x0D else c) s"

definition subject_line :: "int \<Rightarrow> bool \<Rightarrow> string \<Rightarrow> ('h, bool) py" where
  "subject_line subject_id is_first_line line =
     (if subject_match subject_id line
      then seq (if line ! 8 \<noteq> CHR ''>'' \<and> \<not> is_first_line then write_out [CHR 0x0A] else ret ()) (
           seq (write_out (log_translate (drop 9 (rstrip [CHR 0x0A] line)))) (
           ret False))
      else ret is_first_line)"

definition subject_log :: "int \<Rightarrow> string \<Rightarrow> ('h, unit) py" where
  "subject_log subject_id text =
     (if subject_id > 0xffff
      then seq (print (''Invalid subject ID '' @ hex_plain subject_id @ '': must be in range 0 .. 0xffff'')) (raise (SystemExit (- 1)))
      else seq (foldM (subject_line subject_id) True (text_lines text)) (
           seq (write_out [CHR 0x0A]) (raise (SystemExit 0))))"

definition mulog_subject_main :: "string \<Rightarrow> string \<Rightarrow> string list \<Rightarrow> ('h, unit) py" where
  "mulog_subject_main stdin prog args =
     (case args of
        [] \<Rightarrow> seq (print (prog @ '' <subject_id> [filename]'')) (raise (SystemExit (- 1)))
      | [i] \<Rightarrow> bnd (lift (py_int0 i)) (\<lambda>subject_id. subject_log subject_id stdin)
      | i # filename # _ \<Rightarrow>
          bnd (path_exists filename) (\<lambda>b.
          if \<not> b then seq (print (''Specified file '' @ sq filename @ '' does not exist'')) (raise (SystemExit (- 1)))
          else bnd (read_file filename) (\<lambda>c.
               bnd (lift (py_int0 i)) (\<lambda>subject_id. subject_log subject_id c))))"

subsection \<open>What the filters compute\<close>

definition is_base :: "string \<Rightarrow> bool" where
  "is_base line \<longleftrightarrow> \<not> is_cont line \<and> take 3 line \<noteq> ''---''"

text \<open>The continuations of a line with the prefix \<open>p\<close>, up to the next line with that prefix.\<close>

fun gather :: "string \<Rightarrow> string list \<Rightarrow> string" where
  "gather p [] = []"
| "gather p (l # ls) =
     (if is_cont l then (if parent_prefix l = p then drop 9 l @ gather p ls else gather p ls)
      else if is_base l \<and> take 9 l = p then [] else gather p ls)"

fun joined :: "string list \<Rightarrow> string list" where
  "joined [] = []"
| "joined (l # ls) = (if is_base l then (l @ gather (take 9 l) ls) # joined ls else joined ls)"

definition parents_present :: "string list \<Rightarrow> bool" where
  "parents_present ls \<longleftrightarrow>
     (\<forall>i < length ls. is_cont (ls ! i) \<longrightarrow> (\<exists>j < i. is_base (ls ! j) \<and> take 9 (ls ! j) = parent_prefix (ls ! i)))"

lemma length_replace_char: "length (replace_str [a] [b] s) = length s"
  by (induction s) (simp_all add: startswith_def)

lemma is_cont_length: "is_cont l \<Longrightarrow> length (parent_prefix l) = 9"
proof -
  assume "is_cont l"
  then have "length (take 2 (drop 7 l)) = 2" by (simp add: is_cont_def)
  then have "9 \<le> length l" by simp
  then show ?thesis by (simp add: parent_prefix_def length_replace_char)
qed

lemma gather_short: "length p \<noteq> 9 \<Longrightarrow> gather p ls = []"
  by (induction ls) (auto dest: is_cont_length)

lemma take_joined: "take 9 (l @ gather (take 9 l) ls) = take 9 l"
  by (cases "length l < 9") (auto simp: gather_short)

lemma gather_snoc:
  "gather p (ls @ [l]) = gather p ls @ (if is_cont l \<and> parent_prefix l = p \<and> (\<forall>x \<in> set ls. \<not> (is_base x \<and> take 9 x = p)) then drop 9 l else [])"
  by (induction ls) (auto simp: is_base_def)

lemma append_rev_snoc:
  "append_rev p x (ys @ [y]) = (case append_rev p x ys of
     Some r \<Rightarrow> Some (r @ [y]) | None \<Rightarrow> if take 9 y = p then Some (ys @ [y @ x]) else None)"
  by (induction ys) (auto split: option.splits)

lemma append_rev_None: "append_rev p x ls = None \<longleftrightarrow> (\<forall>l \<in> set ls. take 9 l \<noteq> p)"
  by (induction ls) auto

lemma joined_prefixes: "(\<exists>l \<in> set (joined ls). take 9 l = p) \<longleftrightarrow> (\<exists>l \<in> set ls. is_base l \<and> take 9 l = p)"
  by (induction ls) (auto simp: take_joined simp del: take_append)

lemma joined_cont:
  assumes "is_cont l" and "\<exists>x \<in> set ls. is_base x \<and> take 9 x = parent_prefix l"
  shows "append_rev (parent_prefix l) (drop 9 l) (rev (joined ls)) = Some (rev (joined (ls @ [l])))"
  using assms(2)
proof (induction ls)
  case (Cons a ls)
  have not_base: "\<not> is_base l" using assms(1) by (simp add: is_base_def)
  show ?case
  proof (cases "\<exists>x \<in> set ls. is_base x \<and> take 9 x = parent_prefix l")
    case True
    then show ?thesis using Cons.IH by (auto simp: append_rev_snoc gather_snoc)
  next
    case False
    then have a: "is_base a" "take 9 a = parent_prefix l" using Cons.prems by auto
    have "joined (ls @ [l]) = joined ls"
      using False not_base by (induction ls) (auto simp: gather_snoc)
    moreover have "append_rev (parent_prefix l) (drop 9 l) (rev (joined ls)) = None"
      using False joined_prefixes [of ls "parent_prefix l"] by (auto simp: append_rev_None)
    ultimately show ?thesis
      using a False assms(1) take_joined [of a ls] by (auto simp: append_rev_snoc gather_snoc)
  qed
qed simp

lemma mulog_lines_snoc:
  "mulog_lines f (ls @ [l]) = (case mulog_lines f ls of Inl e \<Rightarrow> Inl e | Inr f' \<Rightarrow> mulog_line f' l)"
  by (induction ls arbitrary: f) (auto split: sum.splits)

lemma parents_present_snoc:
  "parents_present (ls @ [l]) \<longleftrightarrow> parents_present ls \<and> (is_cont l \<longrightarrow> (\<exists>x \<in> set ls. is_base x \<and> take 9 x = parent_prefix l))"
proof -
  have "(\<exists>j < i. is_base ((ls @ [l]) ! j) \<and> take 9 ((ls @ [l]) ! j) = q) \<longleftrightarrow> (\<exists>j < i. is_base (ls ! j) \<and> take 9 (ls ! j) = q)" if "i \<le> length ls" for i q
    using that by (metis (no_types, lifting) nth_append order_less_le_trans)
  then have "(\<forall>i < length ls. is_cont ((ls @ [l]) ! i) \<longrightarrow> (\<exists>j < i. is_base ((ls @ [l]) ! j) \<and> take 9 ((ls @ [l]) ! j) = parent_prefix ((ls @ [l]) ! i)))
      \<longleftrightarrow> parents_present ls"
    and "(\<exists>j < length ls. is_base ((ls @ [l]) ! j) \<and> take 9 ((ls @ [l]) ! j) = parent_prefix l) \<longleftrightarrow> (\<exists>x \<in> set ls. is_base x \<and> take 9 x = parent_prefix l)"
    by (simp_all add: parents_present_def nth_append) (metis in_set_conv_nth)
  then show ?thesis unfolding parents_present_def [of "ls @ [l]"] by (simp add: All_less_Suc) blast
qed

lemma mulog_lines_joined:
  "mulog_lines [] ls = Inr (joined ls) \<and> parents_present ls \<or> (\<exists>p. mulog_lines [] ls = Inl (ParentNotFound p)) \<and> \<not> parents_present ls"
proof (induction ls rule: rev_induct)
  case Nil
  show ?case by (simp add: parents_present_def)
next
  case (snoc l ls)
  have base: "\<not> is_cont l \<Longrightarrow> joined (ls @ [l]) = joined ls @ (if is_base l then [l] else [])"
    by (induction ls) (auto simp: gather_snoc)
  have none: "\<not> (\<exists>x \<in> set ls. is_base x \<and> take 9 x = p) \<Longrightarrow> append_rev p x (rev (joined ls)) = None" for p x
    using joined_prefixes [of ls p] by (auto simp: append_rev_None)
  consider (failed) p where "mulog_lines [] ls = Inl (ParentNotFound p)" "\<not> parents_present ls"
    | (ok) "mulog_lines [] ls = Inr (joined ls)" "parents_present ls" using snoc by blast
  then show ?case
  proof cases
    case failed
    then show ?thesis by (simp add: mulog_lines_snoc parents_present_snoc)
  next
    case ok
    show ?thesis
    proof (cases "is_cont l")
      case False
      then show ?thesis using ok base by (auto simp: mulog_lines_snoc parents_present_snoc mulog_line_def is_base_def)
    next
      case True
      then show ?thesis
        using ok none [of "parent_prefix l" "drop 9 l"] joined_cont [OF True, of ls]
        by (cases "\<exists>x \<in> set ls. is_base x \<and> take 9 x = parent_prefix l")
          (simp_all add: mulog_lines_snoc parents_present_snoc mulog_line_def mulog_append_def)
    qed
  qed
qed

text \<open>C34. The joined log equals its definition: every line that is no continuation and no separator
  appears once, in order, followed by the continuations that refer to it, that is those with its
  subject up to the next such line.  The run ends with an error exactly when some continuation
  has no line it can belong to.\<close>

theorem mulog_joined:
  "if parents_present ls then mulog_lines [] ls = Inr (joined ls) else (\<exists>p. mulog_lines [] ls = Inl (ParentNotFound p))"
  using mulog_lines_joined [of ls] by auto

subsection \<open>The messages of a subject\<close>

definition log_text :: "string \<Rightarrow> string" where
  "log_text line = map (\<lambda>c. if c = CHR 0x00 then CHR 0x0D else c) (drop 9 (rstrip [CHR 0x0A] line))"

abbreviation continues :: "string \<Rightarrow> bool" where
  "continues line \<equiv> line ! 8 = CHR ''>''"

text \<open>The messages: each starts with a line that is no continuation (the first one with any line) and
  holds the texts of the continuations behind it.\<close>

function messages :: "string list \<Rightarrow> string list" where
  "messages [] = []"
| "messages (l # ls) = (log_text l @ concat (map log_text (takeWhile continues ls))) # messages (dropWhile continues ls)"
  by pat_completeness auto
termination
  by (relation "measure length") (auto simp: less_Suc_eq_le length_dropWhile_le)

definition rest_text :: "string list \<Rightarrow> string" where
  "rest_text ls = concat (map (\<lambda>l. (if continues l then [] else [CHR 0x0A]) @ log_text l) ls)"

lemma rest_text_split:
  "rest_text ls = concat (map log_text (takeWhile continues ls)) @ rest_text (dropWhile continues ls)"
  by (induction ls) (auto simp: rest_text_def)

lemma messages_text: "ls \<noteq> [] \<Longrightarrow> join_str [CHR 0x0A] (messages ls) = log_text (hd ls) @ rest_text (tl ls)"
proof (induction ls rule: messages.induct)
  case (2 l ls)
  show ?case
  proof (cases "dropWhile continues ls")
    case Nil
    have "rest_text ls = concat (map log_text (takeWhile continues ls))"
      using rest_text_split [of ls] unfolding Nil by (simp add: rest_text_def)
    then show ?thesis unfolding messages.simps(2) Nil by simp
  next
    case (Cons m ms)
    have m: "\<not> continues m" using hd_dropWhile [of continues ls] Cons by simp
    have "join_str [CHR 0x0A] (messages (m # ms)) = log_text m @ rest_text ms" using 2 Cons by simp
    moreover have "rest_text ls = concat (map log_text (takeWhile continues ls)) @ CHR 0x0A # log_text m @ rest_text ms"
      using rest_text_split [of ls] m Cons by (simp add: rest_text_def)
    ultimately show ?thesis using Cons by simp
  qed
qed simp

lemma runs_subject_lines:
  "foldM (subject_line i) b ls w =
     (Inr (b \<and> filter (subject_match i) ls = []),
      w\<lparr>w_out := w_out w @ (case filter (subject_match i) ls of [] \<Rightarrow> []
         | m # ms \<Rightarrow> (if b then log_text m @ rest_text ms else rest_text (m # ms)))\<rparr>)"
proof (induction ls arbitrary: b w)
  case (Cons l ls)
  show ?case
    using Cons.IH by (auto simp: bnd_def ret_def subject_line_def write_out_def rest_text_def log_text_def log_translate_def split: list.splits)
qed (simp add: ret_def)

text \<open>A line of the subject \<open>i\<close>: the id in hexadecimal, four characters at least and padded with zeros, between \<^verbatim>\<open>16#\<close> and
  \<^verbatim>\<open>#\<close>, and then one of the four markers.\<close>

definition id_digits :: "int \<Rightarrow> string" where
  "id_digits i =
     (let ds = digits_base 16 (nat \<bar>i\<bar>) in
      if i < 0 then ''-'' @ replicate (3 - length ds) CHR ''0'' @ ds else replicate (4 - length ds) CHR ''0'' @ ds)"

definition line_of :: "int \<Rightarrow> string \<Rightarrow> bool" where
  "line_of i line \<longleftrightarrow> (\<exists>m rest. line = ''16#'' @ id_digits i @ ''#'' @ m # rest \<and> m \<in> {CHR ''%'', CHR ''#'', CHR ''>'', CHR ''|''})"

lemma zfill_id_digits: "zfill (hex_plain i) 4 = id_digits i"
proof -
  have "c \<noteq> CHR ''-'' \<and> c \<noteq> CHR ''+''" if "digits_base 16 n = c # cs" for c cs n
    using digits_base_digits [of 16 c n] is_digit_not_special [of 16 c] that by auto
  then show ?thesis
    by (cases "digits_base 16 (nat i)") (auto simp: zfill_def hex_plain_def id_digits_def Let_def rjust_def)
qed

lemma line_of_match: "line_of i line = subject_match i line"
proof -
  define p where "p = ''16#'' @ id_digits i @ ''#''"
  have "subject_match i line \<longleftrightarrow> take (length p) line = p \<and> (\<exists>c \<in> set (take 1 (drop (length p) line)). c \<in> set ''%#>|'')"
    unfolding subject_match_def zfill_id_digits Let_def startswith_def p_def by (rule refl)
  also have "\<dots> \<longleftrightarrow> (\<exists>m rest. line = p @ m # rest \<and> m \<in> set ''%#>|'')"
  proof
    assume a: "take (length p) line = p \<and> (\<exists>c \<in> set (take 1 (drop (length p) line)). c \<in> set ''%#>|'')"
    then obtain m rest where d: "drop (length p) line = m # rest" "m \<in> set ''%#>|''" by (cases "drop (length p) line") auto
    then have "line = p @ m # rest" using a append_take_drop_id [of "length p" line] by simp
    then show "\<exists>m rest. line = p @ m # rest \<and> m \<in> set ''%#>|''" using d(2) by blast
  next
    assume "\<exists>m rest. line = p @ m # rest \<and> m \<in> set ''%#>|''"
    then obtain m rest where "line = p @ m # rest" "m \<in> set ''%#>|''" by blast
    then show "take (length p) line = p \<and> (\<exists>c \<in> set (take 1 (drop (length p) line)). c \<in> set ''%#>|'')" by simp
  qed
  finally show ?thesis by (simp add: line_of_def p_def)
qed

text \<open>C35. The output for a subject is the list of its messages, one per line: the lines of other subjects
  are left out, the text of each line is its part behind the marker, and a continuation is
  joined to the message it continues.\<close>

theorem subject_log_messages:
  assumes "i \<le> 0xffff"
  shows "subject_log i text w =
     (Inl (SystemExit 0), w\<lparr>w_out := w_out w @ join_str [CHR 0x0A] (messages (filter (line_of i) (text_lines text))) @ [CHR 0x0A]\<rparr>)"
proof -
  have "join_str [CHR 0x0A] (messages ms) = (case ms of [] \<Rightarrow> [] | m # ms \<Rightarrow> log_text m @ rest_text ms)" for ms
    by (cases ms) (use messages_text [of ms] in auto)
  then show ?thesis
    using assms by (simp add: subject_log_def line_of_match [abs_def] bnd_def runs_subject_lines write_out_def raise_def split: list.splits)
qed

theorem subject_log_messages_witness:
  "w_out (snd (subject_log 1 (''16#0001#|foo'' @ [CHR 0x0A] @ ''16#0002#|bar'' @ [CHR 0x0A] @ ''16#0001#>baz'' @ [CHR 0x0A])
      \<lparr>w_heap = (), w_out = [], w_files = (\<lambda>_. None), w_dirs = (\<lambda>_. False)\<rparr>)) = ''foobaz'' @ [CHR 0x0A]"
proof -
  have "messages (filter (subject_match 1) (text_lines (''16#0001#|foo'' @ [CHR 0x0A] @ ''16#0002#|bar'' @ [CHR 0x0A] @ ''16#0001#>baz'' @ [CHR 0x0A]))) = [''foobaz'']"
    by code_simp
  then show ?thesis by (subst subject_log_messages) (simp_all add: line_of_match [abs_def])
qed

end
