(* ===== verification/Queries.thy ===== *)
theory Queries
  imports Etree_Ref
begin

text \<open>
  The part of the XPath language that the policy scripts use beyond paths of attribute tests: a syntax
  tree of queries, their text, and what they select in a document.  A script contains the text of its
  queries; the theorems about it name the query as a syntax tree and assume that \<^verbatim>\<open>lxml\<close> answers the
  text of that tree as the recommendation defines it (\<open>answers\<close>).
\<close>

subsection \<open>Syntax\<close>

text \<open>The quote around a literal is part of the text, so it is part of the tree.\<close>

datatype xtest =
    AttrIs char string string
  | AttrStarts string string
  | ChildIn "string list"
  | PathAttrIs "string list" string string
  | NotT xtest
  | AndT xtest xtest

datatype xqstep = Child string "xtest list" | Up

type_synonym xquery = "xqstep list"

definition quoted :: "char \<Rightarrow> string \<Rightarrow> string" where
  "quoted q v = q # v @ [q]"

fun render_test :: "xtest \<Rightarrow> string" where
  "render_test (AttrIs q k v) = ''@'' @ k @ ''='' @ quoted q v"
| "render_test (AttrStarts k v) = ''starts-with(@'' @ k @ '','' @ quoted CHR 0x27 v @ '')''"
| "render_test (ChildIn ts) = join_str ''|'' ts"
| "render_test (PathAttrIs ts k v) = concat (map (\<lambda>t. t @ ''/'') ts) @ ''@'' @ k @ ''='' @ quoted CHR 0x27 v"
| "render_test (NotT t) = ''not('' @ render_test t @ '')''"
| "render_test (AndT s t) = render_test s @ '' and '' @ render_test t"

fun render_qstep :: "xqstep \<Rightarrow> string" where
  "render_qstep (Child t ps) = ''/'' @ t @ concat (map (\<lambda>p. ''['' @ render_test p @ '']'') ps)"
| "render_qstep Up = ''/..''"

definition render_query :: "xquery \<Rightarrow> string" where
  "render_query q = concat (map render_qstep q)"

subsection \<open>Semantics\<close>

fun below :: "'n view \<Rightarrow> string list \<Rightarrow> 'n \<Rightarrow> 'n list" where
  "below f [] n = [n]"
| "below f (t # ts) n = concat (map (below f ts) (filter (\<lambda>c. n_tag (f c) = t) (n_children (f n))))"

fun holds :: "'n view \<Rightarrow> 'n \<Rightarrow> xtest \<Rightarrow> bool" where
  "holds f n (AttrIs q k v) \<longleftrightarrow> map_of (n_attrib (f n)) k = Some v"
| "holds f n (AttrStarts k v) \<longleftrightarrow> startswith (case map_of (n_attrib (f n)) k of None \<Rightarrow> [] | Some s \<Rightarrow> s) v"
| "holds f n (ChildIn ts) \<longleftrightarrow> list_ex (\<lambda>c. List.member ts (n_tag (f c))) (n_children (f n))"
| "holds f n (PathAttrIs ts k v) \<longleftrightarrow> list_ex (\<lambda>c. map_of (n_attrib (f c)) k = Some v) (below f ts n)"
| "holds f n (NotT t) \<longleftrightarrow> \<not> holds f n t"
| "holds f n (AndT s t) \<longleftrightarrow> holds f n s \<and> holds f n t"

text \<open>A step takes a list of nodes in document order to such a list: a node is selected once, so the parents
  are taken without their repetitions.\<close>

fun nub :: "'a list \<Rightarrow> 'a list" where
  "nub [] = []"
| "nub (x # xs) = x # filter (\<lambda>y. y \<noteq> x) (nub xs)"

fun qstep :: "'n view \<Rightarrow> xqstep \<Rightarrow> 'n list \<Rightarrow> 'n list" where
  "qstep f (Child t ps) ns = concat (map (\<lambda>n. filter (\<lambda>c. n_tag (f c) = t \<and> list_all (holds f c) ps) (n_children (f n))) ns)"
| "qstep f Up ns = nub (List.map_filter (\<lambda>n. n_parent (f n)) ns)"

fun qsteps :: "'n view \<Rightarrow> xquery \<Rightarrow> 'n list \<Rightarrow> 'n list" where
  "qsteps f [] ns = ns"
| "qsteps f (s # ss) ns = qsteps f ss (qstep f s ns)"

text \<open>An absolute query: the only child of the document node is the root \<open>r\<close>.\<close>

fun qabs :: "'n view \<Rightarrow> 'n \<Rightarrow> xquery \<Rightarrow> 'n list" where
  "qabs f r (Child t ps # ss) = (if n_tag (f r) = t \<and> list_all (holds f r) ps then qsteps f ss [r] else [])"
| "qabs f r _ = []"

text \<open>The query gets that answer at every node of the document with root \<open>r\<close>.\<close>

definition answers :: "('h, 'n) lxml \<Rightarrow> 'h \<Rightarrow> 'n \<Rightarrow> xquery \<Rightarrow> bool" where
  "answers E h r q \<longleftrightarrow>
     (\<forall>n. (r, n) \<in> (child_rel (x_node E h))\<^sup>* \<longrightarrow> x_xpath E h n (render_query q) = Inr (qabs (x_node E h) r q))"

lemma answers_root: "answers E h r q \<Longrightarrow> render_query q = t \<Longrightarrow> x_xpath E h r t = Inr (qabs (x_node E h) r q)"
  by (auto simp: answers_def)

lemma answers_at:
  "answers E h r q \<Longrightarrow> render_query q = t \<Longrightarrow> (r, n) \<in> (child_rel (x_node E h))\<^sup>* \<Longrightarrow> x_xpath E h n t = Inr (qabs (x_node E h) r q)"
  by (auto simp: answers_def)

subsection \<open>What queries select\<close>

lemma qsteps_append: "qsteps f (ss @ ts) ns = qsteps f ts (qsteps f ss ns)"
  by (induction ss arbitrary: ns) auto

lemma qsteps_Nil [simp]: "qsteps f ss [] = []"
proof (induction ss)
  case (Cons s ss)
  have "qstep f s [] = []" by (cases s) (simp_all add: List.map_filter_def)
  then show ?case using Cons by simp
qed simp

lemma qabs_snoc: "ss \<noteq> [] \<Longrightarrow> qabs f r (ss @ [Child t ps]) = qstep f (Child t ps) (qabs f r ss)"
  by (cases ss; cases "hd ss") (auto simp: qsteps_append)

text \<open>Tests are filters.\<close>

lemma qstep_tests: "qstep f (Child t ps) ns = filter (\<lambda>c. list_all (holds f c) ps) (qstep f (Child t []) ns)"
  by (induction ns) (auto simp: conj_commute)

lemma qstep_reach:
  assumes "c \<in> set (qstep f (Child t ps) ns)" and "\<And>n. n \<in> set ns \<Longrightarrow> (r, n) \<in> (child_rel f)\<^sup>*"
  shows "(r, c) \<in> (child_rel f)\<^sup>*"
proof -
  obtain n where "n \<in> set ns" "c \<in> set (n_children (f n))" using assms(1) by auto
  then show ?thesis using assms(2) by (auto simp: child_rel_def intro: rtrancl_into_rtrancl)
qed

lemma qsteps_reach:
  "c \<in> set (qsteps f ss ns) \<Longrightarrow> list_all (\<lambda>s. s \<noteq> Up) ss \<Longrightarrow> (\<And>n. n \<in> set ns \<Longrightarrow> (r, n) \<in> (child_rel f)\<^sup>*) \<Longrightarrow> (r, c) \<in> (child_rel f)\<^sup>*"
proof (induction ss arbitrary: ns)
  case (Cons s ss)
  obtain t ps where s: "s = Child t ps" using Cons.prems(2) by (cases s) auto
  show ?case
    by (rule Cons.IH [of "qstep f s ns"]) (use Cons.prems s in \<open>auto simp del: qstep.simps dest: qstep_reach\<close>)
qed simp

lemma qabs_reach: "c \<in> set (qabs f r ss) \<Longrightarrow> list_all (\<lambda>s. s \<noteq> Up) ss \<Longrightarrow> (r, c) \<in> (child_rel f)\<^sup>*"
  by (cases ss; cases "hd ss") (auto split: if_splits elim!: qsteps_reach)

text \<open>A path of tags is the path of \<open>xabs\<close>.\<close>

lemma qsteps_tags: "qsteps f (map (\<lambda>t. Child t []) ts) ns = concat (map (\<lambda>n. xwalk f n (map (\<lambda>t. (t, [])) ts)) ns)"
proof (induction ts arbitrary: ns)
  case (Cons t ts)
  have "concat (map (\<lambda>n. xwalk f n (map (\<lambda>t. (t, [])) ts)) (concat (map g ns)))
      = concat (map (\<lambda>m. concat (map (\<lambda>n. xwalk f n (map (\<lambda>t. (t, [])) ts)) (g m))) ns)" for g :: "'a \<Rightarrow> 'a list" and ns
    by (induction ns) auto
  moreover have "step_ok f (t, []) = (\<lambda>c. n_tag (f c) = t)" by (auto simp: step_ok_def)
  ultimately show ?case by (simp add: Cons.IH)
qed (induct ns, auto)

lemma qabs_tags: "qabs f r (map (\<lambda>t. Child t []) ts) = xabs f r (map (\<lambda>t. (t, [])) ts)"
  by (cases ts) (auto simp: step_ok_def qsteps_tags)

lemma set_nub [simp]: "set (nub xs) = set xs"
  by (induction xs) auto

lemma nub_replicate: "s \<notin> set ys \<Longrightarrow> nub (replicate k s @ ys) = (if k = 0 then [] else [s]) @ nub ys"
proof (induction k)
  case (Suc k)
  have "filter (\<lambda>y. y \<noteq> s) (nub ys) = nub ys" using Suc.prems by (intro filter_True) auto
  then show ?case using Suc by auto
qed simp

text \<open>Back from children to the parents: the parents of the selected children, each once.\<close>

lemma qstep_up:
  assumes "distinct ss" and "\<And>s c. s \<in> set ss \<Longrightarrow> c \<in> set (n_children (f s)) \<Longrightarrow> n_parent (f c) = Some s"
  shows "qstep f Up (concat (map (\<lambda>s. filter P (n_children (f s))) ss)) = filter (\<lambda>s. list_ex P (n_children (f s))) ss"
  using assms
proof (induction ss)
  case (Cons s ss)
  let ?up = "List.map_filter (\<lambda>n. n_parent (f n))" and ?k = "length (filter P (n_children (f s)))"
  have "?up cs = replicate (length cs) s" if "set cs \<subseteq> set (n_children (f s))" for cs
    using that Cons.prems(2) [of s] by (induction cs) (auto simp: List.map_filter_simps)
  then have one: "?up (filter P (n_children (f s))) = replicate ?k s" by auto
  have "x \<in> set ss" if "x \<in> set (?up (concat (map (\<lambda>s. filter P (n_children (f s))) ss)))" for x
    using that Cons.prems(2) by (fastforce simp: List.map_filter_def)
  then have "s \<notin> set (?up (concat (map (\<lambda>s. filter P (n_children (f s))) ss)))" using Cons.prems(1) by auto
  from nub_replicate [OF this, of ?k] one
  have "qstep f Up (concat (map (\<lambda>s. filter P (n_children (f s))) (s # ss)))
      = (if ?k = 0 then [] else [s]) @ qstep f Up (concat (map (\<lambda>s. filter P (n_children (f s))) ss))"
    by (simp add: List.map_filter_def)
  moreover have "?k = 0 \<longleftrightarrow> \<not> list_ex P (n_children (f s))" by (auto simp: list_ex_iff filter_empty_conv)
  ultimately show ?case using Cons by simp
qed (simp add: List.map_filter_def)

subsection \<open>The reference instance\<close>

text \<open>The given queries, answered in the document with root \<open>r\<close>.\<close>

definition ast_query :: "nat \<Rightarrow> xquery list \<Rightarrow> nat view \<Rightarrow> nat \<Rightarrow> string \<Rightarrow> pyerr + nat list" where
  "ast_query r qs f n t =
     (case List.find (\<lambda>q. render_query q = t) qs of None \<Rightarrow> Inl XMLError | Some q \<Rightarrow> Inr (qabs f r q))"

lemma ast_query_answers:
  assumes "q \<in> set qs" and "distinct (map render_query qs)"
  shows "answers (ref_lxml docs (ast_query r qs)) h r q"
proof -
  have "List.find (\<lambda>q'. render_query q' = render_query q) qs = Some q"
    using assms by (induction qs) (auto simp: rev_image_eqI)
  then show ?thesis by (simp add: answers_def ast_query_def) (simp add: ref_lxml_def)
qed

end
