(* ===== verification/Adjust_Spec.thy ===== *)
theory Adjust_Spec
  imports Queries
begin

text \<open>
  \<^verbatim>\<open>components/sl/misc/adjust-xml-spec.py\<close>: clears the hashes of the writable memory regions of a
  component specification.
\<close>

definition NO_HASH :: string where "NO_HASH = ''none''"

definition hash_query :: string where
  "hash_query = ''/component/provides/memory[@writable='' @ dq ''true'' @ '']/hash''"

definition clear_hash :: "('h, 'n) lxml \<Rightarrow> 'n \<Rightarrow> ('h, unit) py" where
  "clear_hash E node =
     bnd (xgetparent E node) (\<lambda>p.
     bnd (case p of None \<Rightarrow> raise AttributeError | Some p \<Rightarrow> xget E p ''logical'') (\<lambda>l.
     bnd (as_str l) (\<lambda>l.
     seq (print (''Clearing hash for writable memory region '' @ sq l)) (
     xset E node ''value'' NO_HASH))))"

definition adjust_main :: "('h, 'n) lxml \<Rightarrow> string \<Rightarrow> string list \<Rightarrow> ('h, unit) py" where
  "adjust_main E prog args =
     (case args of
        [spec, out] \<Rightarrow>
          bnd (isfile spec) (\<lambda>b.
          if \<not> b then sys_exit ''Error: XML spec not found''
          else
          bnd (xparse E spec) (\<lambda>doc.
          bnd (xpath E doc hash_query) (\<lambda>hash_nodes.
          if hash_nodes = [] then print ''No writable memory region found''
          else seq (forM hash_nodes (clear_hash E)) (
               seq (open_write out) (
               seq (print (''Writing adjusted XML spec to '' @ sq out)) (
               bnd (xtostring E doc) (write_file out))))))) 
      | _ \<Rightarrow> seq (print (prog @ '' <XML spec> <Output file>'')) (raise (SystemExit 1)))"

text \<open>The nodes \<open>ns\<close> have the value set, nothing else changed.\<close>

definition cleared :: "'n set \<Rightarrow> 'n view \<Rightarrow> 'n view" where
  "cleared S f = (\<lambda>n. if n \<in> S then (f n)\<lparr>n_attrib := upd_attr ''value'' ''none'' (n_attrib (f n))\<rparr> else f n)"

lemma upd_attr_idem: "upd_attr k v (upd_attr k v as) = upd_attr k v as"
proof (cases "k \<in> fst ` set as")
  case True
  let ?g = "\<lambda>(a, b). if a = k then (a, v) else (a, b)"
  have "map fst (map ?g as) = map fst as" by (simp add: split_def)
  then have "fst ` set (map ?g as) = fst ` set as" by (metis set_map)
  moreover have "map ?g (map ?g as) = map ?g as" by (simp add: split_def)
  ultimately show ?thesis using True by (simp add: upd_attr_def)
next
  case False
  have "map (\<lambda>(a, b). if a = k then (a, v) else (a, b)) as = as"
    by (rule map_idI) (use False in force)
  with False show ?thesis by (simp add: upd_attr_def)
qed

lemma cleared_step:
  "(cleared S f)(n := (cleared S f n)\<lparr>n_attrib := upd_attr ''value'' ''none'' (n_attrib (cleared S f n))\<rparr>) = cleared (insert n S) f"
proof
  fix x
  show "((cleared S f)(n := (cleared S f n)\<lparr>n_attrib := upd_attr ''value'' ''none'' (n_attrib (cleared S f n))\<rparr>)) x = cleared (insert n S) f x"
    by (cases "x = n"; cases "n \<in> S") (simp_all add: cleared_def upd_attr_idem)
qed

context etree
begin

lemma runs_clear_hashes:
  assumes ns: "\<And>n. n \<in> set ns \<Longrightarrow> n \<in> nodes (w_heap w)
      \<and> (\<exists>p l. n_parent (x_node E (w_heap w) n) = Some p \<and> p \<notin> set ns \<and> attr_of E w p ''logical'' = Some l)"
  shows "runs (forM ns (clear_hash E)) w (\<lambda>_ w'. x_node E (w_heap w') = cleared (set ns) (x_node E (w_heap w))
     \<and> nodes (w_heap w') = nodes (w_heap w) \<and> same_fs w w')"
proof -
  let ?f = "x_node E (w_heap w)"
  let ?I = "\<lambda>pre w'. x_node E (w_heap w') = cleared (set pre) ?f \<and> nodes (w_heap w') = nodes (w_heap w) \<and> same_fs w w'"
  have "runs (forM ns (clear_hash E)) w (\<lambda>_. ?I ns)"
  proof (rule runs_forM [of ?I])
    show "?I [] w" by (simp add: cleared_def)
  next
    fix pre n post v
    assume split: "ns = pre @ n # post" and I: "?I pre v"
    obtain p l where n: "n \<in> nodes (w_heap w)" "n_parent (?f n) = Some p" "p \<notin> set ns" "attr_of E w p ''logical'' = Some l"
      using ns [of n] split by auto
    have v: "n_parent (x_node E (w_heap v) n) = Some p" "attr_of E v p ''logical'' = Some l" "n \<in> nodes (w_heap v)"
      using I n split by (auto simp: cleared_def)
    have "(cleared (set pre) ?f)(n := (cleared (set pre) ?f n)\<lparr>n_attrib := upd_attr ''value'' ''none'' (n_attrib (cleared (set pre) ?f n))\<rparr>)
        = cleared (set (pre @ [n])) ?f"
      using cleared_step [of "set pre" ?f n] by simp
    then show "runs (clear_hash E n) v (\<lambda>_. ?I (pre @ [n]))"
      using I v by (simp add: clear_hash_def NO_HASH_def wp xset_def set_view set_nodes runs_print_iff same_fs_def)
  qed
  then show ?thesis by simp
qed

end

text \<open>The hash elements of the writable memory regions that the component with root \<open>doc\<close> provides.\<close>

definition writable_hash :: "'n view \<Rightarrow> 'n \<Rightarrow> 'n \<Rightarrow> bool" where
  "writable_hash f doc n \<longleftrightarrow> n_tag (f n) = ''hash'' \<and>
     (\<exists>m p. n_parent (f n) = Some m \<and> n_tag (f m) = ''memory'' \<and> map_of (n_attrib (f m)) ''writable'' = Some ''true''
        \<and> n_parent (f m) = Some p \<and> n_tag (f p) = ''provides'' \<and> n_parent (f p) = Some doc \<and> n_tag (f doc) = ''component'')"

abbreviation hash_path :: xquery where
  "hash_path \<equiv> [Child ''component'' [], Child ''provides'' [], Child ''memory'' [AttrIs CHR 0x22 ''writable'' ''true''], Child ''hash'' []]"

lemma render_hash_path: "render_query hash_path = hash_query"
  by (simp add: render_query_def hash_query_def quoted_def dq_def)

lemma hash_path_selects:
  assumes "wf_view A f"
  shows "set (qabs f doc hash_path) = {n. writable_hash f doc n}"
proof -
  have "c \<in> set (n_children (f p)) \<longleftrightarrow> n_parent (f c) = Some p" for c p by (rule wf_viewD(4) [OF assms])
  then show ?thesis by (auto simp: writable_hash_def)
qed

text \<open>C40. The script sets the hash value of every writable region that the component provides, and of no other, to
  \<^verbatim>\<open>none\<close> and writes the specification, changing nothing else; when there is no such region, no file is written.\<close>

theorem adjust_clears_hashes:
  assumes "etree E nodes" and "w_files w spec = Some c" and "x_parse E c (w_heap w) = Inr (doc, h)" and "writable_path w out"
    and "wf_view (nodes h) (x_node E h)"
    and "answers E h doc [Child ''component'' [], Child ''provides'' [], Child ''memory'' [AttrIs CHR 0x22 ''writable'' ''true''], Child ''hash'' []]"
    and "\<And>n m. writable_hash (x_node E h) doc n \<Longrightarrow> n_parent (x_node E h n) = Some m \<Longrightarrow> map_of (n_attrib (x_node E h m)) ''logical'' \<noteq> None"
  shows "runs (adjust_main E prog [spec, out]) w (\<lambda>_ w'. x_node E (w_heap w') = cleared {n. writable_hash (x_node E h) doc n} (x_node E h)
     \<and> w_files w' = (if \<exists>n. writable_hash (x_node E h) doc n then (w_files w)(out := Some (x_tostring E (w_heap w') doc)) else w_files w))"
proof -
  define ns where "ns = qabs (x_node E h) doc hash_path"
  have query: "x_xpath E h doc hash_query = Inr ns" unfolding ns_def by (rule answers_root [OF assms(6) render_hash_path])
  have sel: "set ns = {n. writable_hash (x_node E h) doc n}" unfolding ns_def by (rule hash_path_selects [OF assms(5)])
  have region: "n \<in> nodes h \<and> (\<exists>p l. n_parent (x_node E h n) = Some p \<and> p \<notin> set ns \<and> map_of (n_attrib (x_node E h p)) ''logical'' = Some l)"
    if "n \<in> set ns" for n
  proof -
    have n: "writable_hash (x_node E h) doc n" using that sel by blast
    then obtain m where m: "n_parent (x_node E h n) = Some m" "n_tag (x_node E h m) = ''memory''" by (auto simp: writable_hash_def)
    then have "m \<notin> set ns" using sel by (auto simp: writable_hash_def)
    moreover have "n \<in> nodes h" using wf_viewD(4) [OF assms(5), of n m] wf_viewD(2) [OF assms(5), of m] m(1) by auto
    ultimately show ?thesis using m assms(7) [OF n m(1)] by auto
  qed
  show ?thesis
  proof (cases "ns = []")
    case True
    then show ?thesis using sel assms(2,3) query by (auto simp: adjust_main_def wp cleared_def intro!: runs_print)
  next
    case False
    then have some: "\<exists>n. writable_hash (x_node E h) doc n" using sel by (cases ns) auto
    have loop: "runs (forM ns (clear_hash E)) (w\<lparr>w_heap := h\<rparr>) (\<lambda>_ w'. x_node E (w_heap w') = cleared (set ns) (x_node E h)
       \<and> nodes (w_heap w') = nodes h \<and> same_fs w w')"
      using etree.runs_clear_hashes [OF assms(1), of ns "w\<lparr>w_heap := h\<rparr>"] region by (simp add: same_fs_def)
    have "runs (seq (forM ns (clear_hash E)) (seq (open_write out) (seq (print m) (bnd (xtostring E doc) (write_file out))))) (w\<lparr>w_heap := h\<rparr>)
        (\<lambda>_ w'. x_node E (w_heap w') = cleared (set ns) (x_node E h) \<and> w_files w' = (w_files w)(out := Some (x_tostring E (w_heap w') doc)))" for m
      unfolding runs_bnd [of "forM ns f" for f]
      by (rule runs_mono [OF loop]) (use assms(4) in \<open>auto simp: wp same_fs_def writable_path_def intro!: runs_print\<close>)
    then show ?thesis using False some assms(2,3) query unfolding sel by (simp add: adjust_main_def wp)
  qed
qed

definition demo_region :: "string \<Rightarrow> string \<Rightarrow> xtree" where
  "demo_region name wr = XT ''memory'' [(''logical'', name), (''writable'', wr)] None [XT ''hash'' [(''value'', ''16#01#'')] None []]"

definition demo_spec_tree :: xtree where
  "demo_spec_tree = XT ''component'' [] None [XT ''provides'' [] None [demo_region ''data'' ''true'', demo_region ''text'' ''false'']]"

abbreviation demo_spec :: "nat \<times> rheap" where
  "demo_spec \<equiv> demo_parsed demo_spec_tree"

abbreviation demo_adjust_world :: "rheap world" where
  "demo_adjust_world \<equiv> files_world [''in.xml'' \<mapsto> ''<component/>'']"

abbreviation demo_adjust_lxml :: "(rheap, nat) lxml" where
  "demo_adjust_lxml \<equiv> ref_lxml (\<lambda>_. Some demo_spec_tree) (ast_query (fst demo_spec) [hash_path])"

theorem adjust_clears_hashes_witness:
  "runs (adjust_main demo_adjust_lxml ''adjust'' [''in.xml'', ''out.xml'']) demo_adjust_world
     (\<lambda>_ w'. \<exists>p a b c d. n_children (r_view (w_heap w') (fst demo_spec)) = [p] \<and> n_children (r_view (w_heap w') p) = [a, b]
        \<and> n_children (r_view (w_heap w') a) = [c] \<and> n_attrib (r_view (w_heap w') c) = [(''value'', ''none'')]
        \<and> n_children (r_view (w_heap w') b) = [d] \<and> n_attrib (r_view (w_heap w') d) = [(''value'', ''16#01#'')])"
proof -
  let ?E = demo_adjust_lxml and ?r = "fst demo_spec" and ?h = "snd demo_spec"
  let ?f = "r_view ?h"
  have view: "x_node ?E = r_view" by (simp add: ref_lxml_def)
  have dir: "dirname ''out.xml'' = []" by code_simp
  have env: "w_files demo_adjust_world ''in.xml'' = Some ''<component/>''" "writable_path demo_adjust_world ''out.xml''"
    by (simp_all add: files_world_def writable_path_def dir flat_world_def)
  have wf: "wf_view (ref_nodes ?h) (x_node ?E ?h)" using demo_parsed_built(1) [of demo_spec_tree] by (simp add: view)
  obtain p a b c d where t: "n_tag (?f ?r) = ''component''" "n_children (?f ?r) = [p]" "n_tag (?f p) = ''provides''" "n_children (?f p) = [a, b]"
    "n_tag (?f a) = ''memory''" "n_attrib (?f a) = [(''logical'', ''data''), (''writable'', ''true'')]" "n_children (?f a) = [c]"
    "n_tag (?f b) = ''memory''" "n_attrib (?f b) = [(''logical'', ''text''), (''writable'', ''false'')]" "n_children (?f b) = [d]"
    "n_tag (?f c) = ''hash''" "n_attrib (?f c) = [(''value'', ''16#01#'')]" "n_tag (?f d) = ''hash''" "n_attrib (?f d) = [(''value'', ''16#01#'')]"
    using demo_parsed_built(2) [of demo_spec_tree] by (auto simp: demo_spec_tree_def demo_region_def)
  have up: "n_parent (?f c) = Some a" "n_parent (?f d) = Some b"
    using wf_viewD(4) [OF demo_parsed_built(1) [of demo_spec_tree], of c a] wf_viewD(4) [OF demo_parsed_built(1) [of demo_spec_tree], of d b] t by simp_all
  have law: "answers ?E ?h ?r hash_path" by (rule ast_query_answers) simp_all
  have sel: "writable_hash ?f ?r n \<longleftrightarrow> n = c" for n
    using hash_path_selects [OF demo_parsed_built(1) [of demo_spec_tree], of ?r] t by auto
  have logical: "map_of (n_attrib (x_node ?E ?h m)) ''logical'' \<noteq> None" if "writable_hash (x_node ?E ?h) ?r n" "n_parent (x_node ?E ?h n) = Some m" for n m
    using that t up sel by (simp add: view)
  have "c \<noteq> d" using up t by auto
  note run = adjust_clears_hashes [OF ref.etree_axioms env(1) files_world_parse env(2) wf law logical]
  have only: "{n. writable_hash (x_node ?E ?h) ?r n} = {c}" using sel by (auto simp: view)
  have f': "n_children (cleared {c} ?f m) = n_children (?f m)" "n_attrib (cleared {c} ?f c) = [(''value'', ''none'')]"
    "n_attrib (cleared {c} ?f d) = [(''value'', ''16#01#'')]" for m
    using t \<open>c \<noteq> d\<close> by (simp_all add: cleared_def upd_attr_def)
  show ?thesis
  proof (rule runs_mono [OF run], assumption, assumption, unfold only, elim conjE)
    fix w' assume "x_node ?E (w_heap w') = cleared {c} (x_node ?E ?h)"
    then have "r_view (w_heap w') = cleared {c} ?f" by (simp add: view)
    then show "\<exists>p a b c d. n_children (r_view (w_heap w') ?r) = [p] \<and> n_children (r_view (w_heap w') p) = [a, b]
        \<and> n_children (r_view (w_heap w') a) = [c] \<and> n_attrib (r_view (w_heap w') c) = [(''value'', ''none'')]
        \<and> n_children (r_view (w_heap w') b) = [d] \<and> n_attrib (r_view (w_heap w') d) = [(''value'', ''16#01#'')]"
      using t f' by (intro exI [of _ p] exI [of _ a] exI [of _ b] exI [of _ c] exI [of _ d]) simp
  qed
qed

end
