(* ===== verification/Ada_Packages.thy ===== *)
theory Ada_Packages
  imports Queries
begin

text \<open>
  Two generators of Ada packages from the system policy: the CPU values of the system monitor
  (\<^verbatim>\<open>components/sm/misc/cpu-values.py\<close>) and the subject names of the debug server
  (\<^verbatim>\<open>components/dbgserver/misc/extract-subject-names.py\<close>).  They share the command line and
  the checks made before the policy is read.
\<close>

record ada_args =
  a_out :: "string option"
  a_src_policy :: "string option"
  a_package :: string

definition or_default :: "string \<Rightarrow> string option \<Rightarrow> string" where
  "or_default d v = (case v of None \<Rightarrow> d | Some s \<Rightarrow> s)"

text \<open>The checks, which end with the parsed policy and the output path.\<close>

definition read_policy :: "string \<Rightarrow> ('h, 'n) lxml \<Rightarrow> ada_args \<Rightarrow> ('h, 'n \<times> string) py" where
  "read_policy no_out E args =
     (case a_out args of None \<Rightarrow> sys_exit no_out | Some out \<Rightarrow>
      case a_src_policy args of None \<Rightarrow> sys_exit ''Error: Muen source system policy XML not specified'' | Some src \<Rightarrow>
      bnd (isfile src) (\<lambda>b.
      if \<not> b then sys_exit (''Error: Muen source system policy XML not found '' @ sq src)
      else
      let out_dir = dirname out in
      bnd (isdir out_dir) (\<lambda>d.
      if out_dir \<noteq> [] \<and> \<not> d
      then sys_exit (''Error: Output directory for source file does not exist ('' @ sq (dirname out_dir) @ '')'')
      else
      seq (print (''Reading source system policy from '' @ sq src)) (
      bnd (xparse E src) (\<lambda>doc. ret (doc, out))))))"

definition announce :: "ada_args \<Rightarrow> string \<Rightarrow> ('h, unit) py" where
  "announce args out = print (''Writing Ada package '' @ sq (a_package args) @ '' file to '' @ sq out)"

subsection \<open>CPU values\<close>

definition cpu_parse_args :: "string option \<Rightarrow> string option \<Rightarrow> string option \<Rightarrow> ada_args" where
  "cpu_parse_args out src pkg =
     \<lparr>a_out = out, a_src_policy = src, a_package = or_default ''CPU_Values.Target'' pkg\<rparr>"

abbreviation cpuid_query :: string where
  "cpuid_query \<equiv> ''/system/hardware/processor/cpuid''"

abbreviation msr_query :: string where
  "msr_query \<equiv> ''/system/hardware/processor/msr''"

definition leaf_query :: "string \<Rightarrow> string" where
  "leaf_query leaf = cpuid_query @ ''[@leaf='' @ sq leaf @ '']''"

definition cpuid_line :: "nat \<Rightarrow> string \<Rightarrow> bool \<Rightarrow> string list \<Rightarrow> string" where
  "cpuid_line idx leaf multi vals =
     ''         '' @ str_nat idx @ '' => ('' @ leaf @ '', '' @ (if multi then ''True'' else ''False'') @ '', ''
     @ join_str '', '' vals @ '')''"

definition cpuid_entry :: "('h, 'n) lxml \<Rightarrow> nat \<Rightarrow> 'n \<Rightarrow> ('h, string) py" where
  "cpuid_entry E idx c =
     bnd (xget E c ''leaf'') (\<lambda>l. bnd (as_str l) (\<lambda>leaf.
     bnd (xpath E c (leaf_query leaf)) (\<lambda>subleafs.
     bnd (xget E c ''subleaf'') (\<lambda>v. bnd (as_str v) (\<lambda>subleaf.
     bnd (xget E c ''eax'') (\<lambda>v. bnd (as_str v) (\<lambda>eax.
     bnd (xget E c ''ebx'') (\<lambda>v. bnd (as_str v) (\<lambda>ebx.
     bnd (xget E c ''ecx'') (\<lambda>v. bnd (as_str v) (\<lambda>ecx.
     bnd (xget E c ''edx'') (\<lambda>v. bnd (as_str v) (\<lambda>edx.
     ret (cpuid_line idx leaf (1 < length subleafs) [subleaf, eax, ebx, ecx, edx]))))))))))))))"

definition msr_line :: "nat \<Rightarrow> string \<Rightarrow> string \<Rightarrow> string" where
  "msr_line idx address regval = ''         '' @ str_nat idx @ '' => ('' @ address @ '', '' @ regval @ '')''"

definition msr_entry :: "('h, 'n) lxml \<Rightarrow> nat \<Rightarrow> 'n \<Rightarrow> ('h, string) py" where
  "msr_entry E idx c =
     bnd (xget E c ''address'') (\<lambda>v. bnd (as_str v) (\<lambda>address.
     bnd (xget E c ''regval'') (\<lambda>v. bnd (as_str v) (\<lambda>regval.
     ret (msr_line idx address regval)))))"

text \<open>The loop over \<^verbatim>\<open>enumerate(nodes, start=1)\<close>: an entry is written when its text could be
  computed, followed by a comma unless it is the last.\<close>

definition write_entries :: "(nat \<Rightarrow> 'n \<Rightarrow> ('h, string) py) \<Rightarrow> string \<Rightarrow> nat \<Rightarrow> (nat \<times> 'n) list \<Rightarrow> ('h, unit) py" where
  "write_entries entry f count ns =
     forM ns (\<lambda>(idx, c).
       bnd (entry idx c) (\<lambda>s.
       seq (fwrite f s) (
       if idx < count then fwrite f ('','' @ nl) else fwrite f nl)))"

definition cpu_write_spec :: "('h, 'n) lxml \<Rightarrow> 'n \<Rightarrow> string \<Rightarrow> string \<Rightarrow> ('h, unit) py" where
  "cpu_write_spec E policy package_name f =
     seq (fwrite f (''private package '' @ package_name @ nl)) (
     seq (fwrite f (''is'' @ nl @ nl)) (
     bnd (xpath E policy cpuid_query) (\<lambda>cpuid.
     seq (fwrite f (''   CPUID : constant array (Positive range <>) of CPUID_Entry_Type'' @ nl)) (
     seq (fwrite f (''     := ('' @ nl)) (
     seq (write_entries (cpuid_entry E) f (length cpuid) (List.enumerate 1 cpuid)) (
     seq (fwrite f (''        );'' @ nl @ nl)) (
     bnd (xpath E policy msr_query) (\<lambda>msr.
     seq (fwrite f (''   MSR : constant array (Positive range <>) of MSR_Entry_Type'' @ nl)) (
     seq (fwrite f (''     := ('' @ nl)) (
     seq (write_entries (msr_entry E) f (length msr) (List.enumerate 1 msr)) (
     seq (fwrite f (''        );'' @ nl @ nl)) (
     fwrite f (''end '' @ package_name @ '';'' @ nl)))))))))))))"

definition cpu_values_main :: "('h, 'n) lxml \<Rightarrow> ada_args \<Rightarrow> ('h, unit) py" where
  "cpu_values_main E args =
     bnd (read_policy ''Error: Output file not specified'' E args) (\<lambda>(src_policy, out).
     seq (open_write out) (
     seq (announce args out) (
     cpu_write_spec E src_policy (a_package args) out)))"

subsection \<open>Subject names\<close>

definition names_parse_args :: "string option \<Rightarrow> string option \<Rightarrow> string option \<Rightarrow> ada_args" where
  "names_parse_args out src pkg =
     \<lparr>a_out = out, a_src_policy = src, a_package = or_default ''Dbg.Subject_List'' pkg\<rparr>"

abbreviation COMPONENT_NAME :: string where
  "COMPONENT_NAME \<equiv> ''dbgserver''"

definition log_query :: string where
  "log_query = ''/system/subjects/subject/component[@ref='' @ sq COMPONENT_NAME
     @ '']/map[starts-with(@logical,'' @ sq ''log_'' @ '')]''"

definition mapping_query :: "string \<Rightarrow> string" where
  "mapping_query phys = ''/system/subjects/subject/component[not(@ref='' @ sq COMPONENT_NAME
     @ '') and map/@physical='' @ sq phys @ '']/..''"

definition writer_query :: "string \<Rightarrow> string" where
  "writer_query phys = ''/system/subjects/subject[channels/writer/@physical='' @ sq phys @ '']''"

definition channel_name :: "('h, 'n) lxml \<Rightarrow> 'n \<Rightarrow> 'n \<Rightarrow> ('h, string option) py" where
  "channel_name E xml_spec channel =
     bnd (xget E channel ''physical'') (\<lambda>v. bnd (as_str v) (\<lambda>phys_name.
     bnd (xpath E xml_spec (mapping_query phys_name)) (\<lambda>subjs.
     bnd (if subjs = [] then xpath E xml_spec (writer_query phys_name) else ret subjs) (\<lambda>subjs.
     case subjs of
       [] \<Rightarrow> sys_exit (''Error: Unable to determine subject for channel '' @ sq phys_name)
     | s # _ \<Rightarrow> xget E s ''name''))))"

definition extract_subject_names :: "('h, 'n) lxml \<Rightarrow> 'n \<Rightarrow> ('h, string option list) py" where
  "extract_subject_names E xml_spec =
     bnd (xpath E xml_spec log_query) (\<lambda>log_channels.
     foldM (\<lambda>names channel. bnd (channel_name E xml_spec channel) (\<lambda>n. ret (names @ [n]))) [] log_channels)"

text \<open>\<^verbatim>\<open>max(len(name) for name in names)\<close>: no name is a \<^verbatim>\<open>ValueError\<close>, a missing one has no length.\<close>

definition max_len :: "string option list \<Rightarrow> ('h, nat) py" where
  "max_len names =
     bnd (foldM (\<lambda>ls n. bnd (as_str n) (\<lambda>s. ret (ls @ [length s]))) [] names) (\<lambda>ls.
     if ls = [] then raise (ValueError ''max() arg is an empty sequence'') else ret (Max (set ls)))"

definition name_entry :: "nat \<Rightarrow> nat \<Rightarrow> string \<Rightarrow> string" where
  "name_entry maxlen i name = str_nat (i + 1) @ '' => '' @ dq (ljust name maxlen CHR '' '')"

definition write_name :: "string \<Rightarrow> nat \<Rightarrow> nat \<times> string option \<Rightarrow> ('h, unit) py" where
  "write_name f maxlen = (\<lambda>(i, name).
     seq (if i \<noteq> 0 then fwrite f ('','' @ nl @ ''      '') else fwrite f ''     ('') (
     bnd (as_obj name) (\<lambda>name.
     fwrite f (name_entry maxlen i name))))"

definition names_write_spec :: "string option list \<Rightarrow> string \<Rightarrow> string \<Rightarrow> ('h, unit) py" where
  "names_write_spec subject_names package_name f =
     bnd (max_len subject_names) (\<lambda>maxlen.
     seq (fwrite f (''private package '' @ package_name @ nl)) (
     seq (fwrite f (''is'' @ nl @ nl)) (
     seq (fwrite f (''   subtype Name_Type is String (1 .. '' @ str_nat maxlen @ '');'' @ nl @ nl)) (
     seq (fwrite f (''   type Names_Array is array (Subject_Buffer_Range) of Name_Type;'' @ nl @ nl)) (
     seq (fwrite f (''   Subject_Names : constant Names_Array :='' @ nl)) (
     seq (forM (List.enumerate 0 subject_names) (write_name f maxlen)) (
     seq (fwrite f ('');'' @ nl @ nl)) (
     fwrite f (''end '' @ package_name @ '';'' @ nl)))))))))"

definition subject_names_main :: "('h, 'n) lxml \<Rightarrow> ada_args \<Rightarrow> ('h, unit) py" where
  "subject_names_main E args =
     bnd (read_policy ''Error: Muen output file not specified'' E args) (\<lambda>(src_policy, out).
     bnd (extract_subject_names E src_policy) (\<lambda>names.
     seq (open_write out) (
     seq (announce args out) (
     names_write_spec names (a_package args) out))))"

end
