(* ===== verification/Ada_Props.thy ===== *)
theory Ada_Props
  imports Ada_Packages
begin

text \<open>
  What the package generators write, against printers of the packages: the text as a function of the
  values in the policy.  The printers and the selections of elements are written down from the format and
  the policy schema, independently of the functions and queries of the scripts.
\<close>

definition ada_rows :: "string list \<Rightarrow> string" where
  "ada_rows ls = join_str ('','' @ nl) ls @ (if ls = [] then [] else nl)"

definition cpu_package :: "string \<Rightarrow> (string \<times> string list) list \<Rightarrow> (string \<times> string) list \<Rightarrow> string" where
  "cpu_package pkg rows msrs =
     ''private package '' @ pkg @ nl @ ''is'' @ nl @ nl
     @ ''   CPUID : constant array (Positive range <>) of CPUID_Entry_Type'' @ nl @ ''     := ('' @ nl
     @ ada_rows (map (\<lambda>(i, leaf, vals).
         ''         '' @ str_nat i @ '' => (''
         @ join_str '', '' (leaf # (if 1 < count_list (map fst rows) leaf then ''True'' else ''False'') # vals) @ '')'') (List.enumerate 1 rows))
     @ ''        );'' @ nl @ nl
     @ ''   MSR : constant array (Positive range <>) of MSR_Entry_Type'' @ nl @ ''     := ('' @ nl
     @ ada_rows (map (\<lambda>(i, address, regval). ''         '' @ str_nat i @ '' => ('' @ join_str '', '' [address, regval] @ '')'') (List.enumerate 1 msrs))
     @ ''        );'' @ nl @ nl
     @ ''end '' @ pkg @ '';'' @ nl"

definition names_package :: "string \<Rightarrow> string list \<Rightarrow> string" where
  "names_package pkg names =
     (let longest = Max (length ` set names) in
      ''private package '' @ pkg @ nl @ ''is'' @ nl @ nl
      @ ''   subtype Name_Type is String (1 .. '' @ str_nat longest @ '');'' @ nl @ nl
      @ ''   type Names_Array is array (Subject_Buffer_Range) of Name_Type;'' @ nl @ nl
      @ ''   Subject_Names : constant Names_Array :='' @ nl
      @ ''     (''
      @ join_str ('','' @ nl @ ''      '')
          (map (\<lambda>(i, n). str_nat i @ '' => '' @ CHR 0x22 # n @ replicate (longest - length n) CHR '' '' @ [CHR 0x22]) (List.enumerate 1 names))
      @ '');'' @ nl @ nl
      @ ''end '' @ pkg @ '';'' @ nl)"

lemma ada_rows_Cons: "ada_rows (l # ls) = l @ (if ls = [] then nl else '','' @ nl) @ ada_rows ls"
  by (cases ls) (simp_all add: ada_rows_def)

lemma enumerate_Nil_iff [simp]: "List.enumerate k xs = [] \<longleftrightarrow> xs = []"
  by (cases xs) simp_all

lemma runs_write_entries:
  assumes entry: "\<And>i c v. c \<in> set ns \<Longrightarrow> w_heap v = w_heap w \<Longrightarrow> runs (entry i c) v (\<lambda>s v'. s = line i c \<and> v' = v)"
    and len: "count + 1 = k + length ns" and fil: "w_files w f = Some t"
  shows "runs (write_entries entry f count (List.enumerate k ns)) w
           (\<lambda>_ w'. w' = file_set f (t @ ada_rows (map (\<lambda>(i, c). line i c) (List.enumerate k ns))) w)"
  using assms
proof (induction ns arbitrary: k t w)
  case Nil
  then show ?case by (simp add: write_entries_def wp ada_rows_def file_set_id)
next
  case (Cons c ns)
  have first: "runs (entry k c) w (\<lambda>s v'. s = line k c \<and> v' = w)" using Cons.prems(1) [of c w k] by simp
  let ?t = "t @ line k c @ (if ns = [] then nl else '','' @ nl)"
  have "runs (write_entries entry f count (List.enumerate (Suc k) ns)) (file_set f ?t w)
           (\<lambda>_ w'. w' = file_set f (?t @ ada_rows (map (\<lambda>(i, c). line i c) (List.enumerate (Suc k) ns))) (file_set f ?t w))"
    using Cons.prems by (intro Cons.IH) auto
  moreover have "k < count \<longleftrightarrow> ns \<noteq> []" using Cons.prems(2) by (cases ns) auto
  then have "runs (bnd (entry k c) (\<lambda>s. seq (fwrite f s) (if k < count then fwrite f ('','' @ nl) else fwrite f nl))) w
      (\<lambda>_ w'. w' = file_set f ?t w)"
    unfolding runs_bnd by (intro runs_mono [OF first]) (simp add: runs_bnd runs_fwrite_set Cons.prems(3))
  ultimately show ?case
    by (auto simp: write_entries_def runs_bnd ada_rows_Cons elim!: runs_mono)
qed


text \<open>The common start: the policy is read and the output file is empty.\<close>

definition started :: "('h, 'n) lxml \<Rightarrow> ada_args \<Rightarrow> 'h world \<Rightarrow> 'n \<Rightarrow> 'h \<Rightarrow> string \<Rightarrow> bool" where
  "started E args w doc h out \<longleftrightarrow> a_out args = Some out \<and> writable_path w out
     \<and> (\<exists>src c. a_src_policy args = Some src \<and> w_files w src = Some c \<and> x_parse E c (w_heap w) = Inr (doc, h))"

lemma runs_read_policy:
  assumes "started E args w doc h out"
  shows "runs (read_policy msg E args) w (\<lambda>r w'. r = (doc, out) \<and> w_heap w' = h \<and> same_fs w w')"
  using assms by (auto simp: started_def read_policy_def wp writable_path_def runs_print_iff same_fs_def)

lemma enumerate_map: "List.enumerate k (map g xs) = map (\<lambda>(i, x). (i, g x)) (List.enumerate k xs)"
  by (induction xs arbitrary: k) auto


text \<open>The values of an entry in the policy.\<close>

definition attr_val :: "('h, 'n) lxml \<Rightarrow> 'h \<Rightarrow> 'n \<Rightarrow> string \<Rightarrow> string" where
  "attr_val E h c k = or_default [] (map_of (n_attrib (x_node E h c)) k)"

definition has_attrs :: "('h, 'n) lxml \<Rightarrow> 'h \<Rightarrow> string list \<Rightarrow> 'n \<Rightarrow> bool" where
  "has_attrs E h ks c \<longleftrightarrow> list_all (\<lambda>k. map_of (n_attrib (x_node E h c)) k \<noteq> None) ks"

definition cpu_row :: "('h, 'n) lxml \<Rightarrow> 'h \<Rightarrow> 'n \<Rightarrow> string \<times> string list" where
  "cpu_row E h c = (attr_val E h c ''leaf'', map (attr_val E h c) [''subleaf'', ''eax'', ''ebx'', ''ecx'', ''edx''])"

definition msr_row :: "('h, 'n) lxml \<Rightarrow> 'h \<Rightarrow> 'n \<Rightarrow> string \<times> string" where
  "msr_row E h c = (attr_val E h c ''address'', attr_val E h c ''regval'')"

lemma count_list_map: "count_list (map g xs) x = length (filter (\<lambda>y. g y = x) xs)"
  by (induction xs) auto

lemma has_attrs_val: "has_attrs E h ks c \<Longrightarrow> k \<in> set ks \<Longrightarrow> map_of (n_attrib (x_node E h c)) k = Some (attr_val E h c k)"
  by (auto simp: has_attrs_def attr_val_def or_default_def list_all_iff)

lemma runs_cpuid_entry:
  assumes "w_heap v = h" and "has_attrs E h [''leaf'', ''subleaf'', ''eax'', ''ebx'', ''ecx'', ''edx''] c"
    and "x_xpath E h c (leaf_query (attr_val E h c ''leaf'')) = Inr ls"
  shows "runs (cpuid_entry E i c) v (\<lambda>s v'. s = cpuid_line i (attr_val E h c ''leaf'') (1 < length ls) (snd (cpu_row E h c)) \<and> v' = v)"
  using assms(1,3) has_attrs_val [OF assms(2)] by (simp add: cpuid_entry_def wp cpu_row_def)

abbreviation cpuid_path :: "xtest list \<Rightarrow> xquery" where
  "cpuid_path ps \<equiv> [Child ''system'' [], Child ''hardware'' [], Child ''processor'' [], Child ''cpuid'' ps]"

abbreviation msr_path :: xquery where
  "msr_path \<equiv> [Child ''system'' [], Child ''hardware'' [], Child ''processor'' [], Child ''msr'' []]"

lemma render_cpu_paths:
  "render_query (cpuid_path []) = cpuid_query" "render_query (cpuid_path [AttrIs CHR 0x27 ''leaf'' l]) = leaf_query l"
  "render_query msr_path = msr_query"
  by (simp_all add: render_query_def leaf_query_def quoted_def sq_def)

text \<open>The entries of a kind that the processor of the policy with root \<open>doc\<close> has.\<close>

definition processor_entries :: "'n view \<Rightarrow> 'n \<Rightarrow> string \<Rightarrow> 'n list" where
  "processor_entries f doc kind = xabs f doc [(''system'', []), (''hardware'', []), (''processor'', []), (kind, [])]"

lemma qabs_processor: "qabs f doc [Child ''system'' [], Child ''hardware'' [], Child ''processor'' [], Child k []] = processor_entries f doc k"
  using qabs_tags [of f doc "[''system'', ''hardware'', ''processor'', k]"] by (simp add: processor_entries_def del: qabs.simps xabs.simps)

lemma qabs_leaf:
  "qabs f doc (cpuid_path [AttrIs q k v]) = filter (\<lambda>c. map_of (n_attrib (f c)) k = Some v) (processor_entries f doc ''cpuid'')"
proof -
  have "qabs f doc (cpuid_path ps) = qstep f (Child ''cpuid'' ps) (qabs f doc [Child ''system'' [], Child ''hardware'' [], Child ''processor'' []])" for ps
    using qabs_snoc [of "[Child ''system'' [], Child ''hardware'' [], Child ''processor'' []]" f doc "''cpuid''" ps] by (simp del: qabs.simps qstep.simps)
  from this [of "[]"] this [of "[AttrIs q k v]"] show ?thesis
    unfolding qabs_processor [symmetric] by (simp add: qstep_tests [of f "''cpuid''" "[AttrIs q k v]"] del: qabs.simps qstep.simps)
qed

text \<open>C38. The generated CPU package lists the \<^verbatim>\<open>cpuid\<close> and \<^verbatim>\<open>msr\<close> entries of the processor of the policy, numbered
  from 1 in document order; the flag of a \<^verbatim>\<open>cpuid\<close> entry is \<^verbatim>\<open>True\<close> exactly when more than one entry has its leaf.\<close>

theorem cpu_values_package:
  assumes "started E args w doc h out"
    and law: "answers E h doc [Child ''system'' [], Child ''hardware'' [], Child ''processor'' [], Child ''cpuid'' []]"
      "\<And>c. c \<in> set (processor_entries (x_node E h) doc ''cpuid'') \<Longrightarrow>
         answers E h doc [Child ''system'' [], Child ''hardware'' [], Child ''processor'' [], Child ''cpuid'' [AttrIs CHR 0x27 ''leaf'' (attr_val E h c ''leaf'')]]"
      "answers E h doc [Child ''system'' [], Child ''hardware'' [], Child ''processor'' [], Child ''msr'' []]"
    and attrs: "\<And>c. c \<in> set (processor_entries (x_node E h) doc ''cpuid'') \<Longrightarrow> has_attrs E h [''leaf'', ''subleaf'', ''eax'', ''ebx'', ''ecx'', ''edx''] c"
      "\<And>c. c \<in> set (processor_entries (x_node E h) doc ''msr'') \<Longrightarrow> has_attrs E h [''address'', ''regval''] c"
  shows "runs (cpu_values_main E args) w
     (\<lambda>_ w'. w_files w' = (w_files w)(out :=
        Some (cpu_package (a_package args) (map (cpu_row E h) (processor_entries (x_node E h) doc ''cpuid'')) (map (msr_row E h) (processor_entries (x_node E h) doc ''msr'')))))"
proof -
  define cs where "cs = processor_entries (x_node E h) doc ''cpuid''"
  define ms where "ms = processor_entries (x_node E h) doc ''msr''"
  note defs = cs_def [symmetric] ms_def [symmetric]
  note attrs = attrs [unfolded defs]
  have cs: "x_xpath E h doc cpuid_query = Inr cs"
    using answers_root [OF law(1) render_cpu_paths(1)] by (simp only: qabs_processor cs_def)
  have ms: "x_xpath E h doc msr_query = Inr ms"
    using answers_root [OF law(3) render_cpu_paths(3)] by (simp only: qabs_processor ms_def)
  have leafs: "x_xpath E h c (leaf_query (attr_val E h c ''leaf'')) = Inr (filter (\<lambda>d. attr_val E h d ''leaf'' = attr_val E h c ''leaf'') cs)"
    if c: "c \<in> set cs" for c
  proof -
    have "(doc, c) \<in> (child_rel (x_node E h))\<^sup>*"
      by (rule qabs_reach [of _ _ _ "cpuid_path []"]) (use c in \<open>simp_all add: qabs_processor cs_def del: qabs.simps\<close>)
    from answers_at [OF law(2) [unfolded defs, OF c] render_cpu_paths(2) this] show ?thesis
      unfolding qabs_leaf cs_def [symmetric] using has_attrs_val [OF attrs(1), of _ "''leaf''"] by (simp cong: filter_cong)
  qed
  let ?cl = "\<lambda>i c. cpuid_line i (attr_val E h c ''leaf'') (1 < count_list (map fst (map (cpu_row E h) cs)) (attr_val E h c ''leaf'')) (snd (cpu_row E h c))"
  let ?ml = "\<lambda>i c. msr_line i (attr_val E h c ''address'') (attr_val E h c ''regval'')"
  have ce: "runs (cpuid_entry E i c) v (\<lambda>s v'. s = ?cl i c \<and> v' = v)" if "c \<in> set cs" "w_heap v = h" for i c v
  proof -
    have "count_list (map fst (map (cpu_row E h) cs)) (attr_val E h c ''leaf'') = length (filter (\<lambda>d. attr_val E h d ''leaf'' = attr_val E h c ''leaf'') cs)"
      by (simp add: count_list_map cpu_row_def)
    then show ?thesis
      using runs_cpuid_entry [OF that(2) attrs(1) leafs] that(1) by simp
  qed
  have me: "runs (msr_entry E i c) v (\<lambda>s v'. s = ?ml i c \<and> v' = v)" if "c \<in> set ms" "w_heap v = h" for i c v
    using that has_attrs_val [OF attrs(2) [OF that(1)]] by (simp add: msr_entry_def wp)
  note rows = runs_write_entries [where entry = "cpuid_entry E" and line = ?cl and ns = cs and count = "length cs" and k = "Suc 0" and f = out]
    runs_write_entries [where entry = "msr_entry E" and line = ?ml and ns = ms and count = "length ms" and k = "Suc 0" and f = out]
  have body: "runs (cpu_write_spec E doc pkg out) v (\<lambda>_ w'. w' = file_set out (t @ cpu_package pkg (map (cpu_row E h) cs) (map (msr_row E h) ms)) v)"
    if "w_heap v = h" "w_files v out = Some t" for v t pkg
    using that cs ms
    apply (simp add: cpu_write_spec_def runs_bnd runs_fwrite_set runs_xpath)
    apply (rule runs_mono [OF rows(1) [OF ce]], simp, simp, simp, simp)
    apply (simp add: runs_bnd runs_fwrite_set runs_xpath)
    apply (rule runs_mono [OF rows(2) [OF me]], simp, simp, simp, simp)
    apply (simp add: runs_fwrite_set cpu_package_def enumerate_map split_def cpu_row_def msr_row_def comp_def cpuid_line_def msr_line_def)
    done
  show ?thesis
    unfolding cpu_values_main_def runs_bnd defs
    apply (rule runs_mono [OF runs_read_policy [OF assms(1)]])
    using assms(1) apply (clarsimp simp: wp announce_def runs_print_iff started_def same_fs_def writable_path_def)
    apply (rule runs_mono [OF body], simp, simp, simp)
    done
qed


text \<open>A policy with two \<^verbatim>\<open>cpuid\<close> entries of one leaf, one of another, and an \<^verbatim>\<open>msr\<close> entry.\<close>

definition cpu_demo_entry :: "string \<Rightarrow> string \<Rightarrow> xtree" where
  "cpu_demo_entry leaf sub =
     XT ''cpuid'' [(''leaf'', leaf), (''subleaf'', sub), (''eax'', ''1''), (''ebx'', ''2''), (''ecx'', ''3''), (''edx'', ''4'')] None []"

definition cpu_demo_tree :: xtree where
  "cpu_demo_tree = XT ''system'' [] None [XT ''hardware'' [] None [XT ''processor'' [] None
     [cpu_demo_entry ''16#04#'' ''0'', cpu_demo_entry ''16#01#'' ''0'', cpu_demo_entry ''16#04#'' ''1'',
      XT ''msr'' [(''address'', ''16#9#''), (''regval'', ''7'')] None []]]]"

abbreviation cpu_demo :: "nat \<times> rheap" where
  "cpu_demo \<equiv> demo_parsed cpu_demo_tree"

abbreviation policy_world :: "rheap world" where
  "policy_world \<equiv> files_world [''policy.xml'' \<mapsto> ''<system/>'']"

abbreviation cpu_demo_lxml :: "(rheap, nat) lxml" where
  "cpu_demo_lxml \<equiv> ref_lxml (\<lambda>_. Some cpu_demo_tree) (ast_query (fst cpu_demo)
     [cpuid_path [], msr_path, cpuid_path [AttrIs CHR 0x27 ''leaf'' ''16#04#''], cpuid_path [AttrIs CHR 0x27 ''leaf'' ''16#01#'']])"

lemma policy_started:
  assumes "a_out args = Some ''o''" and "a_src_policy args = Some ''policy.xml''"
  shows "started (ref_lxml (\<lambda>_. Some u) xq) args policy_world (fst (demo_parsed u)) (snd (demo_parsed u)) ''o''"
proof -
  have "dirname ''o'' = []" by code_simp
  then show ?thesis using assms by (simp add: started_def files_world_parse) (simp add: files_world_def flat_world_def writable_path_def)
qed

theorem cpu_values_package_witness:
  "runs (cpu_values_main cpu_demo_lxml (cpu_parse_args (Some ''o'') (Some ''policy.xml'') None)) policy_world
     (\<lambda>_ w'. w_files w' ''o'' = Some (cpu_package ''CPU_Values.Target''
        [(''16#04#'', [''0'', ''1'', ''2'', ''3'', ''4'']), (''16#01#'', [''0'', ''1'', ''2'', ''3'', ''4'']), (''16#04#'', [''1'', ''1'', ''2'', ''3'', ''4''])]
        [(''16#9#'', ''7'')]))"
proof -
  let ?E = cpu_demo_lxml and ?r = "fst cpu_demo" and ?h = "snd cpu_demo" and ?args = "cpu_parse_args (Some ''o'') (Some ''policy.xml'') None"
  let ?f = "r_view ?h" and ?cpu = "\<lambda>l s. [(''leaf'', l), (''subleaf'', s), (''eax'', ''1''), (''ebx'', ''2''), (''ecx'', ''3''), (''edx'', ''4'')]"
  have view: "x_node ?E = r_view" by (simp add: ref_lxml_def)
  have start: "started ?E ?args policy_world ?r ?h ''o''" by (rule policy_started) (simp_all add: cpu_parse_args_def)
  obtain hw p a b c m where t: "n_tag (?f ?r) = ''system''" "n_children (?f ?r) = [hw]" "n_tag (?f hw) = ''hardware''" "n_children (?f hw) = [p]"
    "n_tag (?f p) = ''processor''" "n_children (?f p) = [a, b, c, m]"
    "n_tag (?f a) = ''cpuid''" "n_tag (?f b) = ''cpuid''" "n_tag (?f c) = ''cpuid''" "n_tag (?f m) = ''msr''"
    "n_attrib (?f a) = ?cpu ''16#04#'' ''0''" "n_attrib (?f b) = ?cpu ''16#01#'' ''0''" "n_attrib (?f c) = ?cpu ''16#04#'' ''1''"
    "n_attrib (?f m) = [(''address'', ''16#9#''), (''regval'', ''7'')]"
    using demo_parsed_built(2) [of cpu_demo_tree] by (auto simp: cpu_demo_tree_def cpu_demo_entry_def)
  have sel: "processor_entries (x_node ?E ?h) ?r ''cpuid'' = [a, b, c]" "processor_entries (x_node ?E ?h) ?r ''msr'' = [m]"
    using t by (simp_all add: view processor_entries_def step_ok_def)
  have "distinct (map render_query [cpuid_path [], msr_path, cpuid_path [AttrIs CHR 0x27 ''leaf'' ''16#04#''], cpuid_path [AttrIs CHR 0x27 ''leaf'' ''16#01#'']])"
    by code_simp
  note law = ast_query_answers [OF _ this, of _ "\<lambda>_. Some cpu_demo_tree" ?r ?h]
  have laws: "answers ?E ?h ?r (cpuid_path [])" "answers ?E ?h ?r msr_path" by (rule law, simp)+
  have leafs: "answers ?E ?h ?r (cpuid_path [AttrIs CHR 0x27 ''leaf'' (attr_val ?E ?h d ''leaf'')])"
    if "d \<in> set (processor_entries (x_node ?E ?h) ?r ''cpuid'')" for d
    by (rule law) (use that t in \<open>auto simp: sel [unfolded view] attr_val_def or_default_def view\<close>)
  have has: "has_attrs ?E ?h [''leaf'', ''subleaf'', ''eax'', ''ebx'', ''ecx'', ''edx''] d" if "d \<in> set (processor_entries (x_node ?E ?h) ?r ''cpuid'')" for d
    using that t by (auto simp: sel [unfolded view] has_attrs_def view)
  have has_msr: "has_attrs ?E ?h [''address'', ''regval''] d" if "d \<in> set (processor_entries (x_node ?E ?h) ?r ''msr'')" for d
    using that t by (auto simp: sel [unfolded view] has_attrs_def view)
  have rows: "map (cpu_row ?E ?h) [a, b, c] = [(''16#04#'', [''0'', ''1'', ''2'', ''3'', ''4'']), (''16#01#'', [''0'', ''1'', ''2'', ''3'', ''4'']), (''16#04#'', [''1'', ''1'', ''2'', ''3'', ''4''])]"
    "map (msr_row ?E ?h) [m] = [(''16#9#'', ''7'')]"
    using t by (simp_all add: cpu_row_def msr_row_def attr_val_def or_default_def view)
  have pkg: "a_package ?args = ''CPU_Values.Target''" by (simp add: cpu_parse_args_def or_default_def)
  show ?thesis
    by (rule runs_mono [OF cpu_values_package [OF start laws(1) leafs laws(2) has has_msr, unfolded sel rows pkg]]) (simp_all only: fun_upd_same sel)
qed


subsection \<open>Subject names\<close>

lemma runs_max_len: "runs (max_len (map Some names)) w Q \<longleftrightarrow> names \<noteq> [] \<and> Q (Max (set (map length names))) w"
proof -
  have "foldM (\<lambda>ls n. bnd (as_str n) (\<lambda>s. ret (ls @ [length s]))) acc (map Some names) w = (Inr (acc @ map length names), w)" for acc
    by (induction names arbitrary: acc) (simp_all add: py_simps)
  then show ?thesis by (simp add: max_len_def wp) (auto simp: runs_def)
qed

lemma join_str_concat: "join_str sep (x # xs) = x @ concat (map (\<lambda>y. sep @ y) xs)"
  by (induction xs arbitrary: x) auto


definition name_rows :: "nat \<Rightarrow> nat \<Rightarrow> string list \<Rightarrow> string list" where
  "name_rows maxlen k names = map (\<lambda>(i, n). name_entry maxlen i n) (List.enumerate k names)"

lemma name_rows_numbered:
  "name_rows m k names = map (\<lambda>(i, n). str_nat i @ '' => '' @ CHR 0x22 # n @ replicate (m - length n) CHR '' '' @ [CHR 0x22]) (List.enumerate (Suc k) names)"
  by (induction names arbitrary: k) (simp_all add: name_rows_def name_entry_def ljust_def dq_def)

abbreviation name_sep :: string where
  "name_sep \<equiv> '','' @ nl @ ''      ''"

lemma runs_write_name:
  assumes "w_files w f = Some t"
  shows "runs (write_name f maxlen (i, Some n)) w Q \<longleftrightarrow> Q () (file_set f (t @ (if i = 0 then ''     ('' else name_sep) @ name_entry maxlen i n) w)"
  using assms by (simp add: write_name_def runs_bnd runs_fwrite_set runs_as_obj)

lemma runs_name_rows:
  assumes "w_files w f = Some t" and "0 < k"
  shows "runs (forM (List.enumerate k (map Some names)) (write_name f maxlen)) w
     (\<lambda>_ w'. w' = file_set f (t @ concat (map (\<lambda>y. name_sep @ y) (name_rows maxlen k names))) w)"
  using assms
proof (induction names arbitrary: k t w)
  case Nil
  then show ?case by (simp add: wp name_rows_def file_set_id)
next
  case (Cons n names)
  let ?t = "t @ name_sep @ name_entry maxlen k n"
  have "runs (forM (List.enumerate (Suc k) (map Some names)) (write_name f maxlen)) (file_set f ?t w)
     (\<lambda>_ w'. w' = file_set f (?t @ concat (map (\<lambda>y. name_sep @ y) (name_rows maxlen (Suc k) names))) (file_set f ?t w))"
    by (rule Cons.IH) auto
  then show ?case using Cons.prems by (simp add: runs_bnd runs_write_name name_rows_def)
qed

lemma runs_names_write_spec:
  assumes "w_files w f = Some []" and "names \<noteq> []"
  shows "runs (names_write_spec (map Some names) pkg f) w
     (\<lambda>_ w'. w' = file_set f (names_package pkg names) w)"
proof -
  obtain n ns where names: "names = n # ns" using assms(2) by (cases names) auto
  define m where "m = Max (set (map length names))"
  have rows: "name_rows m 0 names = map (\<lambda>(i, n). str_nat i @ '' => '' @ CHR 0x22 # n @ replicate (m - length n) CHR '' '' @ [CHR 0x22]) (List.enumerate 1 names)"
    using name_rows_numbered [of m 0 names] by simp
  have content: "names_package pkg names = ''private package '' @ pkg @ nl @ ''is'' @ nl @ nl
      @ ''   subtype Name_Type is String (1 .. '' @ str_nat m @ '');'' @ nl @ nl
      @ ''   type Names_Array is array (Subject_Buffer_Range) of Name_Type;'' @ nl @ nl
      @ ''   Subject_Names : constant Names_Array :='' @ nl
      @ ''     ('' @ join_str name_sep (name_rows m 0 names) @ '');'' @ nl @ nl @ ''end '' @ pkg @ '';'' @ nl"
    unfolding rows by (simp add: names_package_def Let_def m_def)
  have rest: "runs (forM (List.enumerate (Suc 0) (map Some ns)) (write_name f m)) (file_set f t w)
     (\<lambda>_ w'. w' = file_set f (t @ concat (map (\<lambda>y. name_sep @ y) (name_rows m (Suc 0) ns))) (file_set f t w))" for t
    by (rule runs_name_rows) auto
  show ?thesis
    unfolding names_write_spec_def runs_bnd [of "max_len xs" for xs] runs_max_len m_def [symmetric]
    apply (simp add: runs_bnd runs_fwrite_set runs_write_name assms(1))
    apply (simp add: names runs_bnd runs_write_name)
    apply (rule runs_mono [OF rest])
    apply (simp add: runs_bnd runs_fwrite_set content [unfolded names] name_rows_def join_str_concat)
    done
qed


text \<open>The log channels of the policy with root \<open>doc\<close>: what the debug server maps under a name that starts with
  \<^verbatim>\<open>log_\<close>.\<close>

definition policy_subjects :: "'n view \<Rightarrow> 'n \<Rightarrow> 'n list" where
  "policy_subjects f doc = xabs f doc [(''system'', []), (''subjects'', []), (''subject'', [])]"

definition is_dbgserver :: "'n view \<Rightarrow> 'n \<Rightarrow> bool" where
  "is_dbgserver f c \<longleftrightarrow> map_of (n_attrib (f c)) ''ref'' = Some ''dbgserver''"

definition log_channels :: "'n view \<Rightarrow> 'n \<Rightarrow> 'n list" where
  "log_channels f doc =
     concat (map (\<lambda>s. concat (map (\<lambda>c. filter (\<lambda>m. n_tag (f m) = ''map'' \<and> (\<exists>x. map_of (n_attrib (f m)) ''logical'' = Some (''log_'' @ x)))
         (n_children (f c))) (filter (\<lambda>c. n_tag (f c) = ''component'' \<and> is_dbgserver f c) (n_children (f s))))) (policy_subjects f doc))"

text \<open>The subject a log channel belongs to: the first that has a component other than the debug server which maps the
  channel, or else the first that writes the channel.\<close>

definition maps_channel :: "'n view \<Rightarrow> string \<Rightarrow> 'n \<Rightarrow> bool" where
  "maps_channel f phys s \<longleftrightarrow>
     (\<exists>c \<in> set (n_children (f s)). n_tag (f c) = ''component'' \<and> \<not> is_dbgserver f c
        \<and> (\<exists>m \<in> set (n_children (f c)). n_tag (f m) = ''map'' \<and> map_of (n_attrib (f m)) ''physical'' = Some phys))"

definition writes_channel :: "'n view \<Rightarrow> string \<Rightarrow> 'n \<Rightarrow> bool" where
  "writes_channel f phys s \<longleftrightarrow>
     (\<exists>c \<in> set (n_children (f s)). n_tag (f c) = ''channels''
        \<and> (\<exists>m \<in> set (n_children (f c)). n_tag (f m) = ''writer'' \<and> map_of (n_attrib (f m)) ''physical'' = Some phys))"

definition log_subject :: "'n view \<Rightarrow> 'n \<Rightarrow> string \<Rightarrow> 'n option" where
  "log_subject f doc phys =
     (case filter (maps_channel f phys) (policy_subjects f doc) of
        s # _ \<Rightarrow> Some s
      | [] \<Rightarrow> (case filter (writes_channel f phys) (policy_subjects f doc) of s # _ \<Rightarrow> Some s | [] \<Rightarrow> None))"

text \<open>The three queries of the script, and what they select.\<close>

abbreviation log_path :: xquery where
  "log_path \<equiv> [Child ''system'' [], Child ''subjects'' [], Child ''subject'' [], Child ''component'' [AttrIs CHR 0x27 ''ref'' ''dbgserver''],
     Child ''map'' [AttrStarts ''logical'' ''log_'']]"

abbreviation mapping_path :: "string \<Rightarrow> xquery" where
  "mapping_path phys \<equiv> [Child ''system'' [], Child ''subjects'' [], Child ''subject'' [],
     Child ''component'' [AndT (NotT (AttrIs CHR 0x27 ''ref'' ''dbgserver'')) (PathAttrIs [''map''] ''physical'' phys)], Up]"

abbreviation writer_path :: "string \<Rightarrow> xquery" where
  "writer_path phys \<equiv> [Child ''system'' [], Child ''subjects'' [], Child ''subject'' [PathAttrIs [''channels'', ''writer''] ''physical'' phys]]"

lemma render_names_paths:
  "render_query log_path = log_query" "render_query (mapping_path p) = mapping_query p" "render_query (writer_path p) = writer_query p"
  by (simp_all add: render_query_def log_query_def mapping_query_def writer_query_def quoted_def sq_def)

lemma qabs_subjects: "qabs f doc [Child ''system'' [], Child ''subjects'' [], Child ''subject'' []] = policy_subjects f doc"
  using qabs_tags [of f doc "[''system'', ''subjects'', ''subject'']"] by (simp add: policy_subjects_def del: qabs.simps xabs.simps)

lemma qabs_below_subjects: "qabs f doc ([Child ''system'' [], Child ''subjects'' [], Child ''subject'' []] @ ss) = qsteps f ss (policy_subjects f doc)"
  unfolding qabs_subjects [symmetric] by (auto simp: qsteps_append)

lemma startswith_iff: "startswith s p \<longleftrightarrow> (\<exists>x. s = p @ x)"
  unfolding startswith_def by (metis append_eq_conv_conj)

lemma starts_log: "startswith (case v of None \<Rightarrow> [] | Some s \<Rightarrow> s) ''log_'' \<longleftrightarrow> (\<exists>x. v = Some (''log_'' @ x))"
  by (cases v) (auto simp: startswith_iff)

lemma log_path_selects: "qabs f doc log_path = log_channels f doc"
proof -
  have nest: "concat (map g (concat (map k xs))) = concat (map (\<lambda>x. concat (map g (k x))) xs)" for g :: "'a \<Rightarrow> 'a list" and k xs
    by (induction xs) auto
  show ?thesis
    using qabs_below_subjects [of f doc "drop 3 log_path"]
    by (simp add: log_channels_def is_dbgserver_def starts_log nest del: qabs.simps)
qed

lemma mapping_path_selects:
  assumes "wf_view A f"
  shows "qabs f doc (mapping_path phys) = filter (maps_channel f phys) (policy_subjects f doc)"
proof -
  let ?P = "\<lambda>c. n_tag (f c) = ''component'' \<and> \<not> is_dbgserver f c \<and> (\<exists>m \<in> set (n_children (f c)). n_tag (f m) = ''map'' \<and> map_of (n_attrib (f m)) ''physical'' = Some phys)"
  have dist: "distinct (policy_subjects f doc)" using xwalk_distinct [OF assms] by (simp add: policy_subjects_def del: xwalk.simps)
  have "qstep f (Child ''component'' [AndT (NotT (AttrIs CHR 0x27 ''ref'' ''dbgserver'')) (PathAttrIs [''map''] ''physical'' phys)]) ns
      = concat (map (\<lambda>s. filter ?P (n_children (f s))) ns)" for ns
    by (auto simp: is_dbgserver_def list_ex_iff intro!: arg_cong [of _ _ concat] map_cong filter_cong)
  then have "qabs f doc (mapping_path phys) = qstep f Up (concat (map (\<lambda>s. filter ?P (n_children (f s))) (policy_subjects f doc)))"
    using qabs_below_subjects [of f doc "drop 3 (mapping_path phys)"] by (simp del: qabs.simps qstep.simps)
  also have "\<dots> = filter (\<lambda>s. list_ex ?P (n_children (f s))) (policy_subjects f doc)"
    by (rule qstep_up [OF dist]) (use wf_viewD(4) [OF assms] in blast)
  finally show ?thesis by (simp add: maps_channel_def [abs_def] list_ex_iff)
qed

lemma writer_path_selects: "qabs f doc (writer_path phys) = filter (writes_channel f phys) (policy_subjects f doc)"
proof -
  let ?q = "[Child ''system'' [], Child ''subjects'' []]" and ?p = "PathAttrIs [''channels'', ''writer''] ''physical'' phys"
  have "qabs f doc (writer_path phys) = filter (\<lambda>c. list_all (holds f c) [?p]) (qabs f doc (?q @ [Child ''subject'' []]))"
    using qabs_snoc [of ?q f doc "''subject''" "[?p]"] qabs_snoc [of ?q f doc "''subject''" "[]"] qstep_tests [of f "''subject''" "[?p]"]
    by (simp del: qabs.simps qstep.simps)
  moreover have "holds f c ?p \<longleftrightarrow> writes_channel f phys c" for c by (auto simp: writes_channel_def list_ex_iff)
  ultimately show ?thesis using qabs_subjects [of f doc] by (simp del: qabs.simps holds.simps)
qed

text \<open>The script finds the subject of the channel \<open>c\<close>: the queries it makes are answered, the subject exists.\<close>

definition logs_to :: "('h, 'n) lxml \<Rightarrow> 'h \<Rightarrow> 'n \<Rightarrow> 'n \<Rightarrow> 'n \<Rightarrow> bool" where
  "logs_to E h doc c s \<longleftrightarrow> has_attrs E h [''physical''] c \<and> has_attrs E h [''name''] s
     \<and> (case x_xpath E h doc (mapping_query (attr_val E h c ''physical'')) of
          Inr (m # _) \<Rightarrow> m = s
        | Inr [] \<Rightarrow> (case x_xpath E h doc (writer_query (attr_val E h c ''physical'')) of Inr (m # _) \<Rightarrow> m = s | _ \<Rightarrow> False)
        | Inl _ \<Rightarrow> False)"

lemma logs_toI:
  assumes "wf_view A (x_node E h)" and "answers E h doc (mapping_path (attr_val E h c ''physical''))" "answers E h doc (writer_path (attr_val E h c ''physical''))"
    and "has_attrs E h [''physical''] c" "has_attrs E h [''name''] s" and "log_subject (x_node E h) doc (attr_val E h c ''physical'') = Some s"
  shows "logs_to E h doc c s"
  using answers_root [OF assms(2) render_names_paths(2)] answers_root [OF assms(3) render_names_paths(3)] assms(4-6)
  unfolding mapping_path_selects [OF assms(1)] writer_path_selects by (auto simp: logs_to_def log_subject_def split: list.splits)

lemma channel_name_run:
  assumes "logs_to E (w_heap w) doc c s"
  shows "channel_name E doc c w = (Inr (Some (attr_val E (w_heap w) s ''name'')), w)"
proof -
  have "runs (channel_name E doc c) w (\<lambda>n w'. n = Some (attr_val E (w_heap w) s ''name'') \<and> w' = w)"
    using assms has_attrs_val [of E "w_heap w" "[''physical'']" c "''physical''"] has_attrs_val [of E "w_heap w" "[''name'']" s "''name''"]
    by (auto simp: logs_to_def channel_name_def wp split: sum.splits list.splits)
  then show ?thesis by (auto simp: runs_def)
qed

lemma extract_subject_names_run:
  assumes "x_xpath E (w_heap w) doc log_query = Inr cs" and "\<And>c. c \<in> set cs \<Longrightarrow> logs_to E (w_heap w) doc c (subj c)"
  shows "extract_subject_names E doc w = (Inr (map (\<lambda>c. Some (attr_val E (w_heap w) (subj c) ''name'')) cs), w)"
proof -
  have "foldM (\<lambda>names c. bnd (channel_name E doc c) (\<lambda>n. ret (names @ [n]))) [] cs w
      = (Inr ([] @ map (\<lambda>c. Some (attr_val E (w_heap w) (subj c) ''name'')) cs), w)"
    by (rule foldM_collect) (simp add: channel_name_run [OF assms(2)])
  then show ?thesis using assms(1) by (simp add: extract_subject_names_def bnd_def xpath_def heap_try_def)
qed

lemma started_names_run:
  assumes start: "started E args w doc h out" and names: "\<And>v. w_heap v = h \<Longrightarrow> extract_subject_names E doc v = (Inr ns, v)"
  shows "\<exists>v. subject_names_main E args w = names_write_spec ns (a_package args) out v
     \<and> w_heap v = h \<and> w_files v = (w_files w)(out := Some [])"
proof -
  obtain v where v: "read_policy ''Error: Muen output file not specified'' E args w = (Inr (doc, out), v)" "w_heap v = h" "same_fs w v"
    using runs_read_policy [OF start, of "''Error: Muen output file not specified''"] unfolding runs_def by auto
  have "writable_path v out" using start v(3) by (simp add: started_def same_fs_def writable_path_def)
  then have "subject_names_main E args w = names_write_spec ns (a_package args) out
      (v\<lparr>w_files := (w_files v)(out := Some []), w_out := w_out v @ ''Writing Ada package '' @ sq (a_package args) @ '' file to '' @ sq out @ [CHR 0x0A]\<rparr>)"
    using v names [OF v(2)] by (simp add: subject_names_main_def py_simps announce_def)
  then show ?thesis using v by (auto simp: same_fs_def)
qed

text \<open>C39. The generated package maps the log channels of the policy, in document order and numbered from 1, to the
  names of the subjects they belong to, all padded with blanks to the length of the longest.\<close>

theorem subject_names_package:
  assumes "started E args w doc h out" and "wf_view A (x_node E h)"
    and "answers E h doc [Child ''system'' [], Child ''subjects'' [], Child ''subject'' [],
        Child ''component'' [AttrIs CHR 0x27 ''ref'' ''dbgserver''], Child ''map'' [AttrStarts ''logical'' ''log_'']]"
    and mapping: "\<And>c. c \<in> set (log_channels (x_node E h) doc) \<Longrightarrow>
        answers E h doc [Child ''system'' [], Child ''subjects'' [], Child ''subject'' [],
          Child ''component'' [AndT (NotT (AttrIs CHR 0x27 ''ref'' ''dbgserver'')) (PathAttrIs [''map''] ''physical'' (attr_val E h c ''physical''))], Up]"
    and writer: "\<And>c. c \<in> set (log_channels (x_node E h) doc) \<Longrightarrow>
        answers E h doc [Child ''system'' [], Child ''subjects'' [],
          Child ''subject'' [PathAttrIs [''channels'', ''writer''] ''physical'' (attr_val E h c ''physical'')]]"
    and subj: "\<And>c. c \<in> set (log_channels (x_node E h) doc) \<Longrightarrow> has_attrs E h [''physical''] c \<and> has_attrs E h [''name''] (subj c)
        \<and> log_subject (x_node E h) doc (attr_val E h c ''physical'') = Some (subj c)"
    and "log_channels (x_node E h) doc \<noteq> []"
  shows "runs (subject_names_main E args) w (\<lambda>_ w'.
     w_files w' = (w_files w)(out := Some (names_package (a_package args) (map (\<lambda>c. attr_val E h (subj c) ''name'') (log_channels (x_node E h) doc)))))"
proof -
  define cs where "cs = log_channels (x_node E h) doc"
  define names where "names = map (\<lambda>c. attr_val E h (subj c) ''name'') cs"
  have some: "map (\<lambda>c. Some (attr_val E h (subj c) ''name'')) cs = map Some names" by (simp add: names_def)
  have query: "x_xpath E h doc log_query = Inr cs"
    using answers_root [OF assms(3) render_names_paths(1)] unfolding log_path_selects cs_def .
  have to: "logs_to E h doc c (subj c)" if "c \<in> set cs" for c
    by (rule logs_toI [OF assms(2)]) (use mapping writer subj that in \<open>auto simp: cs_def\<close>)
  have "extract_subject_names E doc v = (Inr (map Some names), v)" if "w_heap v = h" for v
    using extract_subject_names_run [of E v doc cs subj] query to that some by simp
  then obtain v where v: "subject_names_main E args w = names_write_spec (map Some names) (a_package args) out v"
    "w_files v = (w_files w)(out := Some [])"
    using started_names_run [OF assms(1)] by metis
  have "runs (names_write_spec (map Some names) (a_package args) out) v
     (\<lambda>_ w'. w' = file_set out (names_package (a_package args) names) v)"
    by (rule runs_names_write_spec) (use v assms(7) in \<open>simp_all add: names_def cs_def\<close>)
  then show ?thesis
    using v(2) unfolding cs_def [symmetric] names_def [symmetric] runs_def v(1) by auto
qed

text \<open>A policy without log channels: the script fails, after the output file was truncated.\<close>

theorem subject_names_no_channels:
  assumes "started E args w doc h out" and "x_xpath E h doc log_query = Inr []"
  shows "raises (subject_names_main E args) w (ValueError ''max() arg is an empty sequence'')
     \<and> w_files (snd (subject_names_main E args w)) = (w_files w)(out := Some [])"
proof -
  have "extract_subject_names E doc v = (Inr [], v)" if "w_heap v = h" for v
    using extract_subject_names_run [of E v doc "[]"] assms(2) that by simp
  then obtain v where "subject_names_main E args w = names_write_spec [] (a_package args) out v" "w_files v = (w_files w)(out := Some [])"
    using started_names_run [OF assms(1)] by metis
  then show ?thesis by (simp add: raises_def names_write_spec_def max_len_def py_simps)
qed


definition names_demo_args :: ada_args where
  "names_demo_args = names_parse_args (Some ''o'') (Some ''policy.xml'') None"

lemma names_demo_started: "started (ref_lxml (\<lambda>_. Some u) xq) names_demo_args policy_world (fst (demo_parsed u)) (snd (demo_parsed u)) ''o''"
  by (rule policy_started) (simp_all add: names_demo_args_def names_parse_args_def)

text \<open>A policy with two log channels and another one: \<^verbatim>\<open>linux\<close> maps the first, \<^verbatim>\<open>sm\<close> writes the second.\<close>

definition demo_map :: "string \<Rightarrow> string \<Rightarrow> xtree" where
  "demo_map logical phys = XT ''map'' [(''logical'', logical), (''physical'', phys)] None []"

definition dbg_subject :: xtree where
  "dbg_subject = XT ''subject'' [(''name'', ''dbg'')] None
     [XT ''component'' [(''ref'', ''dbgserver'')] None [demo_map ''log_a'' ''pa'', demo_map ''log_b'' ''pb'', demo_map ''x'' ''pc'']]"

definition linux_subject :: xtree where
  "linux_subject = XT ''subject'' [(''name'', ''linux'')] None [XT ''component'' [(''ref'', ''vm'')] None [demo_map ''l'' ''pa'']]"

definition sm_subject :: xtree where
  "sm_subject = XT ''subject'' [(''name'', ''sm'')] None [XT ''channels'' [] None [XT ''writer'' [(''physical'', ''pb'')] None []]]"

definition names_demo_tree :: xtree where
  "names_demo_tree = XT ''system'' [] None [XT ''subjects'' [] None [dbg_subject, linux_subject, sm_subject]]"

abbreviation names_demo :: "nat \<times> rheap" where
  "names_demo \<equiv> demo_parsed names_demo_tree"

abbreviation names_demo_paths :: "xquery list" where
  "names_demo_paths \<equiv> [log_path, mapping_path ''pa'', writer_path ''pa'', mapping_path ''pb'', writer_path ''pb'']"

abbreviation names_demo_lxml :: "(rheap, nat) lxml" where
  "names_demo_lxml \<equiv> ref_lxml (\<lambda>_. Some names_demo_tree) (ast_query (fst names_demo) names_demo_paths)"

lemma names_demo_paths_distinct: "distinct (map render_query names_demo_paths)"
  by (simp add: render_query_def quoted_def)

theorem subject_names_package_witness:
  "runs (subject_names_main names_demo_lxml names_demo_args) policy_world
     (\<lambda>_ w'. w_files w' ''o'' = Some (names_package ''Dbg.Subject_List'' [''linux'', ''sm'']))"
proof -
  let ?E = names_demo_lxml and ?r = "fst names_demo" and ?h = "snd names_demo"
  let ?f = "r_view ?h"
  have view: "x_node ?E = r_view" by (simp add: ref_lxml_def)
  have wf: "wf_view (ref_nodes ?h) (x_node ?E ?h)" using demo_parsed_built(1) [of names_demo_tree] by (simp add: view)
  obtain ss s1 s2 s3 where r: "n_tag (?f ?r) = ''system''" "n_children (?f ?r) = [ss]" "n_tag (?f ss) = ''subjects''" "n_children (?f ss) = [s1, s2, s3]"
    and sub: "has_tree (ref_nodes ?h) ?f s1 dbg_subject" "has_tree (ref_nodes ?h) ?f s2 linux_subject" "has_tree (ref_nodes ?h) ?f s3 sm_subject"
    using demo_parsed_built(2) [of names_demo_tree] by (auto simp: names_demo_tree_def)
  obtain c a b x where c: "n_tag (?f s1) = ''subject''" "n_children (?f s1) = [c]" "n_tag (?f c) = ''component''" "n_attrib (?f c) = [(''ref'', ''dbgserver'')]"
    "n_children (?f c) = [a, b, x]" "n_tag (?f a) = ''map''" "n_attrib (?f a) = [(''logical'', ''log_a''), (''physical'', ''pa'')]"
    "n_tag (?f b) = ''map''" "n_attrib (?f b) = [(''logical'', ''log_b''), (''physical'', ''pb'')]"
    "n_tag (?f x) = ''map''" "n_attrib (?f x) = [(''logical'', ''x''), (''physical'', ''pc'')]"
    using sub(1) by (auto simp: dbg_subject_def demo_map_def)
  obtain d y where d: "n_tag (?f s2) = ''subject''" "n_attrib (?f s2) = [(''name'', ''linux'')]" "n_children (?f s2) = [d]" "n_tag (?f d) = ''component''"
    "n_attrib (?f d) = [(''ref'', ''vm'')]" "n_children (?f d) = [y]" "n_tag (?f y) = ''map''" "n_attrib (?f y) = [(''logical'', ''l''), (''physical'', ''pa'')]"
    using sub(2) by (auto simp: linux_subject_def demo_map_def)
  obtain e z where e: "n_tag (?f s3) = ''subject''" "n_attrib (?f s3) = [(''name'', ''sm'')]" "n_children (?f s3) = [e]" "n_tag (?f e) = ''channels''"
    "n_children (?f e) = [z]" "n_tag (?f z) = ''writer''" "n_attrib (?f z) = [(''physical'', ''pb'')]"
    using sub(3) by (auto simp: sm_subject_def)
  note s = r c(1) d(1,2) e(1,2)
  have subjects: "policy_subjects ?f ?r = [s1, s2, s3]" using s by (simp add: policy_subjects_def step_ok_def)
  have chans: "log_channels (x_node ?E ?h) ?r = [a, b]"
    using s c d e by (simp add: view log_channels_def subjects is_dbgserver_def)
  have to: "log_subject ?f ?r ''pa'' = Some s2" "log_subject ?f ?r ''pb'' = Some s3"
    using s c d e by (simp_all add: log_subject_def subjects maps_channel_def writes_channel_def is_dbgserver_def)
  have ne: "a \<noteq> b" using c by auto
  define subj where "subj m = (if m = a then s2 else s3)" for m
  have phys: "attr_val ?E ?h a ''physical'' = ''pa''" "attr_val ?E ?h b ''physical'' = ''pb''" using c by (simp_all add: attr_val_def or_default_def view)
  note law = ast_query_answers [OF _ names_demo_paths_distinct, of _ "\<lambda>_. Some names_demo_tree" ?r ?h]
  have laws: "answers ?E ?h ?r log_path" by (rule law) simp
  have laws': "answers ?E ?h ?r (mapping_path (attr_val ?E ?h m ''physical''))" "answers ?E ?h ?r (writer_path (attr_val ?E ?h m ''physical''))"
    if "m \<in> set (log_channels (x_node ?E ?h) ?r)" for m
    by (rule law, use that phys in \<open>auto simp: chans\<close>)+
  have attrs: "has_attrs ?E ?h [''physical''] m \<and> has_attrs ?E ?h [''name''] (subj m)
      \<and> log_subject (x_node ?E ?h) ?r (attr_val ?E ?h m ''physical'') = Some (subj m)" if "m \<in> set (log_channels (x_node ?E ?h) ?r)" for m
    using that c s ne phys to unfolding chans by (auto simp: subj_def has_attrs_def view)
  have names: "map (\<lambda>c. attr_val ?E ?h (subj c) ''name'') [a, b] = [''linux'', ''sm'']"
    using s ne by (simp add: subj_def attr_val_def or_default_def view)
  have pkg: "a_package names_demo_args = ''Dbg.Subject_List''" by (simp add: names_demo_args_def names_parse_args_def or_default_def)
  show ?thesis
    by (rule runs_mono [OF subject_names_package [OF names_demo_started wf laws laws' attrs, unfolded chans names pkg]]) (simp_all add: chans)
qed

theorem subject_names_no_channels_witness:
  "raises (subject_names_main (ref_lxml (\<lambda>_. Some (XT ''system'' [] None [])) (\<lambda>_ _ _. Inr [])) names_demo_args) policy_world
     (ValueError ''max() arg is an empty sequence'')"
proof -
  let ?E = "ref_lxml (\<lambda>_. Some (XT ''system'' [] None [])) (\<lambda>_ _ _. Inr []) :: (rheap, nat) lxml"
  let ?r = "demo_parsed (XT ''system'' [] None [])"
  have "x_xpath ?E (snd ?r) (fst ?r) log_query = Inr []" by simp
  from subject_names_no_channels [OF names_demo_started this] show ?thesis by (rule conjunct1)
qed

end
