(* ===== verification/Py_Float.thy ===== *)
theory Py_Float
  imports Pymonad
begin

text \<open>
  Python's true division of integers and \<^verbatim>\<open>str\<close> of the result.  A quotient is rounded to the nearest
  double (ties to even, gradual underflow, overflow an error), and printed with the fewest decimal
  digits that read back as that double, as the language reference says of \<^verbatim>\<open>float.__repr__\<close>.  Doubles are
  kept as a sign and \<open>m * 2 ^ e\<close>; positive rationals are pairs of integers.
\<close>

type_synonym ratio = "int \<times> int"

definition scale_by :: "int \<Rightarrow> int \<Rightarrow> ratio \<Rightarrow> ratio" where
  "scale_by b k = (\<lambda>(n, d). if 0 \<le> k then (n * b ^ nat k, d) else (n, d * b ^ nat (- k)))"

definition round_half_even :: "ratio \<Rightarrow> int" where
  "round_half_even = (\<lambda>(n, d).
     let q = n div d; r = n mod d
     in if 2 * r < d \<or> 2 * r = d \<and> even q then q else q + 1)"

definition ratio_eq :: "ratio \<Rightarrow> ratio \<Rightarrow> bool" where
  "ratio_eq = (\<lambda>(n, d) (n', d'). n * d' = n' * d)"

definition ratio_less :: "ratio \<Rightarrow> ratio \<Rightarrow> bool" where
  "ratio_less = (\<lambda>(n, d) (n', d'). n * d' < n' * d)"

text \<open>The number of digits of a positive integer, and the \<open>k\<close> with \<open>b ^ (k - 1) \<le> n / d < b ^ k\<close>.\<close>

function numlen :: "int \<Rightarrow> int \<Rightarrow> int" where
  "numlen b n = (if n \<le> 0 \<or> b \<le> 1 then 0 else 1 + numlen b (n div b))"
  by auto
termination
proof (relation "measure (\<lambda>(b, n). nat n)")
  fix b n :: int
  assume "\<not> (n \<le> 0 \<or> b \<le> 1)"
  then have "n div b < n" "0 \<le> n div b" by (auto intro: int_div_less_self pos_imp_zdiv_nonneg_iff [THEN iffD2])
  then show "((b, n div b), b, n) \<in> measure (\<lambda>(b, n). nat n)" by simp
qed simp

declare numlen.simps [simp del]

definition magnitude :: "int \<Rightarrow> ratio \<Rightarrow> int" where
  "magnitude b r =
     (let k = numlen b (fst r) - numlen b (snd r)
      in if ratio_less r (scale_by b k (1, 1)) then k else k + 1)"

text \<open>The double nearest to a positive ratio, as mantissa and exponent.\<close>

definition nearest :: "ratio \<Rightarrow> int \<times> int" where
  "nearest r = (let e = max (magnitude 2 r - 53) (- 1074) in (round_half_even (scale_by 2 (- e) r), e))"

definition dbl_ratio :: "int \<times> int \<Rightarrow> ratio" where
  "dbl_ratio = (\<lambda>(m, e). scale_by 2 e (m, 1))"

record float64 =
  f_neg :: bool
  f_abs :: "int \<times> int"

definition true_div :: "int \<Rightarrow> int \<Rightarrow> pyerr + float64" where
  "true_div n d =
     (if d = 0 then Inl ZeroDivisionError
      else let v = (if n = 0 then (0, 0) else nearest (\<bar>n\<bar>, \<bar>d\<bar>))
           in if ratio_less (dbl_ratio v) (2 ^ 1024, 1) then Inr \<lparr>f_neg = (n < 0) \<noteq> (d < 0), f_abs = v\<rparr>
              else Inl OverflowError)"

text \<open>The shortest decimals that read back: \<open>(c, k, p)\<close> stands for \<open>c * 10 ^ (p - k)\<close>; seventeen digits
  always suffice.\<close>

definition reads_back :: "int \<times> int \<Rightarrow> int \<Rightarrow> nat \<Rightarrow> int \<Rightarrow> bool" where
  "reads_back v p k c \<longleftrightarrow>
     0 < c \<and> ratio_eq (dbl_ratio (nearest (scale_by 10 (p - int k) (c, 1)))) (dbl_ratio v)"

definition decimals :: "int \<times> int \<Rightarrow> int \<Rightarrow> nat \<Rightarrow> int option" where
  "decimals v p k =
     (let (n, d) = scale_by 10 (int k - p) (dbl_ratio v); c = n div d
      in if reads_back v p k c \<and> (2 * (n mod d) < d \<or> 2 * (n mod d) = d \<and> even c \<or> \<not> reads_back v p k (c + 1)) then Some c
         else if reads_back v p k (c + 1) then Some (c + 1) else None)"

definition shortest :: "int \<times> int \<Rightarrow> string \<times> int" where
  "shortest v =
     (let p = magnitude 10 (dbl_ratio v) in
      case List.find (\<lambda>k. decimals v p k \<noteq> None) [1..<18] of
        None \<Rightarrow> ([], p)
      | Some k \<Rightarrow> (let ds = str_int (the (decimals v p k)) in (rstrip ''0'' ds, p + int (length ds) - int k)))"

definition fixed_or_exp :: "string \<Rightarrow> int \<Rightarrow> string" where
  "fixed_or_exp ds p =
     (let zeros = (\<lambda>k. replicate (nat k) CHR ''0'') in
      if - 4 < p \<and> p \<le> 16
      then (if p \<le> 0 then ''0.'' @ zeros (- p) @ ds
            else if int (length ds) \<le> p then ds @ zeros (p - int (length ds)) @ ''.0''
            else take (nat p) ds @ ''.'' @ drop (nat p) ds)
      else take 1 ds @ (if length ds = 1 then [] else ''.'' @ drop 1 ds)
           @ ''e'' @ (if p - 1 < 0 then ''-'' else ''+'') @ rjust (str_int \<bar>p - 1\<bar>) 2 CHR ''0'')"

definition str_float :: "float64 \<Rightarrow> string" where
  "str_float x =
     (if f_neg x then ''-'' else [])
     @ (if fst (f_abs x) = 0 then ''0.0'' else case shortest (f_abs x) of (ds, p) \<Rightarrow> fixed_or_exp ds p)"

end
