(* ===== verification/Gen_Manifest.thy ===== *)
theory Gen_Manifest
  imports Etree_Ref Py_Float "HOL-Library.Multiset"
begin

text \<open>
  \<^verbatim>\<open>tools/scripts/mugenmanifest.py\<close>: the table of the memory regions with content, sorted by physical
  address.
\<close>

definition region_query :: string where
  "region_query = ''/system/memory/memory[file|fill]''"

text \<open>\<^verbatim>\<open>sorted(nodes, key=...)\<close>: stable.  The keys are integers, or the empty string for an empty
  address; Python does not compare the two.\<close>

fun key_int :: "pyval \<Rightarrow> int" where
  "key_int (PInt i) = i"
| "key_int _ = 0"

definition sort_regions :: "(pyval \<times> 'n) list \<Rightarrow> pyerr + 'n list" where
  "sort_regions kns =
     (if list_all (\<lambda>(k, _). k = PInt (key_int k)) kns then Inr (map snd (sort_key (\<lambda>(k, _). key_int k) kns))
      else if list_all (\<lambda>(k, _). k = PStr []) kns then Inr (map snd kns)
      else Inl TypeError)"

text \<open>The size of a file region: what is used of it and how much of the memory that is.\<close>

definition file_usage :: "string option \<Rightarrow> string option \<Rightarrow> string \<Rightarrow> ('h, string \<times> string) py" where
  "file_usage offset msize content_size =
     bnd (lift (ada_hex_to_int (of_opt offset))) (\<lambda>offset_nr.
     bnd (lift (ada_hex_to_int (of_opt msize))) (\<lambda>size_nr.
     bnd (lift (ada_hex_to_int (PStr content_size))) (\<lambda>c.
     bnd (as_int c) (\<lambda>c.
     bnd (as_int offset_nr) (\<lambda>offset_nr.
     let content_size_nr = c - offset_nr in
     bnd (as_int size_nr) (\<lambda>size_nr.
     bnd (lift (true_div (content_size_nr * 100 + (size_nr - 1)) size_nr)) (\<lambda>q.
     ret (str_float q @ ''%'', int_to_ada_hex_int content_size_nr))))))))"

definition manifest_line :: "('h, 'n) lxml \<Rightarrow> 'n \<Rightarrow> ('h, string) py" where
  "manifest_line E node =
     bnd (xget E node ''name'') (\<lambda>name.
     bnd (xget E node ''physicalAddress'') (\<lambda>addr.
     bnd (xget E node ''size'') (\<lambda>msize.
     bnd (xpath0 E node ''file|fill'') (\<lambda>content_node.
     bnd (xtag E content_node) (\<lambda>tag.
     bnd (if tag = ''file'' then
            bnd (xget E content_node ''offset'') (\<lambda>f_offset.
            let offset = (if f_offset \<noteq> Some ''none'' then f_offset else Some ''16#0000#'') in
            bnd (xget E node ''type'') (\<lambda>t.
            bnd (xget E content_node ''size'') (\<lambda>content_size.
            if content_size = None \<or> content_size = Some []
            then sys_exit ''Error: No size attribute in file node, use mucfgmemhashes to add one''
            else
            bnd (file_usage offset msize (the content_size)) (\<lambda>(usage, content_size).
            bnd (xget E content_node ''filename'') (\<lambda>content.
            ret [offset, Some content_size, Some usage, t, content])))))
          else
            bnd (xget E content_node ''pattern'') (\<lambda>content.
            ret [Some ''16#0000#'', msize, Some ''100%'', Some ''fill_pattern'', content])) (\<lambda>fields.
     bnd (foldM (\<lambda>fs v. bnd (as_str v) (\<lambda>s. ret (fs @ [s]))) [] (name # addr # msize # fields)) (\<lambda>fs.
     ret (join_str '';'' fs @ nl))))))))"

definition manifest_header :: string where
  "manifest_header = ''[Name;PhysicalAddress;MemorySize;Offset;ContentSize;Usage;Type;Content]'' @ nl"

definition region_keys :: "('h, 'n) lxml \<Rightarrow> 'n list \<Rightarrow> ('h, (pyval \<times> 'n) list) py" where
  "region_keys E nodes =
     foldM (\<lambda>kns c.
       bnd (xget E c ''physicalAddress'') (\<lambda>a.
       bnd (lift (ada_hex_to_int (of_opt a))) (\<lambda>k. ret (kns @ [(k, c)])))) [] nodes"

definition manifest_main :: "('h, 'n) lxml \<Rightarrow> string \<Rightarrow> string list \<Rightarrow> ('h, unit) py" where
  "manifest_main E prog args =
     (case args of
        [policy, manifest] \<Rightarrow>
          bnd (xparse E policy) (\<lambda>doc.
          bnd (xpath E doc region_query) (\<lambda>nodes.
          bnd (region_keys E nodes) (\<lambda>kns.
          bnd (lift (sort_regions kns)) (\<lambda>nodes.
          seq (open_write manifest) (
          seq (fwrite manifest manifest_header) (
          forM nodes (\<lambda>node. bnd (manifest_line E node) (fwrite manifest))))))))
      | _ \<Rightarrow> seq (print (prog @ '' <policy_b> <manifest>'')) (raise (SystemExit 1)))"


subsection \<open>The rows\<close>

definition node_attr :: "('h, 'n) lxml \<Rightarrow> 'h \<Rightarrow> 'n \<Rightarrow> string \<Rightarrow> string option" where
  "node_attr E h n k = map_of (n_attrib (x_node E h n)) k"

text \<open>The row of a region, in terms of the attributes: for a file, the size is that of the file from the
  offset on.\<close>

inductive region_row :: "('h, 'n) lxml \<Rightarrow> 'h \<Rightarrow> 'n \<Rightarrow> string \<Rightarrow> bool" for E h n where
  fill_row:
  "x_xpath E h n ''file|fill'' = Inr (c # cs) \<Longrightarrow> n_tag (x_node E h c) \<noteq> ''file'' \<Longrightarrow>
   map (node_attr E h n) [''name'', ''physicalAddress'', ''size''] = map Some [name, addr, msize] \<Longrightarrow>
   node_attr E h c ''pattern'' = Some pattern \<Longrightarrow>
   region_row E h n (join_str '';'' [name, addr, msize, ''16#0000#'', msize, ''100%'', ''fill_pattern'', pattern] @ nl)"
| file_row:
  "x_xpath E h n ''file|fill'' = Inr (c # cs) \<Longrightarrow> n_tag (x_node E h c) = ''file'' \<Longrightarrow>
   map (node_attr E h n) [''name'', ''physicalAddress'', ''size'', ''type''] = map Some [name, addr, msize, t] \<Longrightarrow>
   map (node_attr E h c) [''offset'', ''size'', ''filename''] = map Some [f_offset, csize, filename] \<Longrightarrow>
   offset = (if f_offset = ''none'' then ''16#0000#'' else f_offset) \<Longrightarrow>
   ada_hex_to_int (PStr offset) = Inr (PInt off) \<Longrightarrow> ada_hex_to_int (PStr msize) = Inr (PInt sz) \<Longrightarrow>
   ada_hex_to_int (PStr csize) = Inr (PInt cs_nr) \<Longrightarrow> true_div ((cs_nr - off) * 100 + (sz - 1)) sz = Inr q \<Longrightarrow>
   region_row E h n (join_str '';'' [name, addr, msize, offset, int_to_ada_hex_int (cs_nr - off), str_float q @ ''%'', t, filename] @ nl)"

lemma runs_manifest_line:
  assumes "region_row E (w_heap w) n line"
  shows "runs (manifest_line E n) w (\<lambda>s w'. s = line \<and> w' = w)"
  using assms
proof cases
  case (fill_row c cs name addr msize pattern)
  then show ?thesis by (simp add: manifest_line_def xpath0_def wp node_attr_def)
next
  case (file_row c cs name addr msize t f_offset csize filename offset off sz cs_nr q)
  then have "csize \<noteq> []" by (auto simp: ada_hex_to_int_def)
  with file_row show ?thesis
    by (auto simp: manifest_line_def xpath0_def wp node_attr_def file_usage_def)
qed


lemma sort_key_map: "sort_key f (map g xs) = map g (sort_key (\<lambda>x. f (g x)) xs)"
proof -
  have "insort_key f (g x) (map g ys) = map g (insort_key (\<lambda>x. f (g x)) x ys)" for x ys
    by (induction ys) auto
  then show ?thesis by (induction xs) auto
qed

lemma sort_regions_ints: "sort_regions (map (\<lambda>n. (PInt (key n), n)) ns) = Inr (sort_key key ns)"
  by (simp add: sort_regions_def list_all_iff sort_key_map comp_def)

text \<open>The regions of the policy, with their addresses: \<open>ns\<close> is the answer to the query for the memory regions that
  have a file or a fill pattern.\<close>

definition regions :: "('h, 'n) lxml \<Rightarrow> string \<Rightarrow> 'h world \<Rightarrow> ('n \<Rightarrow> int) \<Rightarrow> 'h \<Rightarrow> 'n list \<Rightarrow> bool" where
  "regions E policy w key h ns \<longleftrightarrow>
     (\<exists>c doc. w_files w policy = Some c \<and> x_parse E c (w_heap w) = Inr (doc, h)
        \<and> x_xpath E h doc ''/system/memory/memory[file|fill]'' = Inr ns)
     \<and> (\<forall>n \<in> set ns. \<exists>a. node_attr E h n ''physicalAddress'' = Some a \<and> ada_hex_to_int (PStr a) = Inr (PInt (key n)))"

lemma region_keys_run:
  assumes "\<forall>n \<in> set ns. \<exists>a. node_attr E (w_heap w) n ''physicalAddress'' = Some a \<and> ada_hex_to_int (PStr a) = Inr (PInt (key n))"
  shows "region_keys E ns w = (Inr (map (\<lambda>n. (PInt (key n), n)) ns), w)"
proof -
  have "foldM (\<lambda>kns c. bnd (bnd (xget E c ''physicalAddress'') (\<lambda>a. bnd (lift (ada_hex_to_int (of_opt a))) (\<lambda>k. ret (k, c)))) (\<lambda>y. ret (kns @ [y]))) [] ns w
      = (Inr ([] @ map (\<lambda>n. (PInt (key n), n)) ns), w)"
    by (rule foldM_collect) (use assms in \<open>force simp: xget_def py_simps node_attr_def\<close>)
  then show ?thesis by (simp add: region_keys_def bnd_assoc ret_bnd)
qed

lemma manifest_main_run:
  assumes "regions E policy w key h ns" and "writable_path w manifest"
  shows "\<exists>v. manifest_main E prog [policy, manifest] w
       = forM (sort_key key ns) (\<lambda>node. bnd (manifest_line E node) (fwrite manifest)) (file_set manifest manifest_header v)
     \<and> w_heap v = h \<and> w_files v = w_files w"
proof -
  obtain c doc where p: "w_files w policy = Some c" "x_parse E c (w_heap w) = Inr (doc, h)" "x_xpath E h doc region_query = Inr ns"
    and keys: "region_keys E ns (w\<lparr>w_heap := h\<rparr>) = (Inr (map (\<lambda>n. (PInt (key n), n)) ns), w\<lparr>w_heap := h\<rparr>)"
    using assms(1) region_keys_run [of ns E "w\<lparr>w_heap := h\<rparr>" key] by (auto simp: regions_def region_query_def)
  then have "manifest_main E prog [policy, manifest] w
       = forM (sort_key key ns) (\<lambda>node. bnd (manifest_line E node) (fwrite manifest)) (file_set manifest manifest_header (w\<lparr>w_heap := h\<rparr>))"
    using assms(2)
    by (simp add: manifest_main_def xparse_def xpath_def bnd_def heap_try_def read_file_def lift_def sort_regions_ints write_file_def fwrite_def
        writable_path_def file_set_def)
  then show ?thesis by (intro exI [of _ "w\<lparr>w_heap := h\<rparr>"]) simp
qed

lemma runs_manifest_lines:
  assumes "w_files w f = Some t" and "\<And>n. n \<in> set ns \<Longrightarrow> region_row E (w_heap w) n (row n)"
  shows "runs (forM ns (\<lambda>node. bnd (manifest_line E node) (fwrite f))) w (\<lambda>_ w'. w' = file_set f (t @ concat (map row ns)) w)"
  using assms
proof (induction ns arbitrary: t w)
  case Nil
  then show ?case by (simp add: wp file_set_id)
next
  case (Cons n ns)
  have "runs (forM ns (\<lambda>node. bnd (manifest_line E node) (fwrite f))) (file_set f (t @ row n) w)
     (\<lambda>_ w'. w' = file_set f ((t @ row n) @ concat (map row ns)) (file_set f (t @ row n) w))"
    by (rule Cons.IH) (use Cons.prems in auto)
  moreover have "runs (manifest_line E n) w (\<lambda>s w'. s = row n \<and> w' = w)"
    by (rule runs_manifest_line) (use Cons.prems in auto)
  ultimately show ?case using Cons.prems(1) by (auto simp: runs_bnd runs_fwrite_set elim!: runs_mono)
qed

text \<open>C36. The manifest has a header and one row per region with content, in the order of the physical
  addresses; regions at one address keep the order of the policy.\<close>

theorem manifest_sorted:
  assumes "regions E policy w key h ns" and "writable_path w manifest" and "\<And>n. n \<in> set ns \<Longrightarrow> region_row E h n (row n)"
  shows "runs (manifest_main E prog [policy, manifest]) w
     (\<lambda>_ w'. \<exists>ms. mset ms = mset ns \<and> sorted (map key ms) \<and> (\<forall>k. filter (\<lambda>n. key n = k) ms = filter (\<lambda>n. key n = k) ns)
        \<and> w_files w' = (w_files w)(manifest :=
              Some (''[Name;PhysicalAddress;MemorySize;Offset;ContentSize;Usage;Type;Content]'' @ nl @ concat (map row ms))))"
proof -
  obtain v where v: "manifest_main E prog [policy, manifest] w
       = forM (sort_key key ns) (\<lambda>node. bnd (manifest_line E node) (fwrite manifest)) (file_set manifest manifest_header v)"
     "w_heap v = h" "w_files v = w_files w"
    using manifest_main_run [OF assms(1,2)] by blast
  have "runs (forM (sort_key key ns) (\<lambda>node. bnd (manifest_line E node) (fwrite manifest))) (file_set manifest manifest_header v)
     (\<lambda>_ w'. w' = file_set manifest (manifest_header @ concat (map row (sort_key key ns))) (file_set manifest manifest_header v))"
    by (rule runs_manifest_lines) (use assms(3) v(2) in auto)
  moreover have "mset (sort_key key ns) = mset ns" "sorted (map key (sort_key key ns))"
    "\<forall>k. filter (\<lambda>n. key n = k) (sort_key key ns) = filter (\<lambda>n. key n = k) ns"
    by (simp_all add: sort_key_stable)
  ultimately show ?thesis
    unfolding runs_def v(1) by (auto simp: v(3) manifest_header_def intro!: exI [of _ "sort_key key ns"])
qed

text \<open>C37. A file region without a size ends the script: the manifest has the header and the rows of the
  regions at lower addresses.\<close>

theorem manifest_without_size:
  assumes "regions E policy w key h ns" and "writable_path w manifest" and "sort_key key ns = pre @ n # post"
    and "\<And>m. m \<in> set pre \<Longrightarrow> region_row E h m (row m)"
    and "x_xpath E h n ''file|fill'' = Inr (c # cs)" and "n_tag (x_node E h c) = ''file''" and "node_attr E h c ''size'' = None"
  shows "raises (manifest_main E prog [policy, manifest]) w (SystemExitMsg ''Error: No size attribute in file node, use mucfgmemhashes to add one'')
     \<and> w_files (snd (manifest_main E prog [policy, manifest] w)) = (w_files w)(manifest :=
          Some (''[Name;PhysicalAddress;MemorySize;Offset;ContentSize;Usage;Type;Content]'' @ nl @ concat (map row pre)))"
proof -
  obtain v where v: "manifest_main E prog [policy, manifest] w
       = forM (pre @ n # post) (\<lambda>node. bnd (manifest_line E node) (fwrite manifest)) (file_set manifest manifest_header v)"
     "w_heap v = h" "w_files v = w_files w"
    using manifest_main_run [OF assms(1,2), of prog] unfolding assms(3) by blast
  have "runs (forM pre (\<lambda>node. bnd (manifest_line E node) (fwrite manifest))) (file_set manifest manifest_header v)
     (\<lambda>_ w'. w' = file_set manifest (manifest_header @ concat (map row pre)) (file_set manifest manifest_header v))"
    by (rule runs_manifest_lines) (use assms(4) v(2) in auto)
  then have pre: "forM pre (\<lambda>node. bnd (manifest_line E node) (fwrite manifest)) (file_set manifest manifest_header v)
      = (Inr (), file_set manifest (manifest_header @ concat (map row pre)) v)"
    by (auto simp: runs_def)
  have "manifest_line E n u = (Inl (SystemExitMsg ''Error: No size attribute in file node, use mucfgmemhashes to add one''), u)" if "w_heap u = h" for u
    using that assms(5-7) by (simp add: manifest_line_def xpath0_def xpath_def xget_def xtag_def node_attr_def bnd_def heap_get_def heap_try_def first_def ret_def raise_def Let_def)
  then show ?thesis
    using v pre by (simp add: raises_def forM_append bnd_ok bnd_err manifest_header_def)
qed


subsection \<open>A policy with two regions\<close>

definition man_demo_node :: "(string \<times> string) list \<Rightarrow> nat \<Rightarrow> string \<times> (string \<times> string) list" where
  "man_demo_node sz i =
     [(''memory'', [(''name'', ''code''), (''physicalAddress'', ''16#2000#''), (''size'', ''16#1000#''), (''type'', ''bin'')]),
      (''file'', [(''offset'', ''none''), (''filename'', ''a.out'')] @ sz),
      (''memory'', [(''name'', ''bss''), (''physicalAddress'', ''16#1000#''), (''size'', ''16#1000#'')]),
      (''fill'', [(''pattern'', ''16#00#'')])] ! i"

definition man_demo_query :: "nat view \<Rightarrow> nat \<Rightarrow> string \<Rightarrow> pyerr + nat list" where
  "man_demo_query f n q = Inr (if q = ''/system/memory/memory[file|fill]'' then [0, 2] else [n + 1])"

definition man_demo_lxml :: "(rheap, nat) lxml" where
  "man_demo_lxml = ref_lxml (\<lambda>_. Some (XT ''system'' [] None [])) man_demo_query"

definition man_demo_world :: "(string \<times> string) list \<Rightarrow> rheap world" where
  "man_demo_world sz = (flat_world 4 (man_demo_node sz))\<lparr>w_files := [''policy.xml'' \<mapsto> ''<system/>'']\<rparr>"

definition man_demo_heap :: "(string \<times> string) list \<Rightarrow> rheap" where
  "man_demo_heap sz = snd (ref_build (XT ''system'' [] None []) (w_heap (man_demo_world sz)))"

abbreviation man_demo_key :: "nat \<Rightarrow> int" where
  "man_demo_key n \<equiv> if n = 0 then 8192 else 4096"

lemmas float_eval = true_div_def nearest_def magnitude_def numlen.simps scale_by_def ratio_less_def round_half_even_def dbl_ratio_def
  str_float_def shortest_def decimals_def reads_back_def ratio_eq_def fixed_or_exp_def str_int_def

lemma full_region_division: "true_div 413695 4096 = Inr \<lparr>f_neg = False, f_abs = (7107225982074880, - 46)\<rparr>"
  by (simp add: float_eval Let_def)


lemma full_region_digits: "str_float \<lparr>f_neg = False, f_abs = (7107225982074880, - 46)\<rparr> = ''100.999755859375''"
proof -
  have m: "magnitude 10 (dbl_ratio (7107225982074880, - 46)) = 3" by (simp add: float_eval Let_def)
  have find: "List.find (\<lambda>k. decimals (7107225982074880, - 46) 3 k \<noteq> None) [1..<18] = Some 15" by code_simp
  have long: "decimals (7107225982074880, - 46) 3 15 = Some 100999755859375" by code_simp
  have ds: "str_int 100999755859375 = ''100999755859375''" by (simp add: str_int_def digits_base.simps digit_char_def) code_simp
  have strip: "rstrip ''0'' ''100999755859375'' = ''100999755859375''" "fixed_or_exp ''100999755859375'' 3 = ''100.999755859375''" by code_simp+
  have "shortest (7107225982074880, - 46) = (''100999755859375'', 3)"
    unfolding shortest_def m Let_def find by (simp add: long ds strip)
  then show ?thesis by (simp add: str_float_def strip)
qed


lemma man_demo_hex: "ada_hex_to_int (PStr ''16#2000#'') = Inr (PInt 8192)" "ada_hex_to_int (PStr ''16#1000#'') = Inr (PInt 4096)"
  "ada_hex_to_int (PStr ''16#0000#'') = Inr (PInt 0)" "int_to_ada_hex_int 4096 = ''16#1000#''"
  by code_simp+

lemma man_demo_attr: "i < 4 \<Longrightarrow> x_node man_demo_lxml (man_demo_heap sz) i = (case man_demo_node sz i of (t, as) \<Rightarrow> new_node t as)"
  by (simp add: man_demo_lxml_def man_demo_heap_def man_demo_world_def flat_world_def ref_lxml_def ref_new_def ref_map_def)

lemma man_demo_content: "x_xpath man_demo_lxml h i ''file|fill'' = Inr [i + 1]"
  by (simp add: man_demo_lxml_def man_demo_query_def)

lemma man_demo_writable: "writable_path (man_demo_world sz) ''out''"
proof -
  have "dirname ''out'' = []" by code_simp
  then show ?thesis by (simp add: writable_path_def man_demo_world_def flat_world_def)
qed

lemma man_demo_regions: "regions man_demo_lxml ''policy.xml'' (man_demo_world sz) man_demo_key (man_demo_heap sz) [0, 2]"
proof -
  have "x_parse man_demo_lxml ''<system/>'' (w_heap (man_demo_world sz))
      = Inr (fst (ref_build (XT ''system'' [] None []) (w_heap (man_demo_world sz))), man_demo_heap sz)"
    by (simp only: man_demo_lxml_def ref_lxml_def man_demo_heap_def lxml.simps option.case prod.collapse)
  moreover have "w_files (man_demo_world sz) ''policy.xml'' = Some ''<system/>''" by (simp add: man_demo_world_def)
  moreover have "x_xpath man_demo_lxml h d ''/system/memory/memory[file|fill]'' = Inr [0, 2]" for h d by (simp add: man_demo_lxml_def man_demo_query_def)
  ultimately show ?thesis
    using man_demo_attr [of 0 sz] man_demo_attr [of 2 sz] man_demo_hex(1,2)
    by (auto simp: regions_def node_attr_def man_demo_node_def new_node_def)
qed

definition fill_demo_row :: string where
  "fill_demo_row = ''bss;16#1000#;16#1000#;16#0000#;16#1000#;100%;fill_pattern;16#00#'' @ nl"

lemma man_demo_fill: "region_row man_demo_lxml (man_demo_heap sz) 2 fill_demo_row"
proof -
  have "region_row man_demo_lxml (man_demo_heap sz) 2
      (join_str '';'' [''bss'', ''16#1000#'', ''16#1000#'', ''16#0000#'', ''16#1000#'', ''100%'', ''fill_pattern'', ''16#00#''] @ nl)"
    by (rule fill_row [OF man_demo_content])
      (use man_demo_attr [of 2 sz] man_demo_attr [of 3 sz] in \<open>simp_all add: node_attr_def man_demo_node_def new_node_def\<close>)
  then show ?thesis by (simp add: fill_demo_row_def)
qed

text \<open>The row of a region that its file fills: the usage is not 100%, since \<^verbatim>\<open>/\<close> is not an integer
  division.\<close>

definition full_demo_row :: string where
  "full_demo_row = ''code;16#2000#;16#1000#;16#0000#;16#1000#;100.999755859375%;bin;a.out'' @ nl"

lemma man_demo_full: "region_row man_demo_lxml (man_demo_heap [(''size'', ''16#1000#'')]) 0 full_demo_row"
proof -
  have "region_row man_demo_lxml (man_demo_heap [(''size'', ''16#1000#'')]) 0
      (join_str '';'' [''code'', ''16#2000#'', ''16#1000#'', ''16#0000#'', int_to_ada_hex_int (4096 - 0), str_float \<lparr>f_neg = False, f_abs = (7107225982074880, - 46)\<rparr> @ ''%'', ''bin'', ''a.out''] @ nl)"
    by (rule file_row [OF man_demo_content, where sz = 4096 and f_offset = "''none''" and csize = "''16#1000#''"])
      (use man_demo_attr [of 0 "[(''size'', ''16#1000#'')]"] man_demo_attr [of 1 "[(''size'', ''16#1000#'')]"] full_region_division man_demo_hex
        in \<open>simp_all add: node_attr_def man_demo_node_def new_node_def\<close>)
  then show ?thesis by (simp add: full_demo_row_def full_region_digits man_demo_hex)
qed

theorem manifest_sorted_witness:
  "runs (manifest_main man_demo_lxml ''mugenmanifest'' [''policy.xml'', ''out'']) (man_demo_world [(''size'', ''16#1000#'')])
     (\<lambda>_ w'. w_files w' ''out'' = Some (manifest_header @ fill_demo_row @ full_demo_row))"
proof -
  have rows: "region_row man_demo_lxml (man_demo_heap [(''size'', ''16#1000#'')]) n (if n = 0 then full_demo_row else fill_demo_row)"
    if "n \<in> set [0, 2]" for n
    using that man_demo_fill man_demo_full by auto
  have two: "ms = [2, 0]" if "mset ms = mset [0, 2]" "sorted (map man_demo_key ms)" for ms :: "nat list"
  proof -
    have "length ms = 2" using that(1) by (metis length_Cons list.size(3) mset_eq_length numeral_2_eq_2)
    then obtain a b where "ms = [a, b]" by (auto simp: length_Suc_conv numeral_2_eq_2)
    with that(2) mset_eq_setD [OF that(1)] show ?thesis by (auto simp: doubleton_eq_iff split: if_splits)
  qed
  show ?thesis
    by (rule runs_mono [OF manifest_sorted [OF man_demo_regions man_demo_writable rows]]) (assumption, elim exE conjE, drule (1) two, simp add: manifest_header_def)
qed

theorem manifest_without_size_witness:
  "raises (manifest_main man_demo_lxml ''mugenmanifest'' [''policy.xml'', ''out'']) (man_demo_world [])
     (SystemExitMsg ''Error: No size attribute in file node, use mucfgmemhashes to add one'')
   \<and> w_files (snd (manifest_main man_demo_lxml ''mugenmanifest'' [''policy.xml'', ''out''] (man_demo_world []))) ''out'' = Some (manifest_header @ fill_demo_row)"
proof -
  have order: "sort_key man_demo_key [0, 2] = [2] @ 0 # []" by simp
  have "region_row man_demo_lxml (man_demo_heap []) m fill_demo_row" if "m \<in> set [2]" for m using that man_demo_fill by simp
  from manifest_without_size [OF man_demo_regions man_demo_writable order this man_demo_content] man_demo_attr [of 1 "[]"]
  show ?thesis by (simp add: man_demo_node_def new_node_def node_attr_def manifest_header_def)
qed

end
