(* ===== verification/Xsd_Plugin.thy ===== *)
theory Xsd_Plugin
  imports Etree_Ref "HOL-Library.List_Lexorder" "HOL-Library.Char_ord"
begin

text \<open>
  \<^verbatim>\<open>tools/libmuxml/schema_plugins\<close>: the library that puts a reference to the group
  \<^verbatim>\<open>universal_starting_group\<close> at the start of every complex type of an XML schema
  (\<^verbatim>\<open>libmuxsdplugin.py\<close>), and the script that uses it to allow \<^verbatim>\<open>doc\<close> elements everywhere
  (\<^verbatim>\<open>xsd_plugin_doc.py\<close>).  Tags are \<^verbatim>\<open>{url}name\<close>, as \<^verbatim>\<open>lxml\<close> has them.  What \<^verbatim>\<open>lxml\<close> says of namespaces,
  ancestors and siblings, and how it writes a whole document, is a second record of operations, parameters like those
  of the first.
\<close>

record ('h, 'n) xsdops =
  y_prefix :: "'h \<Rightarrow> 'n \<Rightarrow> string option"
  y_nsmap :: "'h \<Rightarrow> 'n \<Rightarrow> (string option \<times> string) list"
  y_ancestors :: "'h \<Rightarrow> 'n \<Rightarrow> 'n list"
  y_rootof :: "'h \<Rightarrow> 'n \<Rightarrow> 'n"
  y_document :: "'h \<Rightarrow> 'n \<Rightarrow> string"
  y_addprevious :: "'n \<Rightarrow> 'n \<Rightarrow> 'h \<Rightarrow> pyerr + 'h"
  y_getprevious :: "'h \<Rightarrow> 'n \<Rightarrow> 'n option"

subsection \<open>Names\<close>

record ns_info =
  ns_short :: string
  ns_url :: string
  ns_map :: "(string option \<times> string) list"
  ns_prefix :: string

definition Ns_Info :: "('h, 'n) xsdops \<Rightarrow> 'n \<Rightarrow> ('h, ns_info) py" where
  "Ns_Info X node =
     heap_try (\<lambda>h.
       case y_prefix X h node of
         None \<Rightarrow> Inr \<lparr>ns_short = [], ns_url = [], ns_map = [], ns_prefix = []\<rparr>
       | Some p \<Rightarrow>
           (case map_of (y_nsmap X h node) (Some p) of
              None \<Rightarrow> Inl (KeyError p)
            | Some url \<Rightarrow> Inr \<lparr>ns_short = p, ns_url = url, ns_map = y_nsmap X h node, ns_prefix = ''{'' @ url @ ''}''\<rparr>))"

definition after_brace :: "string \<Rightarrow> string" where
  "after_brace tag = join_str ''}'' (tl (split_str tag ''}''))"

text \<open>A comment has no name; the empty string stands for what Python has in its place, which equals no
  name.\<close>

definition localname :: "('h, 'n) lxml \<Rightarrow> ('h, 'n) xsdops \<Rightarrow> 'n \<Rightarrow> ('h, string) py" where
  "localname E X node =
     heap_get (\<lambda>h. case y_prefix X h node of
                     None \<Rightarrow> n_tag (x_node E h node)
                   | Some _ \<Rightarrow> after_brace (n_tag (x_node E h node)))"

definition node_string :: "string option \<Rightarrow> string \<Rightarrow> (string \<times> string) list \<Rightarrow> string" where
  "node_string pfx name attrib =
     (let attrib_list = sort (map (\<lambda>(k, v). k @ ''='' @ dq v) attrib)
      in ''<'' @ (case pfx of None \<Rightarrow> [] | Some p \<Rightarrow> p @ '':'') @ name
         @ (if attrib_list \<noteq> [] then '' '' else []) @ join_str '' '' attrib_list @ ''>'')"

definition node_to_string :: "('h, 'n) lxml \<Rightarrow> ('h, 'n) xsdops \<Rightarrow> 'n \<Rightarrow> ('h, string) py" where
  "node_to_string E X node =
     bnd (xlook E node) (\<lambda>v.
     bnd (heap_get (\<lambda>h. y_prefix X h node)) (\<lambda>pfx.
     bnd (localname E X node) (\<lambda>name.
     if n_tag v = [] then raise TypeError else ret (node_string pfx name (n_attrib v)))))"

definition node_ancestors_string :: "('h, 'n) lxml \<Rightarrow> ('h, 'n) xsdops \<Rightarrow> 'n \<Rightarrow> ('h, string) py" where
  "node_ancestors_string E X node =
     bnd (node_to_string E X node) (\<lambda>out.
     bnd (heap_get (\<lambda>h. y_ancestors X h node)) (\<lambda>ancestors.
     foldM (\<lambda>out curr_node. bnd (node_to_string E X curr_node) (\<lambda>s. ret (s @ out))) out ancestors))"

definition defining_xpath :: "string \<Rightarrow> string \<Rightarrow> string" where
  "defining_xpath target_prefix def_name =
     concat (map (\<lambda>t. ''./'' @ target_prefix @ '':'' @ t @ ''[@name='' @ sq def_name @ '']''
                      @ (if t \<noteq> ''group'' then '' | '' else []))
                 [''complexType'', ''simpleType'', ''group''])"

definition get_defining_node :: "('h, 'n) lxml \<Rightarrow> ('h, 'n) xsdops \<Rightarrow> 'n \<Rightarrow> string \<Rightarrow> ('h, 'n) py" where
  "get_defining_node E X node def_name =
     bnd (heap_get (\<lambda>h. y_rootof X h node)) (\<lambda>root.
     bnd (Ns_Info X node) (\<lambda>ns.
     bnd (xpath E root (defining_xpath (ns_short ns) def_name)) (\<lambda>results.
     case results of
       [r] \<Rightarrow> ret r
     | _ \<Rightarrow> raise (ValueError (''Could not find unique defining node for type/group with name '' @ sq def_name)))))"

subsection \<open>Inserting the group\<close>

definition create_element_from_dict :: "('h, 'n) lxml \<Rightarrow> (string \<times> string) list \<Rightarrow> ('h, 'n) py" where
  "create_element_from_dict E attribs =
     (case map_of attribs ''qname'' of
        None \<Rightarrow> raise (KeyError ''qname'')
      | Some q \<Rightarrow>
          bnd (element E q []) (\<lambda>new_elem.
          seq (forM attribs (\<lambda>(k, v). if k \<noteq> ''qname'' then xset E new_elem k v else ret ())) (
          ret new_elem)))"

text \<open>\<^verbatim>\<open>child.addprevious(elem)\<close> and \<^verbatim>\<open>child.getprevious()\<close>, the latter followed by an access to the result.\<close>

definition xaddprevious :: "('h, 'n) xsdops \<Rightarrow> 'n \<Rightarrow> 'n \<Rightarrow> ('h, unit) py" where
  "xaddprevious X child new =
     (\<lambda>w. case y_addprevious X child new (w_heap w) of
            Inl e \<Rightarrow> (Inl e, w)
          | Inr h \<Rightarrow> (Inr (), w\<lparr>w_heap := h\<rparr>))"

definition xgetprevious :: "('h, 'n) xsdops \<Rightarrow> 'n \<Rightarrow> ('h, 'n) py" where
  "xgetprevious X child =
     bnd (heap_get (\<lambda>h. y_getprevious X h child)) (\<lambda>s.
     case s of None \<Rightarrow> raise AttributeError | Some s \<Rightarrow> ret s)"

lemma runs_xaddprevious [wp]:
  "runs (xaddprevious X c n) w Q \<longleftrightarrow> (\<exists>h. y_addprevious X c n (w_heap w) = Inr h \<and> Q () (w\<lparr>w_heap := h\<rparr>))"
  by (simp add: xaddprevious_def runs_def split: sum.splits)

lemma runs_xgetprevious [wp]: "runs (xgetprevious X c) w Q \<longleftrightarrow> (\<exists>s. y_getprevious X (w_heap w) c = Some s \<and> Q s w)"
  by (simp add: xgetprevious_def wp split: option.splits)

definition insert_usg_in_sequence :: "('h, 'n) lxml \<Rightarrow> ('h, 'n) xsdops \<Rightarrow> 'n \<Rightarrow> ('h, unit) py" where
  "insert_usg_in_sequence E X node =
     bnd (Ns_Info X node) (\<lambda>ns.
     bnd (create_element_from_dict E [(''qname'', ns_prefix ns @ ''group''), (''ref'', ''universal_starting_group'')]) (\<lambda>new_element.
     bnd (xchildren E node) (\<lambda>cs.
     case cs of
       [] \<Rightarrow> xappend E node new_element
     | c # _ \<Rightarrow>
         bnd (node_to_string E X c) (\<lambda>a.
         bnd (node_to_string E X new_element) (\<lambda>b.
         if a \<noteq> b then xinsert E node 0 new_element else ret ())))))"

text \<open>The loop over the children of a complex type.  The local variable \<^verbatim>\<open>prefix\<close> is that of the last
  child looked at; without a child it is unbound.\<close>

fun usg_children :: "('h, 'n) lxml \<Rightarrow> ('h, 'n) xsdops \<Rightarrow> 'n \<Rightarrow> string option \<Rightarrow> 'n list \<Rightarrow> ('h, unit) py" where
  "usg_children E X node pfx [] =
     (case pfx of
        None \<Rightarrow> raise UnboundLocalError
      | Some p \<Rightarrow>
          bnd (element E (p @ ''sequence'') []) (\<lambda>s.
          seq (xappend E node s) (
          bnd (xchildren E node) (\<lambda>cs.
          insert_usg_in_sequence E X (last cs)))))"
| "usg_children E X node pfx (child # cs) =
     bnd (localname E X child) (\<lambda>name.
     bnd (Ns_Info X child) (\<lambda>ns.
     if name = ''simpleContent'' then ret ()
     else if name = ''complexContent'' then
       bnd (xpath E child (''./*[local-name()='' @ sq ''restriction'' @ '']'')) (\<lambda>rs.
       if rs \<noteq> [] then raise (ValueError (''Found unsupported element in complexType: '' @ sq ''restriction''))
       else ret ())
     else if name = ''annotation'' then usg_children E X node (Some (ns_prefix ns)) cs
     else if name = ''choice'' \<or> name = ''group'' then
       bnd (element E (ns_prefix ns @ ''sequence'') []) (\<lambda>s.
       seq (xaddprevious X child s) (
       bnd (xgetprevious X child) (\<lambda>sequence_sibling.
       seq (xappend E sequence_sibling child) (
       insert_usg_in_sequence E X sequence_sibling))))
     else if name = ''sequence'' then insert_usg_in_sequence E X child
     else if name = ''attribute'' \<or> name = ''attributeGroup'' then
       bnd (element E (ns_prefix ns @ ''sequence'') []) (\<lambda>s.
       seq (xaddprevious X child s) (
       bnd (xgetprevious X child) (\<lambda>sequence_sibling.
       insert_usg_in_sequence E X sequence_sibling)))
     else
       bnd (node_ancestors_string E X child) (\<lambda>loc.
       raise (ValueError (''Found unsupported tag in complexType: '' @ name @ nl @ ''Location of finding: '' @ loc)))))"

definition insert_usg_in_complexType :: "('h, 'n) lxml \<Rightarrow> ('h, 'n) xsdops \<Rightarrow> 'n \<Rightarrow> ('h, unit) py" where
  "insert_usg_in_complexType E X node = bnd (xchildren E node) (usg_children E X node None)"

text \<open>\<^verbatim>\<open>root.xpath(q, namespaces=nsmap)\<close>: the map may have no default namespace.  The queries use no
  prefix.\<close>

definition xpath_ns :: "('h, 'n) lxml \<Rightarrow> 'n \<Rightarrow> string \<Rightarrow> (string option \<times> string) list \<Rightarrow> ('h, 'n list) py" where
  "xpath_ns E n q nsmap = (if None \<in> fst ` set nsmap then raise TypeError else xpath E n q)"

definition usg_query :: string where
  "usg_query = ''./*[local-name()='' @ sq ''group'' @ '' and @name='' @ sq ''universal_starting_group'' @ '']''"

definition universal_starting_group_defined :: "('h, 'n) lxml \<Rightarrow> ('h, 'n) xsdops \<Rightarrow> 'n \<Rightarrow> ('h, bool) py" where
  "universal_starting_group_defined E X root =
     bnd (Ns_Info X root) (\<lambda>ns.
     bnd (xpath_ns E root usg_query (ns_map ns)) (\<lambda>matches.
     ret (1 \<le> length matches)))"

definition xfromstring :: "('h, 'n) lxml \<Rightarrow> string \<Rightarrow> ('h, 'n) py" where
  "xfromstring E s =
     (\<lambda>w. case x_parse E s (w_heap w) of
            Inl e \<Rightarrow> (Inl e, w)
          | Inr (n, h') \<Rightarrow> (Inr n, w\<lparr>w_heap := h'\<rparr>))"

definition insert_children_from_string :: "('h, 'n) lxml \<Rightarrow> 'n \<Rightarrow> string \<Rightarrow> string option \<Rightarrow> ('h, unit) py" where
  "insert_children_from_string E root xml_string position =
     bnd (xfromstring E xml_string) (\<lambda>new_doc.
     bnd (if position = None \<or> position = Some ''top'' then ret 0
          else if position = Some ''bottom'' then bnd (xchildren E root) (\<lambda>cs. ret (length cs))
          else raise (ValueError (''Unknown value for parameter '' @ sq ''position'' @ '': '' @ the position))) (\<lambda>index.
     bnd (xchildren E new_doc) (\<lambda>cs.
     bnd (foldM (\<lambda>index child. seq (xinsert E root index child) (ret (index + 1))) index cs) (\<lambda>_.
     ret ()))))"

abbreviation xs_decl :: string where
  "xs_decl \<equiv> ''<dummy_root xmlns:xs='' @ dq ''http://www.w3.org/2001/XMLSchema'' @ ''>''"

definition universal_starting_group_definition :: string where
  "universal_starting_group_definition = join_str nl
     [[], xs_decl,
      '' <xs:group name='' @ dq ''universal_starting_group'' @ ''>'',
      ''   <xs:annotation>'',
      ''     <xs:documentation>'',
      ''       This group holds content that can appear at the beginning'',
      ''       of every complex type.'',
      ''     </xs:documentation>'',
      ''   </xs:annotation>'',
      ''   <xs:sequence/>'',
      '' </xs:group>'',
      ''</dummy_root>'', []]"

definition insert_universal_starting_group :: "('h, 'n) lxml \<Rightarrow> ('h, 'n) xsdops \<Rightarrow> 'n \<Rightarrow> ('h, unit) py" where
  "insert_universal_starting_group E X doc_root =
     bnd (xchildren E doc_root) (\<lambda>cs.
     seq (forM cs (\<lambda>child_node.
            bnd (localname E X child_node) (\<lambda>name.
            if name = ''complexType'' then insert_usg_in_complexType E X child_node else ret ()))) (
     insert_children_from_string E doc_root universal_starting_group_definition None))"

subsection \<open>The doc plugin\<close>

definition documentationType_definition :: string where
  "documentationType_definition = join_str nl
     [[], xs_decl,
      '' <xs:complexType name='' @ dq ''documentationType'' @ ''>'',
      ''  <xs:annotation>'',
      ''   <xs:documentation>'',
      ''    A '' @ [CHR 0x5C] @ ''texttt{doc} node contains documentation about its parent node.'',
      ''    The type of the documentation specifies its intended recipients.'',
      ''   </xs:documentation>'',
      ''  </xs:annotation>'',
      ''  <xs:simpleContent>'',
      ''   <xs:extension base='' @ dq ''xs:string'' @ ''>'',
      ''    <xs:attribute name='' @ dq ''type'' @ '' type='' @ dq ''docTypeType'' @ '' use='' @ dq ''optional'' @ ''/>'',
      ''    <xs:attribute name='' @ dq ''chapter'' @ '' type='' @ dq ''xs:string'' @ '' use='' @ dq ''optional'' @ ''/>'',
      ''    <xs:attribute name='' @ dq ''priority'' @ '' type='' @ dq ''xs:nonNegativeInteger'' @ '' use='' @ dq ''optional'' @ ''/>'',
      ''   </xs:extension>'',
      ''  </xs:simpleContent>'',
      '' </xs:complexType>'',
      '' <xs:simpleType name='' @ dq ''docTypeType'' @ ''>'',
      ''  <xs:annotation>'',
      ''   <xs:documentation>'',
      ''    Supported types of documentation.'',
      ''   </xs:documentation>'',
      ''  </xs:annotation>'',
      ''  <xs:restriction base='' @ dq ''xs:string'' @ ''>'',
      ''   <xs:enumeration value='' @ dq ''muen-tools'' @ ''/>'',
      ''   <xs:enumeration value='' @ dq ''dev'' @ ''/>'',
      ''  </xs:restriction>'',
      '' </xs:simpleType>'',
      ''</dummy_root>'', []]"

definition named_query :: "string \<Rightarrow> string \<Rightarrow> string" where
  "named_query kind name = ''./*[local-name()='' @ sq kind @ '' and @name='' @ sq name @ '']''"

definition documentationType_defined :: "('h, 'n) lxml \<Rightarrow> ('h, 'n) xsdops \<Rightarrow> 'n \<Rightarrow> ('h, bool) py" where
  "documentationType_defined E X root =
     bnd (Ns_Info X root) (\<lambda>ns.
     bnd (xpath_ns E root (named_query ''complexType'' ''documentationType'') (ns_map ns)) (\<lambda>docT_nodes.
     bnd (xpath_ns E root (named_query ''simpleType'' ''docTypeType'') (ns_map ns)) (\<lambda>docTT_nodes.
     ret (1 \<le> length docT_nodes \<and> 1 \<le> length docTT_nodes))))"

definition usg_sequence_query :: string where
  "usg_sequence_query = usg_query @ ''/*[local-name()='' @ sq ''sequence'' @ '']''"

definition usg_doc_query :: string where
  "usg_doc_query = usg_sequence_query @ ''/*[local-name()='' @ sq ''element'' @ '' and @name='' @ sq ''doc'' @ '']''"

definition doc_in_universal_starting_group :: "('h, 'n) lxml \<Rightarrow> ('h, 'n) xsdops \<Rightarrow> 'n \<Rightarrow> ('h, bool) py" where
  "doc_in_universal_starting_group E X root =
     bnd (Ns_Info X root) (\<lambda>ns.
     bnd (xpath_ns E root usg_doc_query (ns_map ns)) (\<lambda>doc_nodes.
     ret (1 \<le> length doc_nodes)))"

definition insert_doc_in_universal_starting_group :: "('h, 'n) lxml \<Rightarrow> ('h, 'n) xsdops \<Rightarrow> 'n \<Rightarrow> ('h, unit) py" where
  "insert_doc_in_universal_starting_group E X doc_root =
     bnd (Ns_Info X doc_root) (\<lambda>ns.
     bnd (xpath_ns E doc_root usg_sequence_query (ns_map ns)) (\<lambda>r.
     bnd (first r) (\<lambda>seq_node.
     bnd (create_element_from_dict E
            [(''qname'', ns_prefix ns @ ''element''), (''name'', ''doc''), (''type'', ''documentationType''),
             (''minOccurs'', ''0''), (''maxOccurs'', ''unbounded'')]) (\<lambda>new_node.
     xinsert E seq_node 0 new_node))))"

definition add_documentation :: "('h, 'n) lxml \<Rightarrow> ('h, 'n) xsdops \<Rightarrow> string \<Rightarrow> string \<Rightarrow> ('h, unit) py" where
  "add_documentation E X input_file output_file =
     bnd (xparse E input_file) (\<lambda>doc_root.
     bnd (universal_starting_group_defined E X doc_root) (\<lambda>b.
     seq (if \<not> b then insert_universal_starting_group E X doc_root else ret ()) (
     bnd (documentationType_defined E X doc_root) (\<lambda>b.
     seq (if \<not> b then insert_children_from_string E doc_root documentationType_definition None else ret ()) (
     bnd (doc_in_universal_starting_group E X doc_root) (\<lambda>b.
     seq (if \<not> b then insert_doc_in_universal_starting_group E X doc_root else ret ()) (
     bnd (heap_get (\<lambda>h. y_document X h doc_root)) (write_file output_file))))))))"

end
