(* ===== verification/Xsd_Views.thy ===== *)
theory Xsd_Views
  imports Xsd_Plugin
begin

text \<open>
  What the two changes the schema library makes look like: a new leaf below a node, and a new
  element wrapped around a child.  Both keep documents trees.
\<close>

definition leaf_at :: "'n \<Rightarrow> nat \<Rightarrow> 'n \<Rightarrow> string \<Rightarrow> (string \<times> string) list \<Rightarrow> 'n view \<Rightarrow> 'n view" where
  "leaf_at p i g t as f =
     f(g := (new_node t as)\<lparr>n_parent := Some p\<rparr>,
       p := (f p)\<lparr>n_children := take i (n_children (f p)) @ g # drop i (n_children (f p))\<rparr>)"

definition wrap_child :: "'n \<Rightarrow> 'n list \<Rightarrow> 'n \<Rightarrow> 'n list \<Rightarrow> 'n \<Rightarrow> string \<Rightarrow> 'n view \<Rightarrow> 'n view" where
  "wrap_child p pre c post s t f =
     f(p := (f p)\<lparr>n_children := pre @ s # post\<rparr>,
       s := (new_node t [])\<lparr>n_children := [c], n_parent := Some p\<rparr>,
       c := (f c)\<lparr>n_parent := Some s\<rparr>)"

text \<open>Documents as trees: no node is inside itself.\<close>

definition tree_view :: "'n set \<Rightarrow> 'n view \<Rightarrow> bool" where
  "tree_view A f \<longleftrightarrow> wf_view A f \<and> acyclic (child_rel f)"

lemma attach_leaf:
  assumes wf: "wf_view A f" and g: "g \<notin> A" and p: "p \<in> A"
  shows "attach p i g (f(g := new_node t as)) = leaf_at p i g t as f"
proof -
  have "attach p i g (f(g := new_node t as)) = (f(g := new_node t as))
      (p := ((f(g := new_node t as)) p)\<lparr>n_children := take i (n_children ((f(g := new_node t as)) p)) @ g # drop i (n_children ((f(g := new_node t as)) p))\<rparr>,
       g := ((f(g := new_node t as)) g)\<lparr>n_parent := Some p\<rparr>)"
    by (rule attach_root [OF wf_new [OF wf g]]) (use g p in \<open>auto simp: new_node_def\<close>)
  then show ?thesis using g p by (auto simp: leaf_at_def fun_upd_twist)
qed

lemma wf_leaf_at:
  assumes wf: "wf_view A f" and g: "g \<notin> A" and p: "p \<in> A"
  shows "wf_view (insert g A) (leaf_at p i g t as f)"
proof -
  have "wf_view (insert g A) (attach p i g (f(g := new_node t as)))"
    by (rule wf_attach_root [OF wf_new [OF wf g]]) (use g p in \<open>auto simp: new_node_def\<close>)
  then show ?thesis using attach_leaf [OF wf g p] by simp
qed

lemma may_attach_leaf: "n_children (f c) = [] \<Longrightarrow> p \<noteq> c \<Longrightarrow> may_attach f p c"
  unfolding may_attach_def
proof
  assume leaf: "n_children (f c) = []" "p \<noteq> c" and reach: "(c, p) \<in> (child_rel f)\<^sup>*"
  from reach leaf show False by (cases rule: converse_rtranclE) (auto simp: child_rel_def)
qed

lemma child_rel_leaf_at:
  assumes "wf_view A f" and "g \<notin> A" and "p \<in> A"
  shows "child_rel (leaf_at p i g t as f) = insert (p, g) (child_rel f)"
proof -
  have "n_children (f g) = []" using wf_viewD(3) [OF assms(1)] assms(2) by simp
  moreover have "set (take i cs @ g # drop i cs) = insert g (set cs)" for cs :: "'a list"
    by (metis Un_insert_right append_take_drop_id list.simps(15) set_append)
  ultimately show ?thesis using assms(2,3) by (auto simp: child_rel_def leaf_at_def new_node_def split: if_splits)
qed

lemma tree_leaf_at:
  assumes t: "tree_view A f" and g: "g \<notin> A" and p: "p \<in> A"
  shows "tree_view (insert g A) (leaf_at p i g t' as f)"
proof -
  have wf: "wf_view A f" using t by (simp add: tree_view_def)
  have "n_children (f g) = []" using wf_viewD(3) [OF wf] g by simp
  then have "(g, p) \<notin> (child_rel f)\<^sup>*" using may_attach_leaf [of f g p] g p by (auto simp: may_attach_def)
  then show ?thesis
    using t wf_leaf_at [OF wf g p] child_rel_leaf_at [OF wf g p, of i t' as] by (simp add: tree_view_def)
qed


lemma attach_detach: "attach p i c (detach c f) = attach p i c f"
proof -
  have "detach c (detach c f) = detach c f" by (rule ext) (simp add: detach_def)
  then show ?thesis by (simp add: attach_def)
qed

text \<open>Moving a child into a new sibling in front of it.\<close>

lemma wrap_mem:
  assumes tree: "tree_view A f" and kids: "n_children (f p) = pre @ c # post" and s: "s \<notin> A"
  shows "p \<in> A" "c \<in> A" "p \<noteq> c" "s \<noteq> c" "s \<noteq> p" "n_parent (f c) = Some p" "c \<notin> set pre" "c \<notin> set post"
proof -
  have wf: "wf_view A f" using tree by (simp add: tree_view_def)
  show c: "c \<in> A" using wf_viewD(2) [OF wf, of p] kids by auto
  show p: "p \<in> A" using wf_viewD(3) [OF wf, of p] kids by auto
  show "p \<noteq> c"
  proof
    assume "p = c"
    then have "(c, c) \<in> child_rel f" using kids by (auto simp: child_rel_def)
    then show False using tree by (auto simp: tree_view_def acyclic_def)
  qed
  show "s \<noteq> c" "s \<noteq> p" using c p s by auto
  show "n_parent (f c) = Some p" using wf_viewD(4) [OF wf, of c p] kids by simp
  show "c \<notin> set pre" "c \<notin> set post" using wf_viewD(1) [OF wf, of p] kids by auto
qed

lemma wrap_may_attach:
  assumes tree: "tree_view A f" and kids: "n_children (f p) = pre @ c # post" and s: "s \<notin> A"
  shows "may_attach (leaf_at p (length pre) s t [] f) s c"
  unfolding may_attach_def
proof
  let ?r = "child_rel f"
  have wf: "wf_view A f" using tree by (simp add: tree_view_def)
  assume "(c, s) \<in> (child_rel (leaf_at p (length pre) s t [] f))\<^sup>*"
  then have "(c, s) \<in> (insert (p, s) ?r)\<^sup>*" by (simp add: child_rel_leaf_at [OF wf s wrap_mem(1) [OF assms]])
  then have "(c, s) \<in> ?r\<^sup>* \<or> (c, p) \<in> ?r\<^sup>*" by (auto simp: rtrancl_insert)
  moreover have "(q, s) \<notin> ?r" for q using wf_viewD(2) [OF wf, of q] s by (auto simp: child_rel_def)
  then have "(c, s) \<notin> ?r\<^sup>*" using wrap_mem(4) [OF assms] by (metis rtranclE)
  moreover have "(p, c) \<in> ?r" using kids by (auto simp: child_rel_def)
  ultimately have "(p, p) \<in> ?r\<^sup>+" by (metis rtrancl_into_trancl2)
  then show False using tree by (auto simp: tree_view_def acyclic_def)
qed

lemma wrap_attach:
  assumes tree: "tree_view A f" and kids: "n_children (f p) = pre @ c # post" and s: "s \<notin> A"
  shows "attach_last s c (leaf_at p (length pre) s t [] f) = wrap_child p pre c post s t f"
proof
  fix q
  have wf: "wf_view A f" using tree by (simp add: tree_view_def)
  have other: "c \<notin> set (n_children (f q))" if "q \<noteq> p"
    using wf_viewD(4) [OF wf, of c q] wrap_mem(6) [OF assms] that by auto
  show "attach_last s c (leaf_at p (length pre) s t [] f) q = wrap_child p pre c post s t f q"
    using wrap_mem [OF assms] other kids
    by (cases "q = p"; cases "q = s"; cases "q = c")
      (simp_all add: attach_last_def attach_def detach_def leaf_at_def wrap_child_def new_node_def Let_def)
qed

lemma tree_wrap:
  assumes tree: "tree_view A f" and kids: "n_children (f p) = pre @ c # post" and s: "s \<notin> A"
  shows "tree_view (insert s A) (wrap_child p pre c post s t f)"
proof -
  let ?f = "leaf_at p (length pre) s t [] f"
  have t1: "tree_view (insert s A) ?f" by (rule tree_leaf_at [OF tree s wrap_mem(1) [OF assms]])
  then have wf1: "wf_view (insert s A) ?f" and ac1: "acyclic (child_rel ?f)" by (simp_all add: tree_view_def)
  have "wf_view (insert s A) (attach s k c (detach c ?f))" for k
    by (rule wf_attach_root [OF wf_detach [OF wf1]]) (use wrap_mem [OF assms] in \<open>auto simp: detach_def\<close>)
  then have "wf_view (insert s A) (wrap_child p pre c post s t f)"
    unfolding wrap_attach [OF assms, symmetric] attach_last_def attach_detach .
  moreover have "child_rel (wrap_child p pre c post s t f) \<subseteq> insert (s, c) (child_rel ?f)"
    using wrap_mem [OF assms] kids by (auto simp: child_rel_def wrap_child_def leaf_at_def new_node_def split: if_splits)
  moreover have "acyclic (insert (s, c) (child_rel ?f))"
    using ac1 wrap_may_attach [OF assms, of t] by (simp add: acyclic_insert may_attach_def)
  ultimately show ?thesis by (auto simp: tree_view_def intro: acyclic_subset)
qed

end
