(* ===== verification/Xsd_Props.thy ===== *)
theory Xsd_Props
  imports Xsd_Views
begin

text \<open>
  Schemas that declare one prefix, \<^verbatim>\<open>xs\<close>, and no default namespace, as those of the repository do: what
  \<^verbatim>\<open>lxml\<close> says of their names, and what the insertion of the group does to them.
\<close>

definition tag_prefix :: "string \<Rightarrow> string option" where
  "tag_prefix t = (if startswith t ''{'' then Some ''xs'' else None)"

definition lname :: "string \<Rightarrow> string" where
  "lname t = (if startswith t ''{'' then after_brace t else t)"

definition ns_part :: "string \<Rightarrow> string \<Rightarrow> string" where
  "ns_part url t = (if startswith t ''{'' then ''{'' @ url @ ''}'' else [])"

definition nstr :: "'n xnode \<Rightarrow> string" where
  "nstr v = node_string (tag_prefix (n_tag v)) (lname (n_tag v)) (n_attrib v)"

abbreviation restriction_query :: string where
  "restriction_query \<equiv> ''./*[local-name()='' @ sq ''restriction'' @ '']''"

definition named_kinds :: "(string \<times> string) list" where
  "named_kinds = [(''group'', ''universal_starting_group''), (''complexType'', ''documentationType''), (''simpleType'', ''docTypeType'')]"

definition children_named :: "'n view \<Rightarrow> 'n \<Rightarrow> string \<Rightarrow> string \<Rightarrow> 'n list" where
  "children_named f n kind name =
     filter (\<lambda>c. lname (n_tag (f c)) = kind \<and> map_of (n_attrib (f c)) ''name'' = Some name) (n_children (f n))"

locale xsd = etree +
  fixes X :: "('h, 'n) xsdops" and url :: string
  assumes prefix_law: "y_prefix X h n = tag_prefix (n_tag (x_node E h n))"
    and nsmap_law: "y_nsmap X h n = [(Some ''xs'', url)]"
    and url_plain: "CHR ''}'' \<notin> set url"
    and restriction_law:
      "x_xpath E h n restriction_query = Inr (filter (\<lambda>c. lname (n_tag (x_node E h c)) = ''restriction'') (n_children (x_node E h n)))"
    and named_law:
      "(kind, name) \<in> set named_kinds \<Longrightarrow> x_xpath E h n (named_query kind name) = Inr (children_named (x_node E h) n kind name)"
    and addprevious_law:
      "n_parent (x_node E h c) = Some p \<Longrightarrow> n_children (x_node E h p) = pre @ c # post \<Longrightarrow> c \<notin> set pre \<Longrightarrow>
         y_addprevious X c s h = Inr (x_insert E p (length pre) s h)"
    and getprevious_law:
      "n_parent (x_node E h c) = Some p \<Longrightarrow> n_children (x_node E h p) = pre @ s # c # post \<Longrightarrow> c \<notin> set (pre @ [s]) \<Longrightarrow>
         y_getprevious X h c = Some s"
begin

lemma runs_localname [wp]: "runs (localname E X n) w Q \<longleftrightarrow> Q (lname (n_tag (x_node E (w_heap w) n))) w"
  by (simp add: localname_def wp prefix_law tag_prefix_def lname_def)

lemma runs_Ns_Info [wp]:
  "runs (Ns_Info X n) w Q \<longleftrightarrow>
     (let t = n_tag (x_node E (w_heap w) n) in
      Q (if startswith t ''{'' then \<lparr>ns_short = ''xs'', ns_url = url, ns_map = [(Some ''xs'', url)], ns_prefix = ns_part url t\<rparr>
         else \<lparr>ns_short = [], ns_url = [], ns_map = [], ns_prefix = ns_part url t\<rparr>) w)"
  by (simp add: Ns_Info_def wp prefix_law nsmap_law tag_prefix_def ns_part_def Let_def)

lemma runs_node_to_string [wp]:
  "runs (node_to_string E X n) w Q \<longleftrightarrow> n_tag (x_node E (w_heap w) n) \<noteq> [] \<and> Q (nstr (x_node E (w_heap w) n)) w"
  by (auto simp: node_to_string_def wp nstr_def prefix_law)

end

lemma lname_ns_part:
  assumes "CHR ''}'' \<notin> set url" and "CHR ''{'' \<notin> set name"
  shows "lname (ns_part url t @ name) = name" and "tag_prefix (ns_part url t @ name) = tag_prefix t"
proof -
  have "after_brace (''{'' @ url @ ''}'' @ name) = name"
    using split_char [of "CHR ''}''" "''{'' @ url" name] assms(1) by (simp add: after_brace_def)
  moreover have "\<not> startswith name ''{''" using assms(2) by (cases name) (auto simp: startswith_def)
  ultimately show "lname (ns_part url t @ name) = name" "tag_prefix (ns_part url t @ name) = tag_prefix t"
    by (auto simp: lname_def ns_part_def tag_prefix_def startswith_def)
qed

subsection \<open>The group reference\<close>

definition group_node :: "string \<Rightarrow> string \<Rightarrow> 'n xnode" where
  "group_node url t = new_node (ns_part url t @ ''group'') [(''ref'', ''universal_starting_group'')]"

definition group_string :: "string \<Rightarrow> string" where
  "group_string t = node_string (tag_prefix t) ''group'' [(''ref'', ''universal_starting_group'')]"

lemma nstr_group_node: "CHR ''}'' \<notin> set url \<Longrightarrow> nstr (group_node url t) = group_string t"
  using lname_ns_part [of url "''group''" t] by (simp add: nstr_def group_node_def new_node_def group_string_def)

definition starts_with_group :: "'n view \<Rightarrow> 'n \<Rightarrow> bool" where
  "starts_with_group f s \<longleftrightarrow> (\<exists>g gs. n_children (f s) = g # gs \<and> nstr (f g) = group_string (n_tag (f s)))"

text \<open>The view after the reference was put in front of the children of \<open>s\<close>; the new element \<open>g\<close> is
  left over when there was one.\<close>

definition with_group :: "string \<Rightarrow> 'n \<Rightarrow> 'n \<Rightarrow> 'n view \<Rightarrow> 'n view" where
  "with_group url s g f =
     (if starts_with_group f s then f(g := group_node url (n_tag (f s)))
      else leaf_at s 0 g (ns_part url (n_tag (f s)) @ ''group'') [(''ref'', ''universal_starting_group'')] f)"

lemma tree_new: "tree_view A f \<Longrightarrow> g \<notin> A \<Longrightarrow> tree_view (insert g A) (f(g := new_node t as))"
proof -
  assume t: "tree_view A f" and g: "g \<notin> A"
  then have wf: "wf_view A f" by (simp add: tree_view_def)
  have "n_children (f g) = []" using wf_viewD(3) [OF wf] g by simp
  then have "child_rel (f(g := new_node t as)) = child_rel f" by (auto simp: child_rel_def new_node_def split: if_splits)
  then show ?thesis using t wf_new [OF wf g] by (simp add: tree_view_def)
qed

lemma tree_with_group: "tree_view A f \<Longrightarrow> g \<notin> A \<Longrightarrow> s \<in> A \<Longrightarrow> tree_view (insert g A) (with_group url s g f)"
  by (simp add: with_group_def tree_leaf_at tree_new group_node_def)

lemma with_group_other: "q \<noteq> g \<Longrightarrow> q \<noteq> s \<Longrightarrow> with_group url s g f q = f q"
  by (simp add: with_group_def leaf_at_def)

lemma with_group_self:
  assumes "g \<noteq> s"
  shows "with_group url s g f s = (f s)\<lparr>n_children := (if starts_with_group f s then n_children (f s) else g # n_children (f s))\<rparr>"
  using assms by (simp add: with_group_def leaf_at_def)

lemma with_group_starts:
  assumes wf: "wf_view A f" and "g \<notin> A" and "s \<in> A" and "CHR ''}'' \<notin> set url"
  shows "starts_with_group (with_group url s g f) s"
proof (cases "starts_with_group f s")
  case True
  then obtain c cs where c: "n_children (f s) = c # cs" "nstr (f c) = group_string (n_tag (f s))" by (auto simp: starts_with_group_def)
  then have "c \<noteq> g" "s \<noteq> g" using wf_viewD(2) [OF wf, of s] assms(2,3) by auto
  then show ?thesis using True c by (auto simp: with_group_def starts_with_group_def)
next
  case False
  have "s \<noteq> g" using assms(2,3) by auto
  moreover have "nstr ((group_node url t :: 'a xnode)\<lparr>n_parent := Some s\<rparr>) = group_string t" for t
    using nstr_group_node [OF assms(4), of t, where 'a = 'a] by (simp add: nstr_def)
  ultimately show ?thesis using False by (auto simp: with_group_def starts_with_group_def leaf_at_def group_node_def)
qed


subsection \<open>The insertion\<close>

definition tree_world :: "('h, 'n) lxml \<Rightarrow> ('h \<Rightarrow> 'n set) \<Rightarrow> 'h world \<Rightarrow> bool" where
  "tree_world E nodes w \<longleftrightarrow> tree_view (nodes (w_heap w)) (x_node E (w_heap w))"

text \<open>The world \<open>w'\<close> is \<open>w\<close> with the nodes \<open>A\<close> and the view \<open>f\<close>.\<close>

definition now_is :: "('h, 'n) lxml \<Rightarrow> ('h \<Rightarrow> 'n set) \<Rightarrow> 'h world \<Rightarrow> 'n set \<Rightarrow> 'n view \<Rightarrow> 'h world \<Rightarrow> bool" where
  "now_is E nodes w A f w' \<longleftrightarrow> nodes (w_heap w') = A \<and> x_node E (w_heap w') = f \<and> same_fs w w'"

context etree
begin

lemma runs_new:
  assumes "\<And>g w'. g \<notin> nodes (w_heap w) \<Longrightarrow> now_is E nodes w (insert g (nodes (w_heap w))) ((x_node E (w_heap w))(g := new_node t [])) w' \<Longrightarrow> Q g w'"
  shows "runs (element E t []) w Q"
  using assms [OF element_fresh [of "w_heap w" t "[]"], of "w\<lparr>w_heap := snd (x_element E (w_heap w) t [])\<rparr>"] element_nodes [of "w_heap w" t "[]"] element_view [of "w_heap w" t "[]"]
  by (simp add: element_def runs_def py_simps now_is_def same_fs_def)

lemma runs_set_new:
  assumes "now_is E nodes w (insert g A) (f(g := new_node t as)) w1"
    and "\<And>w'. now_is E nodes w (insert g A) (f(g := new_node t (upd_attr k v as))) w' \<Longrightarrow> Q () w'"
  shows "runs (xset E g k v) w1 Q"
  using assms(1) assms(2) [of "w1\<lparr>w_heap := x_set E g k v (w_heap w1)\<rparr>"] set_nodes [of g "w_heap w1" k v] set_view [of g "w_heap w1" k v]
  by (simp add: xset_def wp now_is_def new_node_def same_fs_def)

lemma runs_set_attrs:
  assumes "now_is E nodes w (insert g A) (f(g := new_node q as)) w1"
    and "distinct (map fst (as @ kvs))" and "''qname'' \<notin> fst ` set kvs"
    and "\<And>w'. now_is E nodes w (insert g A) (f(g := new_node q (as @ kvs))) w' \<Longrightarrow> Q () w'"
  shows "runs (forM kvs (\<lambda>(k, v). if k \<noteq> ''qname'' then xset E g k v else ret ())) w1 Q"
  using assms
proof (induction kvs arbitrary: as w1)
  case Nil
  then show ?case by (simp add: wp)
next
  case (Cons kv kvs)
  obtain k v where kv: "kv = (k, v)" by (cases kv)
  have new: "upd_attr k v as = as @ [(k, v)]" using Cons.prems(2) kv by (auto simp: upd_attr_def)
  have "runs (xset E g k v) w1 (\<lambda>_ w2. runs (forM kvs (\<lambda>(k, v). if k \<noteq> ''qname'' then xset E g k v else ret ())) w2 Q)"
  proof (rule runs_set_new [OF Cons.prems(1)])
    fix w2
    assume "now_is E nodes w (insert g A) (f(g := new_node q (upd_attr k v as))) w2"
    then show "runs (forM kvs (\<lambda>(k, v). if k \<noteq> ''qname'' then xset E g k v else ret ())) w2 Q"
      unfolding new by (rule Cons.IH) (use Cons.prems kv in auto)
  qed
  then show ?case using Cons.prems(3) kv by (auto simp: wp)
qed

lemma runs_create_element:
  assumes keys: "distinct (map fst kvs)" "''qname'' \<notin> fst ` set kvs"
    and Q: "\<And>g w'. g \<notin> nodes (w_heap w) \<Longrightarrow>
      now_is E nodes w (insert g (nodes (w_heap w))) ((x_node E (w_heap w))(g := new_node q kvs)) w' \<Longrightarrow> Q g w'"
  shows "runs (create_element_from_dict E ((''qname'', q) # kvs)) w Q"
proof -
  have "runs (element E q []) w (\<lambda>g w1. runs (forM kvs (\<lambda>(k, v). if k \<noteq> ''qname'' then xset E g k v else ret ())) w1 (\<lambda>_ w2. Q g w2))"
    by (intro runs_new runs_set_attrs) (use keys Q in auto)
  then show ?thesis by (simp add: create_element_from_dict_def wp)
qed

text \<open>Putting a new element in its place.\<close>

lemma runs_insert_new:
  assumes wf: "wf_view A f" and g: "g \<notin> A" and p: "p \<in> A"
    and now: "now_is E nodes w (insert g A) (f(g := new_node t as)) w1"
    and Q: "\<And>w'. now_is E nodes w (insert g A) (leaf_at p i g t as f) w' \<Longrightarrow> Q () w'"
  shows "runs (xinsert E p i g) w1 Q"
proof -
  let ?h = "w_heap w1"
  have mem: "p \<in> nodes ?h" "g \<in> nodes ?h" and view: "x_node E ?h = f(g := new_node t as)" using now p by (auto simp: now_is_def)
  have "may_attach (x_node E ?h) p g" using g p by (intro may_attach_leaf) (auto simp: view new_node_def)
  moreover have "g \<notin> set (n_children (x_node E ?h p))" using wf_viewD(2) [OF wf, of p] g p by (auto simp: view new_node_def)
  ultimately have "x_node E (x_insert E p i g ?h) = leaf_at p i g t as f"
    using insert_view [OF mem] attach_leaf [OF wf g p] view by simp
  then show ?thesis
    using Q [of "w1\<lparr>w_heap := x_insert E p i g ?h\<rparr>"] insert_nodes [OF mem, of i] now by (simp add: xinsert_def wp now_is_def same_fs_def)
qed

lemma runs_append_new:
  assumes wf: "wf_view A f" and g: "g \<notin> A" and p: "p \<in> A"
    and now: "now_is E nodes w (insert g A) (f(g := new_node t as)) w1"
    and Q: "\<And>w'. now_is E nodes w (insert g A) (leaf_at p (length (n_children (f p))) g t as f) w' \<Longrightarrow> Q () w'"
  shows "runs (xappend E p g) w1 Q"
proof -
  let ?h = "w_heap w1"
  have mem: "p \<in> nodes ?h" "g \<in> nodes ?h" and view: "x_node E ?h = f(g := new_node t as)" using now p by (auto simp: now_is_def)
  have "may_attach (x_node E ?h) p g" using g p by (intro may_attach_leaf) (auto simp: view new_node_def)
  moreover have "detach g (f(g := new_node t as)) = f(g := new_node t as)"
    by (rule detach_root [OF wf_new [OF wf g]]) (simp add: new_node_def)
  then have "attach_last p g (f(g := new_node t as)) = leaf_at p (length (n_children (f p))) g t as f"
    using attach_leaf [OF wf g p] g p by (auto simp: attach_last_def)
  ultimately have "x_node E (x_append E p g ?h) = leaf_at p (length (n_children (f p))) g t as f"
    using append_view [OF mem] view by simp
  then show ?thesis
    using Q [of "w1\<lparr>w_heap := x_append E p g ?h\<rparr>"] append_nodes [OF mem] now by (simp add: xappend_def wp now_is_def same_fs_def)
qed

end

context xsd
begin

lemma runs_insert_usg_in_sequence:
  assumes tree: "tree_view A f" and now: "now_is E nodes w A f w1" and s: "s \<in> A"
    and first: "\<And>c cs. n_children (f s) = c # cs \<Longrightarrow> n_tag (f c) \<noteq> []"
    and Q: "\<And>g w'. g \<notin> A \<Longrightarrow> now_is E nodes w (insert g A) (with_group url s g f) w' \<Longrightarrow> Q () w'"
  shows "runs (insert_usg_in_sequence E X s) w1 Q"
proof -
  have wf: "wf_view A f" and h: "x_node E (w_heap w1) = f" "nodes (w_heap w1) = A" using tree now by (auto simp: tree_view_def now_is_def)
  let ?q = "ns_part url (n_tag (f s)) @ ''group''"
  have body: "runs (case n_children (f s) of [] \<Rightarrow> xappend E s g
      | c # _ \<Rightarrow> bnd (node_to_string E X c) (\<lambda>a. bnd (node_to_string E X g) (\<lambda>b. if a \<noteq> b then xinsert E s 0 g else ret ()))) w2 Q"
    if g: "g \<notin> A" and w2: "now_is E nodes w (insert g A) (f(g := new_node ?q [(''ref'', ''universal_starting_group'')])) w2" for g w2
  proof (cases "n_children (f s)")
    case Nil
    then have "\<not> starts_with_group f s" by (simp add: starts_with_group_def)
    then show ?thesis
      using Nil runs_append_new [OF wf g s w2, of Q] Q [OF g] by (simp add: with_group_def)
  next
    case (Cons c cs)
    then have c: "c \<noteq> g" "n_tag (f c) \<noteq> []" using wf_viewD(2) [OF wf, of s] g first by auto
    have view: "x_node E (w_heap w2) = f(g := group_node url (n_tag (f s)))" using w2 by (simp add: now_is_def group_node_def)
    have eq: "starts_with_group f s \<longleftrightarrow> nstr (f c) = nstr (x_node E (w_heap w2) g)"
      using Cons by (simp add: starts_with_group_def nstr_group_node [OF url_plain] view)
    show ?thesis
    proof (cases "starts_with_group f s")
      case True
      then show ?thesis
        using Cons c eq view Q [OF g, of w2] w2 by (simp add: wp with_group_def group_node_def new_node_def)
    next
      case False
      have "runs (xinsert E s 0 g) w2 Q"
        by (rule runs_insert_new [OF wf g s w2]) (use False Q [OF g] in \<open>simp add: with_group_def\<close>)
      with Cons False c eq view show ?thesis by (simp add: wp group_node_def new_node_def)
    qed
  qed
  have kids: "n_children ((f(g := new_node ?q as)) s) = n_children (f s)" if "g \<notin> A" for g as using that s by auto
  have "runs (create_element_from_dict E [(''qname'', ?q), (''ref'', ''universal_starting_group'')]) w1
      (\<lambda>g w2. runs (bnd (xchildren E s) (\<lambda>cs. case cs of [] \<Rightarrow> xappend E s g
      | c # _ \<Rightarrow> bnd (node_to_string E X c) (\<lambda>a. bnd (node_to_string E X g) (\<lambda>b. if a \<noteq> b then xinsert E s 0 g else ret ())))) w2 Q)"
  proof (rule runs_create_element)
    show "distinct (map fst [(''ref'', ''universal_starting_group'')])" "''qname'' \<notin> fst ` set [(''ref'', ''universal_starting_group'')]" by auto
    fix g w2
    assume g: "g \<notin> nodes (w_heap w1)" and now2: "now_is E nodes w1 (insert g (nodes (w_heap w1))) ((x_node E (w_heap w1))(g := new_node ?q [(''ref'', ''universal_starting_group'')])) w2"
    have "now_is E nodes w (insert g A) (f(g := new_node ?q [(''ref'', ''universal_starting_group'')])) w2"
      using now2 now h by (auto simp: now_is_def intro: same_fs_trans)
    from body [OF _ this] kids [of g] g h this
    show "runs (bnd (xchildren E s) (\<lambda>cs. case cs of [] \<Rightarrow> xappend E s g
      | c # _ \<Rightarrow> bnd (node_to_string E X c) (\<lambda>a. bnd (node_to_string E X g) (\<lambda>b. if a \<noteq> b then xinsert E s 0 g else ret ())))) w2 Q"
      by (simp add: runs_bnd runs_xchildren now_is_def)
  qed
  then show ?thesis unfolding insert_usg_in_sequence_def runs_bnd [of "Ns_Info X s"] runs_Ns_Info runs_bnd [of "create_element_from_dict E a" for a]
    by (simp add: Let_def h)
qed

end

end
