(* ===== verification/Xsd_Types.thy ===== *)
theory Xsd_Types
  imports Xsd_Props
begin

text \<open>
  The insertion into a complex type, as a relation between the documents before and after, and into
  all complex types of a schema.
\<close>

abbreviation kind :: "'n view \<Rightarrow> 'n \<Rightarrow> string" where
  "kind f n \<equiv> lname (n_tag (f n))"

definition annotations :: "'n view \<Rightarrow> 'n list \<Rightarrow> bool" where
  "annotations f ns \<longleftrightarrow> list_all (\<lambda>n. kind f n = ''annotation'') ns"

text \<open>What becomes of the complex type \<open>T\<close>: the group reference is put into the sequence that is its
  content, or into a new sequence, which takes in a choice or group, stands in front of attributes
  or after the annotations.  Types with simple or derived content stay as they are.\<close>

inductive usg_typed :: "string \<Rightarrow> 'n set \<Rightarrow> 'n view \<Rightarrow> 'n \<Rightarrow> 'n set \<Rightarrow> 'n view \<Rightarrow> bool" for url A f T where
  derived: "usg_typed url A f T A f"
    if "n_children (f T) = pre @ c # post" "annotations f pre" "kind f c \<in> {''simpleContent'', ''complexContent''}"
| in_sequence: "usg_typed url A f T (insert g A) (with_group url c g f)"
    if "n_children (f T) = pre @ c # post" "annotations f pre" "kind f c = ''sequence''" "g \<notin> A"
| wrapped: "usg_typed url A f T (insert g (insert s A)) (with_group url s g (wrap_child T pre c post s (ns_part url (n_tag (f c)) @ ''sequence'') f))"
    if "n_children (f T) = pre @ c # post" "annotations f pre" "kind f c \<in> {''choice'', ''group''}" "s \<notin> A" "g \<notin> insert s A"
| before: "usg_typed url A f T (insert g (insert s A)) (with_group url s g (leaf_at T (length pre) s (ns_part url (n_tag (f c)) @ ''sequence'') [] f))"
    if "n_children (f T) = pre @ c # post" "annotations f pre" "kind f c \<in> {''attribute'', ''attributeGroup''}" "s \<notin> A" "g \<notin> insert s A"
| after: "usg_typed url A f T (insert g (insert s A)) (with_group url s g (leaf_at T (length pre) s (ns_part url (n_tag (f (last pre))) @ ''sequence'') [] f))"
    if "n_children (f T) = pre" "pre \<noteq> []" "annotations f pre" "s \<notin> A" "g \<notin> insert s A"

text \<open>The content models the library supports.\<close>

definition content_ok :: "'n view \<Rightarrow> 'n \<Rightarrow> bool" where
  "content_ok f c \<longleftrightarrow>
     kind f c \<in> {''simpleContent'', ''choice'', ''group'', ''attribute'', ''attributeGroup''}
     \<or> kind f c = ''sequence'' \<and> (case n_children (f c) of [] \<Rightarrow> True | d # _ \<Rightarrow> n_tag (f d) \<noteq> [])
     \<or> kind f c = ''complexContent'' \<and> list_all (\<lambda>d. kind f d \<noteq> ''restriction'') (n_children (f c))"

fun content_supported :: "'n view \<Rightarrow> bool \<Rightarrow> 'n list \<Rightarrow> bool" where
  "content_supported f nonempty [] = nonempty"
| "content_supported f nonempty (c # cs) = (if kind f c = ''annotation'' then content_supported f nonempty cs else content_ok f c)"

definition supported :: "'n view \<Rightarrow> 'n \<Rightarrow> bool" where
  "supported f T \<longleftrightarrow> content_supported f (n_children (f T) \<noteq> []) (n_children (f T))"

context etree
begin

lemma runs_wrap:
  assumes tree: "tree_view A f" and kids: "n_children (f p) = pre @ c # post" and s: "s \<notin> A"
    and now: "now_is E nodes w (insert s A) (leaf_at p (length pre) s t [] f) w1"
    and Q: "\<And>w'. now_is E nodes w (insert s A) (wrap_child p pre c post s t f) w' \<Longrightarrow> Q () w'"
  shows "runs (xappend E s c) w1 Q"
proof -
  let ?h = "w_heap w1"
  have mem: "s \<in> nodes ?h" "c \<in> nodes ?h" and view: "x_node E ?h = leaf_at p (length pre) s t [] f"
    using now wrap_mem(2) [OF tree kids s] by (auto simp: now_is_def)
  have "x_node E (x_append E s c ?h) = wrap_child p pre c post s t f"
    using append_view [OF mem] wrap_may_attach [OF tree kids s] wrap_attach [OF tree kids s] view by simp
  then show ?thesis
    using Q [of "w1\<lparr>w_heap := x_append E s c ?h\<rparr>"] append_nodes [OF mem] now by (simp add: xappend_def wp now_is_def same_fs_def)
qed

end


context xsd
begin

lemma runs_put_before:
  assumes tree: "tree_view A f" and kids: "n_children (f p) = pre @ c # post" and s: "s \<notin> A"
    and now: "now_is E nodes w (insert s A) (f(s := new_node t [])) w1"
    and Q: "\<And>w'. now_is E nodes w (insert s A) (leaf_at p (length pre) s t [] f) w' \<Longrightarrow> runs (k s) w' Q"
  shows "runs (seq (xaddprevious X c s) (bnd (xgetprevious X c) k)) w1 Q"
proof -
  note mem = wrap_mem [OF tree kids s]
  have wf: "wf_view A f" using tree by (simp add: tree_view_def)
  have "n_parent (x_node E (w_heap w1) c) = Some p" "n_children (x_node E (w_heap w1) p) = pre @ c # post" "c \<notin> set pre"
    using now mem kids by (auto simp: now_is_def)
  then have add: "y_addprevious X c s (w_heap w1) = Inr (x_insert E p (length pre) s (w_heap w1))" by (rule addprevious_law)
  have "runs (xinsert E p (length pre) s) w1 (\<lambda>_ w2. runs (bnd (xgetprevious X c) k) w2 Q)"
  proof (rule runs_insert_new [OF wf s mem(1) now])
    fix w2
    assume w2: "now_is E nodes w (insert s A) (leaf_at p (length pre) s t [] f) w2"
    have "n_parent (x_node E (w_heap w2) c) = Some p" "n_children (x_node E (w_heap w2) p) = pre @ s # c # post" "c \<notin> set (pre @ [s])"
      using w2 mem kids by (auto simp: now_is_def leaf_at_def)
    then have "y_getprevious X (w_heap w2) c = Some s" by (rule getprevious_law)
    then show "runs (bnd (xgetprevious X c) k) w2 Q" using Q [OF w2] by (simp add: wp)
  qed
  then show ?thesis using add by (simp add: wp xinsert_def)
qed

text \<open>A new sequence, which has no children or one that is not a comment.\<close>

lemma runs_usg_in_new:
  assumes tree: "tree_view B f'" and now: "now_is E nodes w B f' w1" and s: "s \<in> B"
    and kids: "n_children (f' s) = [] \<or> (\<exists>c. n_children (f' s) = [c] \<and> n_tag (f' c) \<noteq> [])"
    and Q: "\<And>g w'. g \<notin> B \<Longrightarrow> now_is E nodes w (insert g B) (with_group url s g f') w' \<Longrightarrow> Q () w'"
  shows "runs (insert_usg_in_sequence E X s) w1 Q"
  by (rule runs_insert_usg_in_sequence [OF tree now s]) (use kids Q in auto)

lemma runs_usg_attribute:
  assumes tree: "tree_view A f" and now: "now_is E nodes w A f w1" and kids: "n_children (f T) = pre @ c # post"
    and Q: "\<And>s g w'. s \<notin> A \<Longrightarrow> g \<notin> insert s A \<Longrightarrow>
      now_is E nodes w (insert g (insert s A)) (with_group url s g (leaf_at T (length pre) s t [] f)) w' \<Longrightarrow> Q () w'"
  shows "runs (bnd (element E t []) (\<lambda>s. seq (xaddprevious X c s) (bnd (xgetprevious X c) (insert_usg_in_sequence E X)))) w1 Q"
  unfolding runs_bnd [of "element E t []"]
proof (rule runs_new)
  fix s w2
  assume s: "s \<notin> nodes (w_heap w1)" and now2: "now_is E nodes w1 (insert s (nodes (w_heap w1))) ((x_node E (w_heap w1))(s := new_node t [])) w2"
  then have s: "s \<notin> A" and now2: "now_is E nodes w (insert s A) (f(s := new_node t [])) w2"
    using now by (auto simp: now_is_def intro: same_fs_trans)
  note mem = wrap_mem [OF tree kids s]
  show "runs (seq (xaddprevious X c s) (bnd (xgetprevious X c) (insert_usg_in_sequence E X))) w2 Q"
  proof (rule runs_put_before [OF tree kids s now2])
    fix w3
    assume now3: "now_is E nodes w (insert s A) (leaf_at T (length pre) s t [] f) w3"
    show "runs (insert_usg_in_sequence E X s) w3 Q"
      by (rule runs_usg_in_new [OF tree_leaf_at [OF tree s mem(1)] now3])
        (use mem in \<open>simp add: leaf_at_def new_node_def\<close>, use mem in \<open>simp add: leaf_at_def new_node_def\<close>, erule (1) Q [OF s])
  qed
qed

lemma runs_usg_wrap:
  assumes tree: "tree_view A f" and now: "now_is E nodes w A f w1" and kids: "n_children (f T) = pre @ c # post" and tag: "n_tag (f c) \<noteq> []"
    and Q: "\<And>s g w'. s \<notin> A \<Longrightarrow> g \<notin> insert s A \<Longrightarrow>
      now_is E nodes w (insert g (insert s A)) (with_group url s g (wrap_child T pre c post s t f)) w' \<Longrightarrow> Q () w'"
  shows "runs (bnd (element E t []) (\<lambda>s. seq (xaddprevious X c s) (bnd (xgetprevious X c) (\<lambda>s. seq (xappend E s c) (insert_usg_in_sequence E X s))))) w1 Q"
  unfolding runs_bnd [of "element E t []"]
proof (rule runs_new)
  fix s w2
  assume s: "s \<notin> nodes (w_heap w1)" and now2: "now_is E nodes w1 (insert s (nodes (w_heap w1))) ((x_node E (w_heap w1))(s := new_node t [])) w2"
  then have s: "s \<notin> A" and now2: "now_is E nodes w (insert s A) (f(s := new_node t [])) w2"
    using now by (auto simp: now_is_def intro: same_fs_trans)
  note mem = wrap_mem [OF tree kids s]
  show "runs (seq (xaddprevious X c s) (bnd (xgetprevious X c) (\<lambda>s. seq (xappend E s c) (insert_usg_in_sequence E X s)))) w2 Q"
  proof (rule runs_put_before [OF tree kids s now2], unfold runs_bnd [of "xappend E s c"], erule runs_wrap [OF tree kids s])
    fix w3
    assume now3: "now_is E nodes w (insert s A) (wrap_child T pre c post s t f) w3"
    show "runs (insert_usg_in_sequence E X s) w3 Q"
      by (rule runs_usg_in_new [OF tree_wrap [OF tree kids s] now3])
        (use mem tag in \<open>simp add: wrap_child_def new_node_def\<close>, use mem tag in \<open>simp add: wrap_child_def new_node_def\<close>, erule (1) Q [OF s])
  qed
qed

lemma runs_usg_append:
  assumes tree: "tree_view A f" and now: "now_is E nodes w A f w1" and T: "T \<in> A"
    and Q: "\<And>s g w'. s \<notin> A \<Longrightarrow> g \<notin> insert s A \<Longrightarrow>
      now_is E nodes w (insert g (insert s A)) (with_group url s g (leaf_at T (length (n_children (f T))) s t [] f)) w' \<Longrightarrow> Q () w'"
  shows "runs (bnd (element E t []) (\<lambda>s. seq (xappend E T s) (bnd (xchildren E T) (\<lambda>cs. insert_usg_in_sequence E X (last cs))))) w1 Q"
  unfolding runs_bnd [of "element E t []"]
proof (rule runs_new)
  fix s w2
  assume s: "s \<notin> nodes (w_heap w1)" and now2: "now_is E nodes w1 (insert s (nodes (w_heap w1))) ((x_node E (w_heap w1))(s := new_node t [])) w2"
  then have s: "s \<notin> A" and now2: "now_is E nodes w (insert s A) (f(s := new_node t [])) w2"
    using now by (auto simp: now_is_def intro: same_fs_trans)
  have wf: "wf_view A f" and ne: "s \<noteq> T" using tree s T by (auto simp: tree_view_def)
  show "runs (seq (xappend E T s) (bnd (xchildren E T) (\<lambda>cs. insert_usg_in_sequence E X (last cs)))) w2 Q"
    unfolding runs_bnd [of "xappend E T s"]
  proof (rule runs_append_new [OF wf s T now2])
    fix w3
    assume now3: "now_is E nodes w (insert s A) (leaf_at T (length (n_children (f T))) s t [] f) w3"
    have "runs (insert_usg_in_sequence E X s) w3 Q"
      by (rule runs_usg_in_new [OF tree_leaf_at [OF tree s T] now3])
        (use ne in \<open>simp add: leaf_at_def new_node_def\<close>, use ne in \<open>simp add: leaf_at_def new_node_def\<close>, erule (1) Q [OF s])
    moreover have "last (n_children (x_node E (w_heap w3) T)) = s" using now3 ne by (simp add: now_is_def leaf_at_def)
    ultimately show "runs (bnd (xchildren E T) (\<lambda>cs. insert_usg_in_sequence E X (last cs))) w3 Q" by (simp add: wp)
  qed
qed

lemma runs_usg_children:
  assumes tree: "tree_view A f" and now: "now_is E nodes w A f w1" and kids: "n_children (f T) = pre @ cs" and T: "T \<in> A"
    and ann: "annotations f pre" and pfx: "pfx = (if pre = [] then None else Some (ns_part url (n_tag (f (last pre)))))"
    and ok: "content_supported f (pre @ cs \<noteq> []) cs"
    and Q: "\<And>A' f' w'. usg_typed url A f T A' f' \<Longrightarrow> now_is E nodes w A' f' w' \<Longrightarrow> Q () w'"
  shows "runs (usg_children E X T pfx cs) w1 Q"
  using kids ann pfx ok
proof (induction cs arbitrary: pre pfx)
  case Nil
  then have pre: "pre \<noteq> []" "n_children (f T) = pre" "pfx = Some (ns_part url (n_tag (f (last pre))))" by auto
  have "runs (bnd (element E (ns_part url (n_tag (f (last pre))) @ ''sequence'') []) (\<lambda>s. seq (xappend E T s)
      (bnd (xchildren E T) (\<lambda>cs. insert_usg_in_sequence E X (last cs))))) w1 Q"
    by (rule runs_usg_append [OF tree now T]) (use pre Nil.prems(2) in \<open>auto intro!: Q usg_typed.after\<close>)
  then show ?case using pre(3) by simp
next
  case (Cons c cs)
  have view: "x_node E (w_heap w1) = f" using now by (simp add: now_is_def)
  note kids = Cons.prems(1) and ann = Cons.prems(2)
  let ?p = "ns_part url (n_tag (f c))"
  show ?case
  proof (cases "kind f c = ''annotation''")
    case True
    have "runs (usg_children E X T (Some ?p) cs) w1 Q"
      by (rule Cons.IH [of "pre @ [c]"]) (use Cons.prems True in \<open>simp_all add: annotations_def\<close>)
    then show ?thesis using True view by (simp add: wp Let_def)
  next
    case False
    then have c: "content_ok f c" using Cons.prems(4) by simp
    then consider "kind f c = ''simpleContent''" | "kind f c \<in> {''choice'', ''group''}" | "kind f c \<in> {''attribute'', ''attributeGroup''}"
      | "kind f c = ''sequence''" "case n_children (f c) of [] \<Rightarrow> True | d # _ \<Rightarrow> n_tag (f d) \<noteq> []"
      | "kind f c = ''complexContent''" "list_all (\<lambda>d. kind f d \<noteq> ''restriction'') (n_children (f c))"
      by (auto simp: content_ok_def)
    then show ?thesis
    proof cases
      case 1
      then show ?thesis using Q [OF usg_typed.derived [OF kids ann] now] view by (simp add: wp Let_def)
    next
      case 2
      have tag: "n_tag (f c) \<noteq> []" using 2 by (auto simp: lname_def startswith_def)
      have "runs (bnd (element E (?p @ ''sequence'') []) (\<lambda>s. seq (xaddprevious X c s) (bnd (xgetprevious X c)
          (\<lambda>s. seq (xappend E s c) (insert_usg_in_sequence E X s))))) w1 Q"
        by (rule runs_usg_wrap [OF tree now kids tag]) (blast intro: Q usg_typed.wrapped [OF kids ann 2])
      then show ?thesis using 2 view by (auto simp: runs_bnd runs_localname runs_Ns_Info Let_def)
    next
      case 3
      have "runs (bnd (element E (?p @ ''sequence'') []) (\<lambda>s. seq (xaddprevious X c s) (bnd (xgetprevious X c) (insert_usg_in_sequence E X)))) w1 Q"
        by (rule runs_usg_attribute [OF tree now kids]) (blast intro: Q usg_typed.before [OF kids ann 3])
      then show ?thesis using 3 view by (auto simp: runs_bnd runs_localname runs_Ns_Info Let_def)
    next
      case 4
      have "c \<in> A" using kids wf_viewD(2) [of A f T] tree by (auto simp: tree_view_def)
      then have "runs (insert_usg_in_sequence E X c) w1 Q"
        by (rule runs_insert_usg_in_sequence [OF tree now])
          (use 4 in \<open>auto split: list.splits intro: Q usg_typed.in_sequence [OF kids ann 4(1)]\<close>)
      then show ?thesis using 4(1) view by (simp add: runs_bnd runs_localname runs_Ns_Info Let_def)
    next
      case 5
      have "filter (\<lambda>d. kind f d = ''restriction'') (n_children (f c)) = []" using 5(2) by (simp add: list_all_iff filter_empty_conv)
      then show ?thesis
        using 5(1) Q [OF usg_typed.derived [OF kids ann] now] view restriction_law [of "w_heap w1" c] by (simp add: wp Let_def)
    qed
  qed
qed

lemma runs_insert_usg_in_complexType:
  assumes tree: "tree_view A f" and now: "now_is E nodes w A f w1" and T: "T \<in> A" and ok: "supported f T"
    and Q: "\<And>A' f' w'. usg_typed url A f T A' f' \<Longrightarrow> now_is E nodes w A' f' w' \<Longrightarrow> Q () w'"
  shows "runs (insert_usg_in_complexType E X T) w1 Q"
proof -
  have view: "x_node E (w_heap w1) = f" using now by (simp add: now_is_def)
  have "runs (usg_children E X T None (n_children (f T))) w1 Q"
    by (rule runs_usg_children [OF tree now, of T "[]" "n_children (f T)", OF _ T _ refl [THEN trans]])
      (use ok in \<open>simp_all add: annotations_def supported_def Q\<close>)
  then show ?thesis by (simp add: insert_usg_in_complexType_def wp view)
qed

end

end
