(* ===== verification/Xsd_Schema.thy ===== *)
theory Xsd_Schema
  imports Xsd_Types
begin

text \<open>
  Whole schemas: after the insertion every complex type has simple or derived content, and is then
  what it was, or starts with the group; the rest of the document is what it was.
\<close>

definition usg_ready :: "'n view \<Rightarrow> 'n \<Rightarrow> bool" where
  "usg_ready f T \<longleftrightarrow>
     (\<exists>pre c post. n_children (f T) = pre @ c # post \<and> annotations f pre
        \<and> (kind f c \<in> {''simpleContent'', ''complexContent''} \<or> kind f c = ''sequence'' \<and> starts_with_group f c))"

text \<open>The two cases apart: the first child that is not an annotation says which one it is.\<close>

definition derived_content :: "'n view \<Rightarrow> 'n \<Rightarrow> bool" where
  "derived_content f T \<longleftrightarrow>
     (case dropWhile (\<lambda>c. kind f c = ''annotation'') (n_children (f T)) of
        [] \<Rightarrow> False | c # _ \<Rightarrow> kind f c \<in> {''simpleContent'', ''complexContent''})"

definition group_first :: "'n view \<Rightarrow> 'n \<Rightarrow> bool" where
  "group_first f T \<longleftrightarrow>
     (case dropWhile (\<lambda>c. kind f c = ''annotation'') (n_children (f T)) of
        [] \<Rightarrow> False | c # _ \<Rightarrow> kind f c = ''sequence'' \<and> starts_with_group f c)"

lemma dropWhile_annotations:
  "annotations f pre \<Longrightarrow> kind f c \<noteq> ''annotation'' \<Longrightarrow> dropWhile (\<lambda>c. kind f c = ''annotation'') (pre @ c # post) = c # post"
  by (induction pre) (auto simp: annotations_def)

lemma usg_ready_iff: "usg_ready f T \<longleftrightarrow> derived_content f T \<or> group_first f T"
proof
  assume "usg_ready f T"
  then obtain pre c post where "n_children (f T) = pre @ c # post" "annotations f pre"
    "kind f c \<in> {''simpleContent'', ''complexContent''} \<or> kind f c = ''sequence'' \<and> starts_with_group f c"
    by (auto simp: usg_ready_def)
  moreover from this have "kind f c \<noteq> ''annotation''" by auto
  ultimately show "derived_content f T \<or> group_first f T" by (auto simp: derived_content_def group_first_def dropWhile_annotations)
next
  let ?P = "\<lambda>c. kind f c = ''annotation''" and ?cs = "n_children (f T)"
  assume a: "derived_content f T \<or> group_first f T"
  have "dropWhile ?P ?cs \<noteq> []" using a unfolding derived_content_def group_first_def by (metis list.simps(4))
  then obtain c post where d: "dropWhile ?P ?cs = c # post" by (cases "dropWhile ?P ?cs") blast+
  then have "?cs = takeWhile ?P ?cs @ c # post" using takeWhile_dropWhile_id [of ?P ?cs] by simp
  moreover have "annotations f (takeWhile ?P ?cs)" by (auto simp: annotations_def list_all_iff dest: set_takeWhileD)
  ultimately show "usg_ready f T"
    unfolding usg_ready_def using a d by (intro exI [of _ "takeWhile ?P ?cs"] exI [of _ c] exI [of _ post]) (auto simp: derived_content_def group_first_def)
qed

lemma group_not_derived: "group_first f T \<Longrightarrow> \<not> derived_content f T"
  by (auto simp: derived_content_def group_first_def split: list.splits)

text \<open>A change of the type \<open>T\<close> touches \<open>T\<close> and its children, and no name and no attribute.\<close>

definition touches_only :: "'n \<Rightarrow> 'n set \<Rightarrow> 'n view \<Rightarrow> 'n view \<Rightarrow> bool" where
  "touches_only T A f f' \<longleftrightarrow>
     (\<forall>q \<in> A. n_tag (f' q) = n_tag (f q) \<and> n_attrib (f' q) = n_attrib (f q)
        \<and> (q \<noteq> T \<and> n_parent (f q) \<noteq> Some T \<longrightarrow> f' q = f q))"

lemma annotations_cong: "(\<And>q. q \<in> set ns \<Longrightarrow> n_tag (f' q) = n_tag (f q)) \<Longrightarrow> annotations f' ns \<longleftrightarrow> annotations f ns"
  by (auto simp: annotations_def list_all_iff)

lemma usg_typed_tree:
  assumes "usg_typed url A f T A' f'" and tree: "tree_view A f" and T: "T \<in> A"
  shows "tree_view A' f' \<and> A \<subseteq> A'"
  using assms(1)
proof cases
  case (in_sequence pre c post g)
  moreover have "c \<in> A" using in_sequence(3) wf_viewD(2) [of A f T] tree by (auto simp: tree_view_def)
  ultimately show ?thesis using tree by (auto intro: tree_with_group)
next
  case (wrapped pre c post s g)
  then show ?thesis using tree_wrap [OF tree wrapped(3) wrapped(6)] by (auto intro!: tree_with_group)
next
  case (before pre c post s g)
  then show ?thesis using tree_leaf_at [OF tree before(6) T] by (auto intro!: tree_with_group)
next
  case (after pre s g)
  then show ?thesis using tree_leaf_at [OF tree after(6) T] by (auto intro!: tree_with_group)
qed (use tree in auto)

lemma usg_typed_touches:
  assumes "usg_typed url A f T A' f'" and tree: "tree_view A f" and T: "T \<in> A"
  shows "touches_only T A f f'"
  using assms(1)
proof cases
  case (in_sequence pre c post g)
  have wf: "wf_view A f" using tree by (simp add: tree_view_def)
  have "c \<in> A" "n_parent (f c) = Some T" using in_sequence(3) wf_viewD(2) [OF wf, of T] wf_viewD(4) [OF wf, of c T] by auto
  with in_sequence(2,6) show ?thesis by (auto simp: touches_only_def with_group_def leaf_at_def)
next
  case (wrapped pre c post s g)
  note mem = wrap_mem [OF tree wrapped(3,6)]
  with wrapped(2,6,7) show ?thesis by (auto simp: touches_only_def with_group_def leaf_at_def wrap_child_def)
qed (use T in \<open>auto simp: touches_only_def with_group_def leaf_at_def\<close>)


lemma group_firstI:
  "n_children (f T) = pre @ c # post \<Longrightarrow> annotations f pre \<Longrightarrow> kind f c = ''sequence'' \<Longrightarrow> starts_with_group f c \<Longrightarrow> group_first f T"
  by (simp add: group_first_def dropWhile_annotations)

lemma derived_contentI:
  "n_children (f T) = pre @ c # post \<Longrightarrow> annotations f pre \<Longrightarrow> kind f c \<in> {''simpleContent'', ''complexContent''} \<Longrightarrow> derived_content f T"
  by (auto simp: derived_content_def dropWhile_annotations)

lemma usg_typed_grouped:
  assumes "usg_typed url A f T A' f'" and tree: "tree_view A f" and T: "T \<in> A" and url: "CHR ''}'' \<notin> set url"
  shows "if derived_content f T then f' = f else group_first f' T"
proof -
  have tags: "n_tag (f' q) = n_tag (f q)" if "q \<in> A" for q
    using usg_typed_touches [OF assms(1-3)] that by (simp add: touches_only_def)
  have wf: "wf_view A f" using tree by (simp add: tree_view_def)
  have ann: "annotations f' pre" if "annotations f pre" "set pre \<subseteq> set (n_children (f T))" for pre
    using that annotations_cong [of pre f' f] tags wf_viewD(2) [OF wf, of T] by auto
  have seq: "kind f'' s = ''sequence''" if "n_tag (f'' s) = ns_part url t @ ''sequence''" for f'' :: "'a view" and s t
    using that lname_ns_part [OF url, of "''sequence''" t] by simp
  have plain: "\<not> derived_content f T" if "n_children (f T) = pre @ c # post" "annotations f pre"
      "kind f c \<notin> {''annotation'', ''simpleContent'', ''complexContent''}" for pre c post
    using that dropWhile_annotations [of f pre c post] by (simp add: derived_content_def)
  show ?thesis
    using assms(1)
  proof cases
    case (derived pre c post)
    then show ?thesis using derived_contentI [of f T pre c post] by simp
  next
    case (in_sequence pre c post g)
    have c: "c \<in> A" using in_sequence(3) wf_viewD(2) [OF wf, of T] by auto
    have "c \<noteq> T" using wrap_mem(3) [OF tree in_sequence(3,6)] by simp
    moreover have "T \<noteq> g" using T in_sequence(6) by auto
    ultimately have "n_children (f' T) = pre @ c # post" using in_sequence(2,3) with_group_other [of T g c url f] by simp
    moreover have "kind f' c = ''sequence''" using tags [OF c] in_sequence(5) by simp
    moreover have "starts_with_group f' c" using with_group_starts [OF wf in_sequence(6) c url] in_sequence(2) by simp
    ultimately have "group_first f' T" using ann [OF in_sequence(4)] in_sequence(3) by (intro group_firstI) auto
    then show ?thesis using plain [OF in_sequence(3,4)] in_sequence(5) by auto
  next
    case (wrapped pre c post s g)
    let ?f = "wrap_child T pre c post s (ns_part url (n_tag (f c)) @ ''sequence'') f"
    note mem = wrap_mem [OF tree wrapped(3,6)]
    have gT: "T \<noteq> g" "s \<noteq> g" using T wrapped(7) by auto
    have "wf_view (insert s A) ?f" using tree_wrap [OF tree wrapped(3,6)] by (simp add: tree_view_def)
    from with_group_starts [OF this wrapped(7) insertI1 url] have "starts_with_group f' s" by (simp only: wrapped(2))
    moreover have "n_children (f' T) = pre @ s # post" "n_tag (f' s) = ns_part url (n_tag (f c)) @ ''sequence''"
      using wrapped(2) gT mem by (auto simp: with_group_other with_group_self wrap_child_def new_node_def)
    ultimately have "group_first f' T" using ann [OF wrapped(4)] wrapped(3) seq by (intro group_firstI) auto
    then show ?thesis using plain [OF wrapped(3,4)] wrapped(5) by auto
  next
    case (before pre c post s g)
    let ?f = "leaf_at T (length pre) s (ns_part url (n_tag (f c)) @ ''sequence'') [] f"
    have ne: "s \<noteq> T" "g \<noteq> T" "g \<noteq> s" using T before(6,7) by auto
    have "wf_view (insert s A) ?f" using wf_leaf_at [OF wf before(6) T] .
    from with_group_starts [OF this before(7) insertI1 url] have "starts_with_group f' s" by (simp only: before(2))
    moreover have "n_children (f' T) = pre @ s # c # post" "n_tag (f' s) = ns_part url (n_tag (f c)) @ ''sequence''"
      using before(2,3) ne by (auto simp: with_group_other with_group_self leaf_at_def new_node_def)
    ultimately have "group_first f' T" using ann [OF before(4)] before(3) seq by (intro group_firstI) auto
    then show ?thesis using plain [OF before(3,4)] before(5) by auto
  next
    case (after pre s g)
    let ?f = "leaf_at T (length pre) s (ns_part url (n_tag (f (last pre))) @ ''sequence'') [] f"
    have ne: "s \<noteq> T" "g \<noteq> T" "g \<noteq> s" using T after(6,7) by auto
    have "wf_view (insert s A) ?f" using wf_leaf_at [OF wf after(6) T] .
    from with_group_starts [OF this after(7) insertI1 url] have "starts_with_group f' s" by (simp only: after(2))
    moreover have "n_children (f' T) = pre @ s # []" "n_tag (f' s) = ns_part url (n_tag (f (last pre))) @ ''sequence''"
      using after(2,3) ne by (auto simp: with_group_other with_group_self leaf_at_def new_node_def)
    ultimately have "group_first f' T" using ann [OF after(5)] after(3) seq by (intro group_firstI) auto
    moreover have "dropWhile (\<lambda>c. kind f c = ''annotation'') (n_children (f T)) = []" using after(3,5) by (simp add: annotations_def list_all_iff)
    ultimately show ?thesis by (simp add: derived_content_def del: dropWhile_eq_Nil_conv)
  qed
qed


lemma usg_typed_ready:
  assumes "usg_typed url A f T A' f'" and "tree_view A f" and "T \<in> A" and "CHR ''}'' \<notin> set url"
  shows "usg_ready f' T" and "derived_content f' T \<Longrightarrow> derived_content f T" and "derived_content f T \<Longrightarrow> f' = f"
  using usg_typed_grouped [OF assms] group_not_derived [of f' T] by (auto simp: usg_ready_iff split: if_splits)

text \<open>A type that is not changed stays ready, or supported.\<close>

definition same_type :: "'n view \<Rightarrow> 'n view \<Rightarrow> 'n \<Rightarrow> bool" where
  "same_type f f' T \<longleftrightarrow>
     n_children (f' T) = n_children (f T)
     \<and> (\<forall>c \<in> set (n_children (f T)). n_tag (f' c) = n_tag (f c) \<and> n_children (f' c) = n_children (f c)
          \<and> (\<forall>d \<in> set (n_children (f c)). n_tag (f' d) = n_tag (f d) \<and> n_attrib (f' d) = n_attrib (f d)))"

lemma same_type_refl: "same_type f f T"
  by (simp add: same_type_def)

lemma same_type_trans: "same_type f f1 T \<Longrightarrow> same_type f1 f2 T \<Longrightarrow> same_type f f2 T"
  by (simp add: same_type_def)

lemma same_type_ready: "same_type f f' T \<Longrightarrow> usg_ready f T \<Longrightarrow> usg_ready f' T"
  unfolding usg_ready_def same_type_def
  by (elim exE conjE, rule exI, rule exI, rule exI, rule conjI, rule trans, assumption, assumption)
     (auto simp: annotations_def list_all_iff starts_with_group_def nstr_def)

lemma same_type_derived: "same_type f f' T \<Longrightarrow> derived_content f' T = derived_content f T"
proof -
  assume same: "same_type f f' T"
  then have "dropWhile (\<lambda>c. kind f' c = ''annotation'') (n_children (f T)) = dropWhile (\<lambda>c. kind f c = ''annotation'') (n_children (f T))"
    by (intro dropWhile_cong) (auto simp: same_type_def)
  moreover have "c \<in> set (n_children (f T))" if "dropWhile (\<lambda>c. kind f c = ''annotation'') (n_children (f T)) = c # cs" for c cs
    using that by (metis list.set_intros(1) set_dropWhileD)
  ultimately show ?thesis using same by (auto simp: derived_content_def same_type_def split: list.splits)
qed

lemma content_supported_cong:
  assumes "\<And>c. c \<in> set cs \<Longrightarrow> content_ok f' c \<longleftrightarrow> content_ok f c" and "\<And>c. c \<in> set cs \<Longrightarrow> n_tag (f' c) = n_tag (f c)"
  shows "content_supported f' b cs = content_supported f b cs"
  using assms by (induction cs) auto

lemma same_type_supported: "same_type f f' T \<Longrightarrow> supported f T \<Longrightarrow> supported f' T"
proof -
  assume same: "same_type f f' T" and ok: "supported f T"
  have "content_ok f' c \<longleftrightarrow> content_ok f c" if "c \<in> set (n_children (f T))" for c
    using same that by (auto simp: same_type_def content_ok_def list_all_iff split: list.splits)
  then have "content_supported f' b (n_children (f T)) = content_supported f b (n_children (f T))" for b
    by (rule content_supported_cong) (use same in \<open>auto simp: same_type_def\<close>)
  then show ?thesis using ok same by (simp add: supported_def same_type_def)
qed

text \<open>The types of a schema are children of its root: a change of one touches neither the root nor
  another.\<close>

lemma touches_root:
  assumes touch: "touches_only T A f f'" and tree: "tree_view A f" and T: "T \<in> set (n_children (f r))"
  shows "f' r = f r"
proof -
  have wf: "wf_view A f" using tree by (simp add: tree_view_def)
  have e: "(r, T) \<in> child_rel f" using T by (simp add: child_rel_def)
  have "r \<in> A" using wf_viewD(3) [OF wf, of r] T by (metis empty_iff list.set(1))
  moreover have "r \<noteq> T" using e tree by (auto simp: tree_view_def acyclic_def)
  moreover have "n_parent (f r) \<noteq> Some T"
  proof
    assume "n_parent (f r) = Some T"
    then have "(T, r) \<in> child_rel f" using wf_viewD(4) [OF wf] by (auto simp: child_rel_def)
    then have "(T, T) \<in> (child_rel f)\<^sup>+" using e by (meson trancl.simps)
    then show False using tree by (auto simp: tree_view_def acyclic_def)
  qed
  ultimately show ?thesis using touch by (auto simp: touches_only_def)
qed

lemma touches_other_type:
  assumes touch: "touches_only T A f f'" and tree: "tree_view A f"
    and T: "T \<in> set (n_children (f r))" and U: "U \<in> set (n_children (f r))" and ne: "U \<noteq> T"
  shows "same_type f f' U"
proof -
  have wf: "wf_view A f" and ac: "acyclic (child_rel f)" using tree by (auto simp: tree_view_def)
  have par: "n_parent (f T) = Some r" "n_parent (f U) = Some r" using wf_viewD(4) [OF wf] T U by auto
  have edge: "(r, T) \<in> child_rel f" "(r, U) \<in> child_rel f" using T U by (auto simp: child_rel_def)
  have r: "r \<noteq> T" "r \<noteq> U" using edge ac by (auto simp: acyclic_def)
  have inA: "q \<in> set (n_children (f p)) \<Longrightarrow> q \<in> A" for p q using wf_viewD(2) [OF wf] by auto
  have keep: "q \<in> A \<Longrightarrow> q \<noteq> T \<Longrightarrow> n_parent (f q) \<noteq> Some T \<Longrightarrow> f' q = f q" for q using touch by (auto simp: touches_only_def)
  have U': "f' U = f U" by (rule keep) (use inA [OF U] ne par r in auto)
  have c: "f' c = f c" if "c \<in> set (n_children (f U))" for c
  proof (rule keep [OF inA [OF that]])
    have cp: "n_parent (f c) = Some U" using wf_viewD(4) [OF wf] that by auto
    then show "n_parent (f c) \<noteq> Some T" using ne by simp
    show "c \<noteq> T" using cp par r by auto
  qed
  have "n_tag (f' d) = n_tag (f d) \<and> n_attrib (f' d) = n_attrib (f d)" if "d \<in> A" for d
    using touch that by (auto simp: touches_only_def)
  then show "same_type f f' U" using U' c inA by (auto simp: same_type_def)
qed

text \<open>Where the loop over the children \<open>cs\<close> of the root \<open>r\<close> is after the children \<open>pre\<close>.\<close>

definition loop_state :: "'n \<Rightarrow> 'n set \<Rightarrow> 'n view \<Rightarrow> 'n list \<Rightarrow> 'n set \<Rightarrow> 'n view \<Rightarrow> bool" where
  "loop_state r A f pre A' f' \<longleftrightarrow>
     tree_view A' f' \<and> A \<subseteq> A' \<and> n_children (f' r) = n_children (f r)
     \<and> (\<forall>q \<in> A. n_tag (f' q) = n_tag (f q) \<and> n_attrib (f' q) = n_attrib (f q))
     \<and> (\<forall>T \<in> set (n_children (f r)). if T \<in> set pre \<and> kind f T = ''complexType'' then usg_ready f' T
                                      else kind f T = ''complexType'' \<longrightarrow> supported f' T)
     \<and> (\<forall>T \<in> set (n_children (f r)). (derived_content f T \<longrightarrow> same_type f f' T) \<and> (derived_content f' T \<longrightarrow> derived_content f T))"

lemma loop_state_step:
  assumes st: "loop_state r A f pre A1 f1" and split: "n_children (f r) = pre @ T # post" and wf0: "wf_view A f"
    and step: "usg_typed url A1 f1 T A2 f2" and url: "CHR ''}'' \<notin> set url"
  shows "loop_state r A f (pre @ [T]) A2 f2"
proof -
  have tree: "tree_view A1 f1" and sub: "A \<subseteq> A1" and kids: "n_children (f1 r) = pre @ T # post"
    using st split by (auto simp: loop_state_def)
  have T: "T \<in> A1" "T \<in> set (n_children (f1 r))" using kids wf_viewD(2) [of A1 f1 r] tree by (auto simp: tree_view_def)
  note touch = usg_typed_touches [OF step tree T(1)]
  have t2: "tree_view A2 f2" "A1 \<subseteq> A2" using usg_typed_tree [OF step tree T(1)] by auto
  have ready: "usg_ready f2 T" by (rule usg_typed_ready(1) [OF step tree T(1) url])
  have other: "same_type f1 f2 U" if "U \<in> set (n_children (f r))" "U \<noteq> T" for U
    by (rule touches_other_type [OF touch tree T(2)]) (use that kids split in auto)
  have root: "f2 r = f1 r" by (rule touches_root [OF touch tree T(2)])
  have "if U \<in> set (pre @ [T]) \<and> kind f U = ''complexType'' then usg_ready f2 U else kind f U = ''complexType'' \<longrightarrow> supported f2 U"
    if U: "U \<in> set (n_children (f r))" for U
  proof (cases "U = T")
    case True
    then show ?thesis using ready by simp
  next
    case False
    then show ?thesis using st U other [OF U False] by (auto simp: loop_state_def same_type_ready same_type_supported)
  qed
  moreover have "derived_content f U" if U: "U \<in> set (n_children (f r))" "derived_content f2 U" for U
  proof -
    have "derived_content f1 U"
      using U usg_typed_ready(2) [OF step tree T(1) url] same_type_derived [OF other [OF U(1)]] by (cases "U = T") auto
    then show ?thesis using st U(1) by (auto simp: loop_state_def)
  qed
  moreover have "same_type f f2 U" if U: "U \<in> set (n_children (f r))" "derived_content f U" for U
  proof -
    have same: "same_type f f1 U" using st U by (auto simp: loop_state_def)
    then have "derived_content f1 U" using same_type_derived [OF same] U(2) by simp
    then have "same_type f1 f2 U" using usg_typed_ready(3) [OF step tree T(1) url] other [OF U(1)] by (cases "U = T") (auto simp: same_type_refl)
    with same show ?thesis by (rule same_type_trans)
  qed
  moreover have "n_tag (f2 q) = n_tag (f q) \<and> n_attrib (f2 q) = n_attrib (f q)" if "q \<in> A" for q
    using st touch that sub by (auto simp: loop_state_def touches_only_def)
  ultimately show ?thesis using t2 sub root kids split by (auto simp: loop_state_def)
qed

text \<open>The loop over the types.\<close>

lemma loop_state_skip:
  assumes "loop_state r A f pre A1 f1" and "kind f T \<noteq> ''complexType''"
  shows "loop_state r A f (pre @ [T]) A1 f1"
  using assms by (auto simp: loop_state_def)

lemma loop_state_start:
  assumes "tree_view A f" and "\<And>T. T \<in> set (n_children (f r)) \<Longrightarrow> kind f T = ''complexType'' \<Longrightarrow> supported f T"
  shows "loop_state r A f [] A f"
  using assms by (auto simp: loop_state_def same_type_refl)

context xsd
begin

lemma runs_types:
  assumes tree: "tree_view A f" and now: "now_is E nodes w A f w"
    and ok: "\<And>T. T \<in> set (n_children (f r)) \<Longrightarrow> kind f T = ''complexType'' \<Longrightarrow> supported f T"
  shows "runs (forM (n_children (f r)) (\<lambda>T. bnd (localname E X T) (\<lambda>name. if name = ''complexType'' then insert_usg_in_complexType E X T else ret ()))) w
     (\<lambda>_ w'. \<exists>A' f'. now_is E nodes w A' f' w' \<and> loop_state r A f (n_children (f r)) A' f')"
proof (rule runs_forM [of "\<lambda>pre w'. \<exists>A' f'. now_is E nodes w A' f' w' \<and> loop_state r A f pre A' f'"])
  show "\<exists>A' f'. now_is E nodes w A' f' w \<and> loop_state r A f [] A' f'"
    using now loop_state_start [OF tree ok] by blast
next
  fix pre T post v
  assume split: "n_children (f r) = pre @ T # post" and "\<exists>A' f'. now_is E nodes w A' f' v \<and> loop_state r A f pre A' f'"
  then obtain A1 f1 where v: "now_is E nodes w A1 f1 v" and st: "loop_state r A f pre A1 f1" by blast
  have wf: "wf_view A f" using tree by (simp add: tree_view_def)
  have tree1: "tree_view A1 f1" and sub: "A \<subseteq> A1" using st by (auto simp: loop_state_def)
  have T: "T \<in> A" "T \<notin> set pre" using split wf_viewD(1,2) [OF wf, of r] by auto
  have tag: "kind f1 T = kind f T" using st T by (auto simp: loop_state_def)
  have view: "x_node E (w_heap v) = f1" using v by (simp add: now_is_def)
  show "runs (bnd (localname E X T) (\<lambda>name. if name = ''complexType'' then insert_usg_in_complexType E X T else ret ())) v
      (\<lambda>_ w'. \<exists>A' f'. now_is E nodes w A' f' w' \<and> loop_state r A f (pre @ [T]) A' f')"
  proof (cases "kind f T = ''complexType''")
    case True
    then have "supported f1 T" using st split T(2) by (auto simp: loop_state_def)
    then have "runs (insert_usg_in_complexType E X T) v (\<lambda>_ w'. \<exists>A' f'. now_is E nodes w A' f' w' \<and> loop_state r A f (pre @ [T]) A' f')"
      using T(1) sub loop_state_step [OF st split wf _ url_plain]
      by (intro runs_insert_usg_in_complexType [OF tree1 v]) blast+
    then show ?thesis using True tag view by (simp add: wp)
  next
    case False
    then show ?thesis using loop_state_skip [OF st False] v tag view by (auto simp: wp)
  qed
qed

end

end
