(* ===== verification/Xsd_Insert.thy ===== *)
theory Xsd_Insert
  imports Xsd_Schema
begin

text \<open>
  \<^verbatim>\<open>insert_children_from_string\<close>: the children of a parsed text are moved, one by one, from the root of
  the text to the front of the children of a node.
\<close>

lemma may_attach_closed:
  assumes "\<And>q. q \<in> S \<Longrightarrow> set (n_children (g q)) \<subseteq> S" and "c \<in> S" and "p \<notin> S"
  shows "may_attach g p c"
  unfolding may_attach_def
proof
  assume "(c, p) \<in> (child_rel g)\<^sup>*"
  then have "p \<in> S" by induction (use assms in \<open>auto simp: child_rel_def\<close>)
  with assms(3) show False by simp
qed

lemma attach_moved:
  assumes wf: "wf_view B g" and c: "n_parent (g c) = Some n" and ne: "r \<noteq> n" "c \<noteq> r" "c \<noteq> n"
  shows "attach r i c g = g(n := (g n)\<lparr>n_children := removeAll c (n_children (g n))\<rparr>,
       r := (g r)\<lparr>n_children := take i (n_children (g r)) @ c # drop i (n_children (g r))\<rparr>, c := (g c)\<lparr>n_parent := Some r\<rparr>)"
proof
  fix q
  have "c \<notin> set (n_children (g q))" if "q \<noteq> n" using wf_viewD(4) [OF wf, of c q] c that by auto
  then show "attach r i c g q = (g(n := (g n)\<lparr>n_children := removeAll c (n_children (g n))\<rparr>,
       r := (g r)\<lparr>n_children := take i (n_children (g r)) @ c # drop i (n_children (g r))\<rparr>, c := (g c)\<lparr>n_parent := Some r\<rparr>)) q"
    using ne by (cases "q = n"; cases "q = r"; cases "q = c") (simp_all add: attach_def detach_def Let_def)
qed

text \<open>New nodes have new children only.\<close>

lemma builds_closed:
  assumes b: "builds A f n u B f0" and wf: "wf_view A f" and q: "q \<in> B - A"
  shows "set (n_children (f0 q)) \<subseteq> B - A"
proof
  fix c
  assume c: "c \<in> set (n_children (f0 q))"
  have wf0: "wf_view B f0" and same: "\<forall>q \<in> A. f0 q = f q" using b by (auto simp: builds_def)
  have par: "n_parent (f0 c) = Some q" using wf_viewD(4) [OF wf0, of c q] c by simp
  have "c \<notin> A"
  proof
    assume "c \<in> A"
    then have "c \<in> set (n_children (f q))" using same par wf_viewD(4) [OF wf, of c q] by simp
    then show False using wf_viewD(3) [OF wf, of q] q by auto
  qed
  then show "c \<in> B - A" using wf_viewD(2) [OF wf0, of q] c by auto
qed

text \<open>The view while the children of the parsed root \<open>n\<close> are moved to the front of the children of \<open>r\<close>;
  \<open>f0\<close> is the view after parsing.\<close>

definition moving :: "'n set \<Rightarrow> 'n view \<Rightarrow> 'n \<Rightarrow> 'n set \<Rightarrow> 'n view \<Rightarrow> 'n \<Rightarrow> 'n list \<Rightarrow> 'n list \<Rightarrow> 'n view \<Rightarrow> bool" where
  "moving A f r B f0 n moved todo g \<longleftrightarrow>
     wf_view B g \<and> A \<subseteq> B \<and> r \<in> A \<and> n \<in> B - A \<and> n_children (g n) = todo \<and> n \<notin> set todo
     \<and> g r = (f r)\<lparr>n_children := moved @ n_children (f r)\<rparr>
     \<and> (\<forall>q \<in> A - {r}. g q = f q) \<and> (\<forall>q \<in> B - A. set (n_children (g q)) \<subseteq> B - A)
     \<and> (\<forall>q \<in> B - A - {n}. same_data (g q) (f0 q))"

lemma moving_step:
  assumes m: "moving A f r B f0 n moved (c # todo) g"
  shows "moving A f r B f0 n (moved @ [c]) todo (attach r (length moved) c g)"
    and "may_attach g r c" and "c \<notin> set (n_children (g r))" and "c \<in> B" and "r \<in> B"
proof -
  have wf: "wf_view B g" and kids: "n_children (g n) = c # todo" and n: "n \<in> B - A" "c \<noteq> n" and r: "r \<in> A" "r \<in> B" "r \<noteq> n"
    and closed: "\<And>q. q \<in> B - A \<Longrightarrow> set (n_children (g q)) \<subseteq> B - A"
    using m by (auto simp: moving_def)
  have c: "c \<in> B - A" "c \<noteq> r" using closed [OF n(1)] kids r by auto
  then show "c \<in> B" "r \<in> B" using r by auto
  have cp: "n_parent (g c) = Some n" using wf_viewD(4) [OF wf, of c n] kids by simp
  show "may_attach g r c" by (rule may_attach_closed [OF closed c(1)]) (use r in auto)
  show "c \<notin> set (n_children (g r))" using wf_viewD(4) [OF wf, of c r] cp r by auto
  have "wf_view B (attach r (length moved) c (detach c g))"
    by (rule wf_attach_root [OF wf_detach [OF wf]]) (use c r in \<open>auto simp: detach_def\<close>)
  then have wf': "wf_view B (attach r (length moved) c g)" by (simp add: attach_detach)
  have "c \<notin> set todo" using wf_viewD(1) [OF wf, of n] kids by simp
  then have view: "attach r (length moved) c g = g(n := (g n)\<lparr>n_children := todo\<rparr>,
       r := (f r)\<lparr>n_children := (moved @ [c]) @ n_children (f r)\<rparr>, c := (g c)\<lparr>n_parent := Some r\<rparr>)" (is "_ = ?g")
    using attach_moved [OF wf cp r(3) c(2) n(2), of "length moved"] kids m by (simp add: moving_def)
  have new: "set (n_children (?g q)) \<subseteq> set (n_children (g q))" if "q \<in> B - A" for q
    using that kids r by (cases "q = n"; cases "q = c") auto
  have "same_data (?g q) (f0 q)" if "q \<in> B - A - {n}" for q
    using that m r by (cases "q = c") (auto simp: moving_def same_data_def)
  moreover have "set (n_children (?g q)) \<subseteq> B - A" if "q \<in> B - A" for q
    using new [OF that] closed [OF that] by blast
  moreover have "?g q = f q" if "q \<in> A - {r}" for q using that m c n by (auto simp: moving_def)
  moreover have "n_children (?g n) = todo" "n \<notin> set todo" "?g r = (f r)\<lparr>n_children := (moved @ [c]) @ n_children (f r)\<rparr>"
    using n c r m by (auto simp: moving_def)
  ultimately show "moving A f r B f0 n (moved @ [c]) todo (attach r (length moved) c g)"
    using m wf' unfolding view by (simp add: moving_def)
qed

lemma moving_start:
  assumes b: "builds A f n (XT t as tx ts) B f0" and wf: "wf_view A f" and r: "r \<in> A"
  shows "moving A f r B f0 n [] (n_children (f0 n)) f0"
proof -
  have wf0: "wf_view B f0" "A \<subseteq> B" "\<forall>q \<in> A. f0 q = f q" "n_parent (f0 n) = None" and n: "n \<in> B - A"
    using b by (auto simp: builds_def)
  have "n \<notin> set (n_children (f0 n))" using wf_viewD(4) [OF wf0(1), of n n] wf0(4) by simp
  then show ?thesis using wf0 n r builds_closed [OF b wf] by (auto simp: moving_def same_data_def)
qed

lemma moving_end:
  assumes m: "moving A f r B f0 n ns [] g" and b: "builds A f n (XT t as tx ts) B f0" and ns: "ns = n_children (f0 n)"
  shows "grows A f r [] ts (n_children (f r)) B g"
proof -
  have "has_trees (B - A - {n}) f0 ns ts" unfolding ns
    by (rule has_trees_without_root) (use b in \<open>auto simp: builds_def\<close>)
  then have "has_trees (B - A) g ns ts"
    by (rule has_tree_cong(2)) (use m in \<open>auto simp: moving_def\<close>)
  then show ?thesis using m by (auto simp: moving_def grows_def)
qed

context etree
begin

lemma runs_move_children:
  assumes m: "moving A f r B f0 n moved todo g" and now: "now_is E nodes w B g w1"
    and Q: "\<And>w' g'. now_is E nodes w B g' w' \<Longrightarrow> moving A f r B f0 n (moved @ todo) [] g' \<Longrightarrow> Q (length (moved @ todo)) w'"
  shows "runs (foldM (\<lambda>index child. seq (xinsert E r index child) (ret (index + 1))) (length moved) todo) w1 Q"
  using m now Q
proof (induction todo arbitrary: moved g w1)
  case Nil
  then show ?case by (simp add: wp)
next
  case (Cons c todo)
  note st = moving_step [OF Cons.prems(1)]
  let ?h = "w_heap w1" and ?g = "attach r (length moved) c g"
  have h: "nodes ?h = B" "x_node E ?h = g" using Cons.prems(2) by (auto simp: now_is_def)
  have "now_is E nodes w B ?g (w1\<lparr>w_heap := x_insert E r (length moved) c ?h\<rparr>)"
    using insert_view [of r ?h c "length moved"] insert_nodes [of r ?h c "length moved"] st h Cons.prems(2)
    by (simp add: now_is_def same_fs_def)
  then have "runs (foldM (\<lambda>index child. seq (xinsert E r index child) (ret (index + 1))) (length (moved @ [c])) todo)
      (w1\<lparr>w_heap := x_insert E r (length moved) c ?h\<rparr>) Q"
    using st(1) Cons.prems(3) by (intro Cons.IH) auto
  then show ?case by (simp add: wp xinsert_def)
qed

lemma runs_insert_children:
  assumes wf: "wf_view A f" and now: "now_is E nodes w A f w1" and r: "r \<in> A"
    and parse: "x_parse E s (w_heap w1) = Inr (n, h)" and b: "builds A f n u (nodes h) (x_node E h)"
    and Q: "\<And>w' B g. now_is E nodes w B g w' \<Longrightarrow> grows A f r [] (xt_children u) (n_children (f r)) B g \<Longrightarrow> Q () w'"
  shows "runs (insert_children_from_string E r s None) w1 Q"
proof -
  obtain t as tx ts where u: "u = XT t as tx ts" by (cases u)
  note b = b [unfolded u]
  let ?w = "w1\<lparr>w_heap := h\<rparr>"
  have fs: "now_is E nodes w (nodes h) (x_node E h) ?w" using now by (simp add: now_is_def same_fs_def)
  have "runs (foldM (\<lambda>index child. seq (xinsert E r index child) (ret (index + 1))) 0 (n_children (x_node E h n))) ?w (\<lambda>_. Q ())"
    using runs_move_children [OF moving_start [OF b wf r] fs, of "\<lambda>_. Q ()"] Q moving_end [OF _ b] u by auto
  moreover have "runs (xfromstring E s) w1 (\<lambda>m v. m = n \<and> v = ?w)" using parse by (simp add: xfromstring_def runs_def)
  ultimately show ?thesis
    by (auto simp: insert_children_from_string_def runs_bnd runs_if runs_ret runs_xchildren elim!: runs_mono)
qed

end

end
