(* ===== verification/Xsd_Doc.thy ===== *)
theory Xsd_Doc
  imports Xsd_Insert
begin

text \<open>
  \<^verbatim>\<open>xsd_plugin_doc.py\<close> as a whole: what a schema looks like afterwards, and that a second run changes
  nothing.  The locale \<open>xsd_doc\<close> adds to the laws of \<open>xsd\<close> what the two texts of the scripts parse to and
  what the two longer queries select.
\<close>

definition xs_url :: string where
  "xs_url = ''http://www.w3.org/2001/XMLSchema''"

abbreviation xs_el :: "string \<Rightarrow> (string \<times> string) list \<Rightarrow> xtree list \<Rightarrow> xtree" where
  "xs_el name as ts \<equiv> XT (''{'' @ xs_url @ ''}'' @ name) as None ts"

definition xs_note :: "string list \<Rightarrow> xtree" where
  "xs_note ls = xs_el ''annotation'' [] [XT (''{'' @ xs_url @ ''}documentation'') [] (Some (join_str nl ls)) []]"

definition usg_tree :: xtree where
  "usg_tree = XT ''dummy_root'' [] None
     [xs_el ''group'' [(''name'', ''universal_starting_group'')]
       [xs_note [[], ''       This group holds content that can appear at the beginning'', ''       of every complex type.'', ''     ''],
        xs_el ''sequence'' [] []]]"

abbreviation optional_attribute :: "string \<Rightarrow> string \<Rightarrow> xtree" where
  "optional_attribute name type \<equiv> xs_el ''attribute'' [(''name'', name), (''type'', type), (''use'', ''optional'')] []"

definition doc_tree :: xtree where
  "doc_tree = XT ''dummy_root'' [] None
     [xs_el ''complexType'' [(''name'', ''documentationType'')]
       [xs_note [[], ''    A '' @ [CHR 0x5C] @ ''texttt{doc} node contains documentation about its parent node.'',
                 ''    The type of the documentation specifies its intended recipients.'', ''   ''],
        xs_el ''simpleContent'' []
          [xs_el ''extension'' [(''base'', ''xs:string'')]
             [optional_attribute ''type'' ''docTypeType'', optional_attribute ''chapter'' ''xs:string'',
              optional_attribute ''priority'' ''xs:nonNegativeInteger'']]],
      xs_el ''simpleType'' [(''name'', ''docTypeType'')]
       [xs_note [[], ''    Supported types of documentation.'', ''   ''],
        xs_el ''restriction'' [(''base'', ''xs:string'')]
          [xs_el ''enumeration'' [(''value'', ''muen-tools'')] [], xs_el ''enumeration'' [(''value'', ''dev'')] []]]]"

definition usg_sequences :: "'n view \<Rightarrow> 'n \<Rightarrow> 'n list" where
  "usg_sequences f r =
     concat (map (\<lambda>G. filter (\<lambda>s. kind f s = ''sequence'') (n_children (f G))) (children_named f r ''group'' ''universal_starting_group''))"

definition usg_docs :: "'n view \<Rightarrow> 'n \<Rightarrow> 'n list" where
  "usg_docs f r = concat (map (\<lambda>s. children_named f s ''element'' ''doc'') (usg_sequences f r))"

abbreviation doc_attribs :: "(string \<times> string) list" where
  "doc_attribs \<equiv> [(''name'', ''doc''), (''type'', ''documentationType''), (''minOccurs'', ''0''), (''maxOccurs'', ''unbounded'')]"

locale xsd_doc = xsd +
  assumes is_xs: "url = xs_url"
    and parse_usg:
      "wf_view (nodes h) (x_node E h) \<Longrightarrow> \<exists>n h'. x_parse E universal_starting_group_definition h = Inr (n, h')
         \<and> builds (nodes h) (x_node E h) n usg_tree (nodes h') (x_node E h')"
    and parse_doc:
      "wf_view (nodes h) (x_node E h) \<Longrightarrow> \<exists>n h'. x_parse E documentationType_definition h = Inr (n, h')
         \<and> builds (nodes h) (x_node E h) n doc_tree (nodes h') (x_node E h')"
    and sequence_law: "x_xpath E h n usg_sequence_query = Inr (usg_sequences (x_node E h) n)"
    and doc_law: "x_xpath E h n usg_doc_query = Inr (usg_docs (x_node E h) n)"
begin

lemma runs_xpath_root:
  "runs (bnd (Ns_Info X r) (\<lambda>ns. bnd (xpath_ns E r q (ns_map ns)) k)) w Q \<longleftrightarrow>
     (\<exists>ns. x_xpath E (w_heap w) r q = Inr ns \<and> runs (k ns) w Q)"
  by (simp add: wp xpath_ns_def Let_def)

lemma runs_usg_defined:
  "runs (universal_starting_group_defined E X r) w Q \<longleftrightarrow>
     Q (children_named (x_node E (w_heap w)) r ''group'' ''universal_starting_group'' \<noteq> []) w"
  using named_law [of "''group''" "''universal_starting_group''" "w_heap w" r]
  unfolding universal_starting_group_defined_def runs_xpath_root usg_query_def named_query_def [symmetric]
  by (simp add: wp named_kinds_def Suc_le_eq)

lemma runs_documentationType_defined:
  "runs (documentationType_defined E X r) w Q \<longleftrightarrow>
     Q (children_named (x_node E (w_heap w)) r ''complexType'' ''documentationType'' \<noteq> []
        \<and> children_named (x_node E (w_heap w)) r ''simpleType'' ''docTypeType'' \<noteq> []) w"
  using named_law [of "''complexType''" "''documentationType''" "w_heap w" r] named_law [of "''simpleType''" "''docTypeType''" "w_heap w" r]
  unfolding documentationType_defined_def by (simp add: wp xpath_ns_def Let_def named_kinds_def Suc_le_eq)

lemma runs_doc_in_usg: "runs (doc_in_universal_starting_group E X r) w Q \<longleftrightarrow> Q (usg_docs (x_node E (w_heap w)) r \<noteq> []) w"
  unfolding doc_in_universal_starting_group_def runs_xpath_root by (simp add: wp doc_law Suc_le_eq)

text \<open>The steps of the script.\<close>

lemma runs_insert_usg:
  assumes tree: "tree_view A f" and now: "now_is E nodes w A f w1" and r: "r \<in> A"
    and ok: "\<And>T. T \<in> set (n_children (f r)) \<Longrightarrow> kind f T = ''complexType'' \<Longrightarrow> supported f T"
    and Q: "\<And>w' A1 f1 B g. loop_state r A f (n_children (f r)) A1 f1 \<Longrightarrow> now_is E nodes w B g w' \<Longrightarrow>
              grows A1 f1 r [] (xt_children usg_tree) (n_children (f1 r)) B g \<Longrightarrow> Q () w'"
  shows "runs (insert_universal_starting_group E X r) w1 Q"
proof -
  have h: "nodes (w_heap w1) = A" "x_node E (w_heap w1) = f" "same_fs w w1" using now by (auto simp: now_is_def)
  have self: "now_is E nodes w1 A f w1" using h by (simp add: now_is_def)
  have ins: "runs (insert_children_from_string E r universal_starting_group_definition None) w2 Q"
    if now2: "now_is E nodes w1 A1 f1 w2" and st: "loop_state r A f (n_children (f r)) A1 f1" for w2 A1 f1
  proof -
    have wf: "wf_view A1 f1" and r1: "r \<in> A1" using st r by (auto simp: loop_state_def tree_view_def)
    have h2: "nodes (w_heap w2) = A1" "x_node E (w_heap w2) = f1" using now2 by (auto simp: now_is_def)
    obtain n h' where p: "x_parse E universal_starting_group_definition (w_heap w2) = Inr (n, h')"
      "builds A1 f1 n usg_tree (nodes h') (x_node E h')"
      using parse_usg [of "w_heap w2"] wf h2 by auto
    have "now_is E nodes w A1 f1 w2" using now2 h(3) by (auto simp: now_is_def intro: same_fs_trans)
    then show ?thesis by (rule runs_insert_children [OF wf _ r1 p]) (rule Q [OF st])
  qed
  show ?thesis
    unfolding insert_universal_starting_group_def runs_bnd [of "xchildren E r"] runs_xchildren h(2) runs_bnd [of "forM xs k" for xs k]
    by (rule runs_mono [OF runs_types [OF tree self ok]]) (auto intro: ins)
qed

lemma runs_insert_doc_types:
  assumes wf: "wf_view A f" and now: "now_is E nodes w A f w1" and r: "r \<in> A"
    and Q: "\<And>w' B g. now_is E nodes w B g w' \<Longrightarrow> grows A f r [] (xt_children doc_tree) (n_children (f r)) B g \<Longrightarrow> Q () w'"
  shows "runs (insert_children_from_string E r documentationType_definition None) w1 Q"
proof -
  have h: "nodes (w_heap w1) = A" "x_node E (w_heap w1) = f" using now by (auto simp: now_is_def)
  obtain n h' where p: "x_parse E documentationType_definition (w_heap w1) = Inr (n, h')" "builds A f n doc_tree (nodes h') (x_node E h')"
    using parse_doc [of "w_heap w1"] wf h by auto
  show ?thesis by (rule runs_insert_children [OF wf now r p]) (rule Q)
qed

lemma runs_insert_doc:
  assumes wf: "wf_view A f" and now: "now_is E nodes w A f w1" and S: "usg_sequences f r = S # Ss" "S \<in> A"
    and Q: "\<And>w' d. d \<notin> A \<Longrightarrow> now_is E nodes w (insert d A) (leaf_at S 0 d (ns_part url (n_tag (f r)) @ ''element'') doc_attribs f) w' \<Longrightarrow> Q () w'"
  shows "runs (insert_doc_in_universal_starting_group E X r) w1 Q"
proof -
  have h: "nodes (w_heap w1) = A" "x_node E (w_heap w1) = f" "same_fs w w1" using now by (auto simp: now_is_def)
  let ?q = "ns_part url (n_tag (f r)) @ ''element''"
  have "runs (create_element_from_dict E ((''qname'', ?q) # doc_attribs)) w1 (\<lambda>d w2. runs (xinsert E S 0 d) w2 Q)"
  proof (rule runs_create_element)
    fix d w2
    assume d: "d \<notin> nodes (w_heap w1)" and "now_is E nodes w1 (insert d (nodes (w_heap w1))) ((x_node E (w_heap w1))(d := new_node ?q doc_attribs)) w2"
    then have now2: "now_is E nodes w (insert d A) (f(d := new_node ?q doc_attribs)) w2"
      using h by (auto simp: now_is_def intro: same_fs_trans)
    show "runs (xinsert E S 0 d) w2 Q"
      by (rule runs_insert_new [OF wf _ S(2) now2]) (use d h Q in auto)
  qed auto
  then show ?thesis
    using S(1) by (simp add: insert_doc_in_universal_starting_group_def runs_bnd runs_Ns_Info xpath_ns_def runs_if runs_xpath runs_first Let_def h sequence_law)
qed

end

subsection \<open>The document afterwards\<close>

lemma lname_xs [simp]: "CHR ''{'' \<notin> set name \<Longrightarrow> lname (CHR ''{'' # xs_url @ CHR ''}'' # name) = name"
proof -
  assume "CHR ''{'' \<notin> set name"
  moreover have "CHR ''}'' \<notin> set xs_url" by (simp add: xs_url_def)
  moreover have "ns_part xs_url ''{'' = ''{'' @ xs_url @ ''}''" by (simp add: ns_part_def)
  ultimately show ?thesis using lname_ns_part(1) [of xs_url name "''{''"] by simp
qed

lemma grows_same: "grows A f r [] ts (n_children (f r)) B g \<Longrightarrow> q \<in> A \<Longrightarrow> n_tag (g q) = n_tag (f q) \<and> n_attrib (g q) = n_attrib (f q)"
  by (cases "q = r") (auto simp: grows_def)

lemma children_named_grows:
  assumes g: "grows A f r [] ts (n_children (f r)) B g" and sub: "set (n_children (f r)) \<subseteq> A"
  obtains ns where "n_children (g r) = ns @ n_children (f r)" and "has_trees (B - A) g ns ts"
    and "\<And>k nm. children_named g r k nm = filter (\<lambda>c. kind g c = k \<and> map_of (n_attrib (g c)) ''name'' = Some nm) ns @ children_named f r k nm"
proof -
  obtain ns where ns: "g r = (f r)\<lparr>n_children := ns @ n_children (f r)\<rparr>" "has_trees (B - A) g ns ts" using g by (auto simp: grows_def)
  have "filter (\<lambda>c. kind g c = k \<and> map_of (n_attrib (g c)) ''name'' = Some nm) (n_children (f r)) = children_named f r k nm" for k nm
    unfolding children_named_def by (rule filter_cong) (use grows_same [OF g] sub in auto)
  then show ?thesis using that [of ns] ns by (simp add: children_named_def)
qed

lemma usg_tree_first:
  assumes "has_trees S g ns (xt_children usg_tree)"
  obtains G N q where "ns = [G]" "kind g G = ''group''" "n_attrib (g G) = [(''name'', ''universal_starting_group'')]"
    "n_children (g G) = [N, q]" "kind g N = ''annotation''" "kind g q = ''sequence''" "n_children (g q) = []" "G \<in> S" "q \<in> S"
  using assms by (auto simp: usg_tree_def xs_note_def)

lemma doc_tree_first:
  assumes "has_trees S g ns (xt_children doc_tree)"
  obtains D D' where "ns = [D, D']" "kind g D = ''complexType''" "n_attrib (g D) = [(''name'', ''documentationType'')]"
    "kind g D' = ''simpleType''" "n_attrib (g D') = [(''name'', ''docTypeType'')]"
  using assms by (auto simp: doc_tree_def xs_note_def)

text \<open>The schema documents itself: every complex type it had has simple or derived content or starts with
  the group, the types of the documentation are defined, and \<^verbatim>\<open>doc\<close> elements are the first thing in the
  group.\<close>

definition documented :: "'n view \<Rightarrow> 'n view \<Rightarrow> 'n \<Rightarrow> bool" where
  "documented f f' r \<longleftrightarrow>
     (\<exists>new. n_children (f' r) = new @ n_children (f r))
     \<and> (\<forall>T \<in> set (n_children (f r)). kind f T = ''complexType'' \<longrightarrow> usg_ready f' T)
     \<and> children_named f' r ''complexType'' ''documentationType'' \<noteq> [] \<and> children_named f' r ''simpleType'' ''docTypeType'' \<noteq> []
     \<and> (\<exists>q d ds. usg_sequences f' r = [q] \<and> n_children (f' q) = d # ds \<and> kind f' d = ''element'' \<and> n_attrib (f' d) = doc_attribs)"

text \<open>The complex types with simple or derived content are what they were, the others have the group.\<close>

definition grouped :: "'n view \<Rightarrow> 'n view \<Rightarrow> 'n \<Rightarrow> bool" where
  "grouped f f' r \<longleftrightarrow>
     (\<forall>T \<in> set (n_children (f r)). kind f T = ''complexType'' \<longrightarrow>
        (if derived_content f T then same_type f f' T else group_first f' T))"

text \<open>After the group was added: a group with an empty sequence in front of the children.\<close>

definition usg_added :: "'n set \<Rightarrow> 'n view \<Rightarrow> 'n \<Rightarrow> 'n set \<Rightarrow> 'n view \<Rightarrow> 'n \<Rightarrow> 'n \<Rightarrow> bool" where
  "usg_added A1 f r A2 f2 G q \<longleftrightarrow>
     n_children (f2 r) = G # n_children (f r) \<and> G \<in> A2 - A1 \<and> q \<in> A2 - A1 \<and> r \<in> A1
     \<and> filter (\<lambda>s. kind f2 s = ''sequence'') (n_children (f2 G)) = [q] \<and> n_children (f2 q) = []
     \<and> set (n_children (f2 G)) \<subseteq> A2
     \<and> children_named f2 r ''group'' ''universal_starting_group'' = [G]
     \<and> (\<forall>k nm. k \<noteq> ''group'' \<longrightarrow> children_named f2 r k nm = children_named f r k nm)"

lemma after_usg:
  assumes wf: "wf_view A f" and r: "r \<in> A" and st: "loop_state r A f (n_children (f r)) A1 f1"
    and g: "grows A1 f1 r [] (xt_children usg_tree) (n_children (f1 r)) A2 f2"
    and plain: "children_named f r ''group'' ''universal_starting_group'' = []"
  obtains G q where "usg_added A1 f r A2 f2 G q"
proof -
  have wf1: "wf_view A1 f1" and kids: "n_children (f1 r) = n_children (f r)" and r1: "r \<in> A1"
    using st r by (auto simp: loop_state_def tree_view_def)
  have same: "children_named f1 r k nm = children_named f r k nm" for k nm
    unfolding children_named_def kids by (rule filter_cong) (use st wf_viewD(2) [OF wf, of r] in \<open>auto simp: loop_state_def\<close>)
  obtain ns where ns: "n_children (f2 r) = ns @ n_children (f1 r)" "has_trees (A2 - A1) f2 ns (xt_children usg_tree)"
    "\<And>k nm. children_named f2 r k nm = filter (\<lambda>c. kind f2 c = k \<and> map_of (n_attrib (f2 c)) ''name'' = Some nm) ns @ children_named f1 r k nm"
    using children_named_grows [OF g wf_viewD(2) [OF wf1]] by blast
  obtain G N q where G: "ns = [G]" "kind f2 G = ''group''" "n_attrib (f2 G) = [(''name'', ''universal_starting_group'')]"
    "n_children (f2 G) = [N, q]" "kind f2 N = ''annotation''" "kind f2 q = ''sequence''" "n_children (f2 q) = []" "G \<in> A2 - A1" "q \<in> A2 - A1"
    using usg_tree_first [OF ns(2)] .
  have "set (n_children (f2 G)) \<subseteq> A2" by (rule wf_viewD(2) [OF adds_wf [OF g]])
  then have "usg_added A1 f r A2 f2 G q" using ns G kids same plain r1 by (simp add: usg_added_def)
  then show ?thesis by (rule that)
qed

lemma after_doc_types:
  assumes u: "usg_added A1 f r A2 f2 G q" and g: "grows A2 f2 r [] (xt_children doc_tree) (n_children (f2 r)) A3 f3"
    and sub: "A1 \<subseteq> A2" and wf2: "wf_view A2 f2"
  shows "children_named f3 r ''group'' ''universal_starting_group'' = [G]" and "filter (\<lambda>s. kind f3 s = ''sequence'') (n_children (f3 G)) = [q]"
    and "n_children (f3 q) = []"
    and "children_named f3 r ''complexType'' ''documentationType'' \<noteq> []" and "children_named f3 r ''simpleType'' ''docTypeType'' \<noteq> []"
    and "\<exists>new. n_children (f3 r) = new @ n_children (f r)"
proof -
  have keep: "\<forall>p \<in> A2 - {r}. f3 p = f2 p" using g by (auto simp: grows_def)
  have ne: "G \<in> A2 - {r}" "q \<in> A2 - {r}" and u': "filter (\<lambda>s. kind f2 s = ''sequence'') (n_children (f2 G)) = [q]" "set (n_children (f2 G)) \<subseteq> A2"
    using u sub by (auto simp: usg_added_def)
  obtain ns where ns: "n_children (f3 r) = ns @ n_children (f2 r)" "has_trees (A3 - A2) f3 ns (xt_children doc_tree)"
    "\<And>k nm. children_named f3 r k nm = filter (\<lambda>c. kind f3 c = k \<and> map_of (n_attrib (f3 c)) ''name'' = Some nm) ns @ children_named f2 r k nm"
    using children_named_grows [OF g wf_viewD(2) [OF wf2]] by blast
  obtain D D' where D: "ns = [D, D']" "kind f3 D = ''complexType''" "n_attrib (f3 D) = [(''name'', ''documentationType'')]"
    "kind f3 D' = ''simpleType''" "n_attrib (f3 D') = [(''name'', ''docTypeType'')]"
    using doc_tree_first [OF ns(2)] .
  show "children_named f3 r ''group'' ''universal_starting_group'' = [G]"
    "children_named f3 r ''complexType'' ''documentationType'' \<noteq> []" "children_named f3 r ''simpleType'' ''docTypeType'' \<noteq> []"
    using ns(3) D u by (simp_all add: usg_added_def)
  show "\<exists>new. n_children (f3 r) = new @ n_children (f r)" using ns(1) u by (intro exI [of _ "ns @ [G]"]) (simp add: usg_added_def)
  show "n_children (f3 q) = []" using keep ne(2) u by (simp add: usg_added_def)
  have "filter (\<lambda>s. kind f3 s = ''sequence'') (n_children (f2 G)) = filter (\<lambda>s. kind f2 s = ''sequence'') (n_children (f2 G))"
    by (rule filter_cong) (use grows_same [OF g] u'(2) in auto)
  then show "filter (\<lambda>s. kind f3 s = ''sequence'') (n_children (f3 G)) = [q]" using keep ne(1) u'(1) by simp
qed

text \<open>The types stay ready: the root gets new children, the rest of the old document does not change.\<close>

lemma type_kept:
  assumes tree: "tree_view A1 f1" and T: "T \<in> set (n_children (f1 r))"
    and keep: "\<And>p. p \<in> A1 \<Longrightarrow> p \<noteq> r \<Longrightarrow> f4 p = f1 p" and root: "n_tag (f4 r) = n_tag (f1 r)" "n_attrib (f4 r) = n_attrib (f1 r)"
  shows "same_type f1 f4 T"
proof -
  have wf: "wf_view A1 f1" and ac: "acyclic (child_rel f1)" using tree by (auto simp: tree_view_def)
  have inA: "q \<in> set (n_children (f1 p)) \<Longrightarrow> q \<in> A1" for p q using wf_viewD(2) [OF wf] by auto
  have e: "(r, T) \<in> child_rel f1" using T by (simp add: child_rel_def)
  have Tr: "T \<noteq> r" using e ac by (auto simp: acyclic_def)
  have cr: "c \<noteq> r" if "c \<in> set (n_children (f1 T))" for c
  proof
    assume "c = r"
    then have "(T, r) \<in> child_rel f1" using that by (simp add: child_rel_def)
    then have "(r, r) \<in> (child_rel f1)\<^sup>+" using e by (meson trancl.simps)
    then show False using ac by (auto simp: acyclic_def)
  qed
  have data: "n_tag (f4 p) = n_tag (f1 p) \<and> n_attrib (f4 p) = n_attrib (f1 p)" if "p \<in> A1" for p
    using keep [OF that] root by (cases "p = r") auto
  show ?thesis
    using keep [OF inA [OF T] Tr] keep cr inA data by (auto simp: same_type_def)
qed

lemma after_doc:
  assumes st: "loop_state r A f (n_children (f r)) A1 f1" and r: "r \<in> A"
    and g2: "grows A1 f1 r [] (xt_children usg_tree) (n_children (f1 r)) A2 f2" and u: "usg_added A1 f r A2 f2 G q"
    and g3: "grows A2 f2 r [] (xt_children doc_tree) (n_children (f2 r)) A3 f3"
    and d: "d \<notin> A3" and url: "CHR ''}'' \<notin> set url" and f4: "f4 = leaf_at q 0 d (ns_part url t @ ''element'') doc_attribs f3"
  shows "documented f f4 r" and "grouped f f4 r"
proof -
  have sub: "A1 \<subseteq> A2" "A2 \<subseteq> A3" and wf2: "wf_view A2 f2" and wf3: "wf_view A3 f3" using g2 g3 by (auto simp: grows_def)
  note a = after_doc_types [OF u g3 sub(1) wf2]
  have G: "G \<in> A2" "q \<in> A2" "r \<in> A1" "q \<notin> A1" "G \<notin> A1" using u by (auto simp: usg_added_def)
  have ne: "d \<noteq> q" "d \<noteq> r" "d \<noteq> G" "q \<noteq> r" "q \<noteq> G"
  proof -
    have "q \<in> set (n_children (f3 G))" using a(2) by (metis filter_is_subset insertI1 list.set(2) subsetD)
    then show "q \<noteq> G" using a(3) by auto
  qed (use d G sub in auto)
  have tags: "n_tag (f4 p) = n_tag (f3 p) \<and> n_attrib (f4 p) = n_attrib (f3 p)" if "p \<in> A3" for p
    using that d by (auto simp: f4 leaf_at_def)
  have kids: "n_children (f4 p) = n_children (f3 p)" if "p \<in> A3" "p \<noteq> q" for p using that d by (auto simp: f4 leaf_at_def)
  have named: "children_named f4 r k nm = children_named f3 r k nm" for k nm
    unfolding children_named_def using kids [of r] tags wf_viewD(2) [OF wf3, of r] ne G sub by (auto intro!: filter_cong)
  have "filter (\<lambda>s. kind f4 s = ''sequence'') (n_children (f4 G)) = [q]"
    unfolding a(2) [symmetric] using kids [of G] tags wf_viewD(2) [OF wf3, of G] ne G sub by (auto intro!: filter_cong)
  then have "usg_sequences f4 r = [q]" by (simp add: usg_sequences_def named a(1))
  moreover have "n_children (f4 q) = [d]" "n_tag (f4 d) = ns_part url t @ ''element''" "n_attrib (f4 d) = doc_attribs"
    using ne a(3) by (simp_all add: f4 leaf_at_def new_node_def)
  moreover have same: "same_type f1 f4 T" if T: "T \<in> set (n_children (f r))" for T
  proof (rule type_kept)
    show "tree_view A1 f1" "T \<in> set (n_children (f1 r))" using st T by (auto simp: loop_state_def)
    fix p assume p: "p \<in> A1" "p \<noteq> r"
    have "p \<noteq> q" "p \<noteq> d" using p G d sub by auto
    then show "f4 p = f1 p" using p sub g2 g3 by (auto simp: f4 leaf_at_def grows_def)
  next
    have "r \<in> A2" "r \<in> A3" using G(3) sub by auto
    then show "n_tag (f4 r) = n_tag (f1 r)" "n_attrib (f4 r) = n_attrib (f1 r)"
      using tags grows_same [OF g3] grows_same [OF g2] G(3) by simp_all
  qed
  moreover have ready: "usg_ready f4 T" if "T \<in> set (n_children (f r))" "kind f T = ''complexType''" for T
    by (rule same_type_ready [OF same [OF that(1)]]) (use st that in \<open>auto simp: loop_state_def\<close>)
  ultimately show "documented f f4 r"
    using a(4-6) kids [of r] ne G sub lname_ns_part(1) [OF url, of "''element''" t] by (auto simp: documented_def named)
  have "derived_content f T" if "T \<in> set (n_children (f r))" "derived_content f4 T" for T
    using st that same_type_derived [OF same [OF that(1)]] by (auto simp: loop_state_def)
  moreover have "same_type f f4 T" if "T \<in> set (n_children (f r))" "derived_content f T" for T
    by (rule same_type_trans [OF _ same [OF that(1)]]) (use st that in \<open>simp add: loop_state_def\<close>)
  ultimately show "grouped f f4 r" using ready by (auto simp: grouped_def usg_ready_iff)
qed

text \<open>The three steps of the script on a schema without the group and the types, followed by \<open>k\<close>.\<close>

context xsd_doc
begin

lemma runs_doc_step:
  assumes v: "now_is E nodes w A3 f3 v" and st: "loop_state r A f (n_children (f r)) A1 f1" and r: "r \<in> A"
    and g2: "grows A1 f1 r [] (xt_children usg_tree) (n_children (f1 r)) A2 f2" and u: "usg_added A1 f r A2 f2 G q"
    and g3: "grows A2 f2 r [] (xt_children doc_tree) (n_children (f2 r)) A3 f3"
    and k: "\<And>v' B g. now_is E nodes w B g v' \<Longrightarrow> documented f g r \<Longrightarrow> grouped f g r \<Longrightarrow> runs k v' Q"
  shows "runs (bnd (doc_in_universal_starting_group E X r)
           (\<lambda>b. seq (if \<not> b then insert_doc_in_universal_starting_group E X r else ret ()) k)) v Q"
proof -
  have sub: "A1 \<subseteq> A2" "A2 \<subseteq> A3" and wf2: "wf_view A2 f2" and wf3: "wf_view A3 f3" using g2 g3 by (auto simp: grows_def)
  note a = after_doc_types [OF u g3 sub(1) wf2]
  have seqs: "usg_sequences f3 r = q # []" and none: "usg_docs f3 r = []"
    using a(1-3) by (simp_all add: usg_sequences_def usg_docs_def children_named_def)
  have q: "q \<in> A3" using u sub by (auto simp: usg_added_def)
  have view: "x_node E (w_heap v) = f3" using v by (simp add: now_is_def)
  have "runs (insert_doc_in_universal_starting_group E X r) v (\<lambda>_ v'. runs k v' Q)"
    by (rule runs_insert_doc [OF wf3 v seqs q]) (rule k, assumption, (rule after_doc [OF st r g2 u g3 _ url_plain refl], assumption)+)
  then show ?thesis using none view by (simp add: runs_bnd runs_doc_in_usg)
qed

lemma runs_types_step:
  assumes v: "now_is E nodes w A2 f2 v" and wf: "wf_view A f" and r: "r \<in> A" and st: "loop_state r A f (n_children (f r)) A1 f1"
    and g2: "grows A1 f1 r [] (xt_children usg_tree) (n_children (f1 r)) A2 f2"
    and plain: "children_named f r ''group'' ''universal_starting_group'' = []" "children_named f r ''complexType'' ''documentationType'' = []"
    and k: "\<And>v' B g. now_is E nodes w B g v' \<Longrightarrow> documented f g r \<Longrightarrow> grouped f g r \<Longrightarrow> runs k v' Q"
  shows "runs (bnd (documentationType_defined E X r)
           (\<lambda>b. seq (if \<not> b then insert_children_from_string E r documentationType_definition None else ret ())
             (bnd (doc_in_universal_starting_group E X r)
               (\<lambda>b. seq (if \<not> b then insert_doc_in_universal_starting_group E X r else ret ()) k)))) v Q"
proof -
  obtain G q where u: "usg_added A1 f r A2 f2 G q" using after_usg [OF wf r st g2 plain(1)] .
  have wf2: "wf_view A2 f2" and r2: "r \<in> A2" using g2 by (auto simp: grows_def)
  have none: "children_named f2 r ''complexType'' ''documentationType'' = []" using u plain(2) by (simp add: usg_added_def)
  have view: "x_node E (w_heap v) = f2" using v by (simp add: now_is_def)
  have "runs (insert_children_from_string E r documentationType_definition None) v (\<lambda>_ v'. runs (bnd (doc_in_universal_starting_group E X r)
      (\<lambda>b. seq (if \<not> b then insert_doc_in_universal_starting_group E X r else ret ()) k)) v' Q)"
    by (rule runs_insert_doc_types [OF wf2 v r2]) (rule runs_doc_step [OF _ st r g2 u _ k])
  then show ?thesis using none view by (simp add: runs_bnd runs_documentationType_defined)
qed

end

end
