(* ===== verification/Xsd_Theorems.thy ===== *)
theory Xsd_Theorems
  imports Xsd_Doc
begin

text \<open>
  The properties of the schema plugin, the instance of its laws on the reference heap, and the
  theorems at a small schema.
\<close>

subsection \<open>An instance of the laws\<close>

fun ref_ancestors :: "nat \<Rightarrow> nat view \<Rightarrow> nat \<Rightarrow> nat list" where
  "ref_ancestors 0 f n = []"
| "ref_ancestors (Suc k) f n = (case n_parent (f n) of None \<Rightarrow> [] | Some p \<Rightarrow> p # ref_ancestors k f p)"

definition position_of :: "'n list \<Rightarrow> 'n \<Rightarrow> nat" where
  "position_of cs c = length (takeWhile (\<lambda>d. d \<noteq> c) cs)"

lemma position_of_append: "c \<notin> set pre \<Longrightarrow> position_of (pre @ c # post) c = length pre"
  by (induction pre) (auto simp: position_of_def)

definition ref_addprevious :: "nat \<Rightarrow> nat \<Rightarrow> rheap \<Rightarrow> pyerr + rheap" where
  "ref_addprevious c n h =
     (case n_parent (r_view h c) of
        None \<Rightarrow> Inl TypeError
      | Some p \<Rightarrow> Inr (ref_map (attach p (position_of (n_children (r_view h p)) c) n) h))"

definition ref_getprevious :: "rheap \<Rightarrow> nat \<Rightarrow> nat option" where
  "ref_getprevious h c =
     (case n_parent (r_view h c) of
        None \<Rightarrow> None
      | Some p \<Rightarrow> (let cs = n_children (r_view h p); i = position_of cs c in if i = 0 then None else Some (cs ! (i - 1))))"

definition ref_xsdops :: "(rheap, nat) xsdops" where
  "ref_xsdops =
     \<lparr>y_prefix = (\<lambda>h n. tag_prefix (n_tag (r_view h n))),
      y_nsmap = (\<lambda>_ _. [(Some ''xs'', xs_url)]),
      y_ancestors = (\<lambda>h n. ref_ancestors (r_next h) (r_view h) n),
      y_rootof = (\<lambda>h n. last (n # ref_ancestors (r_next h) (r_view h) n)),
      y_document = (\<lambda>h n. n_tag (r_view h n)),
      y_addprevious = ref_addprevious,
      y_getprevious = ref_getprevious\<rparr>"

definition xsd_docs :: "(string \<Rightarrow> xtree option) \<Rightarrow> string \<Rightarrow> xtree option" where
  "xsd_docs docs s =
     (if s = universal_starting_group_definition then Some usg_tree
      else if s = documentationType_definition then Some doc_tree else docs s)"

definition xsd_query :: "nat view \<Rightarrow> nat \<Rightarrow> string \<Rightarrow> pyerr + nat list" where
  "xsd_query f n q =
     (if q = restriction_query then Inr (filter (\<lambda>c. kind f c = ''restriction'') (n_children (f n)))
      else if q = usg_sequence_query then Inr (usg_sequences f n)
      else if q = usg_doc_query then Inr (usg_docs f n)
      else case List.find (\<lambda>(k, nm). named_query k nm = q) named_kinds of
             None \<Rightarrow> Inl XMLError | Some (k, nm) \<Rightarrow> Inr (children_named f n k nm))"

abbreviation xsd_lxml :: "(string \<Rightarrow> xtree option) \<Rightarrow> (rheap, nat) lxml" where
  "xsd_lxml docs \<equiv> ref_lxml (xsd_docs docs) xsd_query"

lemma xsd_queries_distinct:
  "distinct (restriction_query # usg_sequence_query # usg_doc_query # map (\<lambda>(k, nm). named_query k nm) named_kinds)"
  by code_simp

lemma xsd_texts_distinct: "universal_starting_group_definition \<noteq> documentationType_definition"
  by code_simp

lemma find_unique: "x \<in> set xs \<Longrightarrow> P x \<Longrightarrow> (\<And>y. y \<in> set xs \<Longrightarrow> P y \<Longrightarrow> y = x) \<Longrightarrow> List.find P xs = Some x"
proof (induction xs)
  case (Cons a xs)
  show ?case
  proof (cases "P a")
    case True
    then show ?thesis using Cons.prems(3) [of a] by simp
  next
    case False
    then have "x \<in> set xs" using Cons.prems(1,2) by auto
    then have "List.find P xs = Some x" by (rule Cons.IH [OF _ Cons.prems(2)]) (rule Cons.prems(3), simp)
    then show ?thesis using False by simp
  qed
qed simp

lemma xsd_query_named:
  assumes "(k, nm) \<in> set named_kinds"
  shows "xsd_query f n (named_query k nm) = Inr (children_named f n k nm)"
proof -
  have "named_query k nm \<notin> {restriction_query, usg_sequence_query, usg_doc_query}"
    using assms xsd_queries_distinct by force
  moreover have inj: "inj_on (\<lambda>(k, nm). named_query k nm) (set named_kinds)"
    using xsd_queries_distinct by (simp add: distinct_map)
  have uniq: "y = (k, nm)" if "y \<in> set named_kinds" "(\<lambda>(k', nm'). named_query k' nm' = named_query k nm) y" for y
    by (rule inj_onD [OF inj _ that(1) assms]) (use that(2) in \<open>cases y, simp\<close>)
  have "List.find (\<lambda>(k', nm'). named_query k' nm' = named_query k nm) named_kinds = Some (k, nm)"
    by (rule find_unique [OF assms _ uniq]) simp_all
  ultimately show ?thesis by (simp add: xsd_query_def)
qed

lemma xsd_query_sequence: "xsd_query f n usg_sequence_query = Inr (usg_sequences f n)"
proof -
  have "usg_sequence_query \<noteq> restriction_query" by code_simp
  then show ?thesis unfolding xsd_query_def by (simp only: if_False if_True refl)
qed

lemma xsd_query_doc: "xsd_query f n usg_doc_query = Inr (usg_docs f n)"
proof -
  have "usg_doc_query \<noteq> restriction_query" "usg_doc_query \<noteq> usg_sequence_query" by code_simp+
  then show ?thesis unfolding xsd_query_def by (simp only: if_False if_True refl)
qed

interpretation ref_xsd: xsd_doc "xsd_lxml docs" ref_nodes ref_xsdops xs_url
proof (unfold_locales, goal_cases)
  case (5 kind name h n)
  then show ?case by (simp add: xsd_query_named) (simp add: ref_lxml_def)
next
  case (6 h c p pre post s)
  then show ?case by (simp add: ref_xsdops_def ref_addprevious_def ref_lxml_def position_of_append)
next
  case (7 h c p pre s post)
  then show ?case
    using position_of_append [of c "pre @ [s]" post] by (simp add: ref_xsdops_def ref_getprevious_def ref_lxml_def nth_append)
next
  case (9 h)
  have "builds (ref_nodes h) (r_view h) (fst (ref_build usg_tree h)) usg_tree (ref_nodes (snd (ref_build usg_tree h))) (r_view (snd (ref_build usg_tree h)))"
    by (rule ref_build_builds(1)) (use 9 in \<open>simp add: ref_lxml_def\<close>)
  then show ?case by (intro exI [of _ "fst (ref_build usg_tree h)"] exI [of _ "snd (ref_build usg_tree h)"]) (simp add: ref_lxml_def xsd_docs_def)
next
  case (10 h)
  have "builds (ref_nodes h) (r_view h) (fst (ref_build doc_tree h)) doc_tree (ref_nodes (snd (ref_build doc_tree h))) (r_view (snd (ref_build doc_tree h)))"
    by (rule ref_build_builds(1)) (use 10 in \<open>simp add: ref_lxml_def\<close>)
  then show ?case using xsd_texts_distinct by (intro exI [of _ "fst (ref_build doc_tree h)"] exI [of _ "snd (ref_build doc_tree h)"]) (simp add: ref_lxml_def xsd_docs_def)
qed (simp_all add: xsd_query_sequence xsd_query_doc ref_lxml_def ref_xsdops_def xs_url_def, simp_all add: xsd_query_def)

subsection \<open>The properties\<close>

text \<open>C30. The insertion into a sequence puts the reference to the group in front of the children, unless it
  is there already, and keeps the document a tree; a second insertion leaves the children alone.\<close>

theorem insert_usg_in_sequence_once:
  assumes "xsd E nodes X url" and "tree_world E nodes w" and "s \<in> nodes (w_heap w)"
    and "\<And>c cs. n_children (x_node E (w_heap w) s) = c # cs \<Longrightarrow> n_tag (x_node E (w_heap w) c) \<noteq> []"
  shows "runs (insert_usg_in_sequence E X s) w (\<lambda>_ w1.
     tree_world E nodes w1 \<and> starts_with_group (x_node E (w_heap w1)) s
     \<and> tl (n_children (x_node E (w_heap w1) s)) = (if starts_with_group (x_node E (w_heap w)) s then tl else id) (n_children (x_node E (w_heap w) s))
     \<and> runs (insert_usg_in_sequence E X s) w1 (\<lambda>_ w2. n_children (x_node E (w_heap w2) s) = n_children (x_node E (w_heap w1) s)))"
proof -
  let ?f = "x_node E (w_heap w)" and ?A = "nodes (w_heap w)"
  have tree: "tree_view ?A ?f" and wf: "wf_view ?A ?f" using assms(2) by (auto simp: tree_world_def tree_view_def)
  have now: "now_is E nodes w ?A ?f w" by (simp add: now_is_def)
  note url = xsd.url_plain [OF assms(1)]
  show ?thesis
  proof (rule xsd.runs_insert_usg_in_sequence [OF assms(1) tree now assms(3) assms(4)])
    fix g w1
    assume g: "g \<notin> ?A" and now1: "now_is E nodes w (insert g ?A) (with_group url s g ?f) w1"
    let ?f1 = "with_group url s g ?f"
    have h1: "x_node E (w_heap w1) = ?f1" "nodes (w_heap w1) = insert g ?A" using now1 by (auto simp: now_is_def)
    have tree1: "tree_view (insert g ?A) ?f1" by (rule tree_with_group [OF tree g assms(3)])
    have ne: "g \<noteq> s" using g assms(3) by auto
    have st: "starts_with_group ?f1 s" by (rule with_group_starts [OF wf g assms(3) url])
    have self: "now_is E nodes w1 (insert g ?A) ?f1 w1" using h1 by (simp add: now_is_def)
    have first: "n_tag (?f1 c) \<noteq> []" if "n_children (?f1 s) = c # cs" for c cs
    proof (cases "starts_with_group ?f s")
      case True
      then have kids: "n_children (?f s) = c # cs" using that with_group_self [OF ne, of url ?f] by simp
      then have "c \<noteq> g" using wf_viewD(2) [OF wf, of s] g by auto
      then show ?thesis using assms(4) [OF kids] True by (simp add: with_group_def)
    next
      case False
      then have "c = g" using that with_group_self [OF ne, of url ?f] by simp
      then show ?thesis using False ne by (simp add: with_group_def leaf_at_def new_node_def)
    qed
    have again: "runs (insert_usg_in_sequence E X s) w1 (\<lambda>_ w2. n_children (x_node E (w_heap w2) s) = n_children (x_node E (w_heap w1) s))"
    proof (rule xsd.runs_insert_usg_in_sequence [OF assms(1) tree1 self _ first])
      fix g2 w2
      assume "g2 \<notin> insert g ?A" and "now_is E nodes w1 (insert g2 (insert g ?A)) (with_group url s g2 ?f1) w2"
      moreover from this have "g2 \<noteq> s" using assms(3) by auto
      ultimately show "n_children (x_node E (w_heap w2) s) = n_children (x_node E (w_heap w1) s)"
        using st h1 with_group_self [of g2 s url ?f1] by (simp add: now_is_def)
    qed (use assms(3) in auto)
    show "tree_world E nodes w1 \<and> starts_with_group (x_node E (w_heap w1)) s
     \<and> tl (n_children (x_node E (w_heap w1) s)) = (if starts_with_group ?f s then tl else id) (n_children (?f s))
     \<and> runs (insert_usg_in_sequence E X s) w1 (\<lambda>_ w2. n_children (x_node E (w_heap w2) s) = n_children (x_node E (w_heap w1) s))"
      using again tree1 st h1 with_group_self [OF ne, of url ?f] by (simp add: tree_world_def)
  qed
qed

text \<open>C6. The insertion into a complex type succeeds on the content models the library supports, changes
  the type as described by \<open>usg_typed\<close>, touches no other part of the document, and leaves the type with
  simple or derived content or with a sequence that starts with the group.\<close>

theorem insert_usg_in_complexType_ready:
  assumes "xsd E nodes X url" and "tree_world E nodes w" and "T \<in> nodes (w_heap w)" and "supported (x_node E (w_heap w)) T"
  shows "runs (insert_usg_in_complexType E X T) w (\<lambda>_ w'.
     usg_typed url (nodes (w_heap w)) (x_node E (w_heap w)) T (nodes (w_heap w')) (x_node E (w_heap w'))
     \<and> tree_world E nodes w' \<and> usg_ready (x_node E (w_heap w')) T
     \<and> touches_only T (nodes (w_heap w)) (x_node E (w_heap w)) (x_node E (w_heap w')))"
proof -
  let ?f = "x_node E (w_heap w)" and ?A = "nodes (w_heap w)"
  have tree: "tree_view ?A ?f" using assms(2) by (simp add: tree_world_def)
  have now: "now_is E nodes w ?A ?f w" by (simp add: now_is_def)
  show ?thesis
  proof (rule xsd.runs_insert_usg_in_complexType [OF assms(1) tree now assms(3,4)])
    fix A' f' w'
    assume t: "usg_typed url ?A ?f T A' f'" and "now_is E nodes w A' f' w'"
    then have "nodes (w_heap w') = A'" "x_node E (w_heap w') = f'" by (auto simp: now_is_def)
    with usg_typed_tree [OF t tree assms(3)] usg_typed_touches [OF t tree assms(3)] usg_typed_ready [OF t tree assms(3) xsd.url_plain [OF assms(1)]] t
    show "usg_typed url ?A ?f T (nodes (w_heap w')) (x_node E (w_heap w')) \<and> tree_world E nodes w' \<and> usg_ready (x_node E (w_heap w')) T
        \<and> touches_only T ?A ?f (x_node E (w_heap w'))"
      by (simp add: tree_world_def)
  qed
qed

text \<open>C5. On a schema without the group and the documentation type, all of whose complex types are
  supported, the script succeeds and writes the schema extended by the group, whose first element is \<^verbatim>\<open>doc\<close>,
  and by the types of the documentation; every complex type of the schema whose content is neither simple nor derived
  (the first child after the annotations is no \<^verbatim>\<open>simpleContent\<close> and no \<^verbatim>\<open>complexContent\<close>) starts with a sequence that
  starts with the group; the others keep their children and grandchildren.\<close>

theorem add_documentation_complete:
  assumes "xsd_doc E nodes X url" and "w_files w inp = Some c" and "x_parse E c (w_heap w) = Inr (r, h)"
    and "tree_view (nodes h) (x_node E h)" and "r \<in> nodes h" and "writable_path w out"
    and "children_named (x_node E h) r ''group'' ''universal_starting_group'' = []"
    and "children_named (x_node E h) r ''complexType'' ''documentationType'' = []"
    and "\<And>T. T \<in> set (n_children (x_node E h r)) \<Longrightarrow> kind (x_node E h) T = ''complexType'' \<Longrightarrow> supported (x_node E h) T"
  shows "runs (add_documentation E X inp out) w (\<lambda>_ w'. documented (x_node E h) (x_node E (w_heap w')) r \<and> grouped (x_node E h) (x_node E (w_heap w')) r
     \<and> w_files w' = (w_files w)(out := Some (y_document X (w_heap w') r)))"
proof -
  let ?f = "x_node E h" and ?A = "nodes h" and ?w1 = "w\<lparr>w_heap := h\<rparr>"
  let ?Q = "\<lambda>_ w'. documented ?f (x_node E (w_heap w')) r \<and> grouped ?f (x_node E (w_heap w')) r \<and> w_files w' = (w_files w)(out := Some (y_document X (w_heap w') r))"
  let ?out = "bnd (heap_get (\<lambda>h. y_document X h r)) (write_file out)"
  note D = assms(1)
  have wf: "wf_view ?A ?f" using assms(4) by (simp add: tree_view_def)
  have now: "now_is E nodes w ?A ?f ?w1" by (simp add: now_is_def same_fs_def)
  have final: "runs ?out v ?Q" if "now_is E nodes w B g v" "documented ?f g r" "grouped ?f g r" for v B g
    using that assms(6) by (simp add: wp now_is_def same_fs_def writable_path_def)
  let ?types = "bnd (documentationType_defined E X r) (\<lambda>b. seq (if \<not> b then insert_children_from_string E r documentationType_definition None else ret ())
      (bnd (doc_in_universal_starting_group E X r) (\<lambda>b. seq (if \<not> b then insert_doc_in_universal_starting_group E X r else ret ()) ?out)))"
  have "runs (insert_universal_starting_group E X r) ?w1 (\<lambda>_ v. runs ?types v ?Q)"
  proof (rule xsd_doc.runs_insert_usg [OF D assms(4) now assms(5) assms(9)])
    fix v A1 f1 A2 f2
    assume "loop_state r ?A ?f (n_children (?f r)) A1 f1" and "now_is E nodes w A2 f2 v"
      and "grows A1 f1 r [] (xt_children usg_tree) (n_children (f1 r)) A2 f2"
    then show "runs ?types v ?Q" using xsd_doc.runs_types_step [OF D _ wf assms(5) _ _ assms(7,8)] final by blast
  qed
  then show ?thesis
    using assms(2,3,7)
    unfolding add_documentation_def runs_bnd [of "xparse E inp"] runs_xparse
    by (auto simp: runs_bnd xsd_doc.runs_usg_defined [OF D])
qed

text \<open>C31. On a schema that documents itself already the script writes the schema as it is.\<close>

theorem add_documentation_stable:
  assumes "xsd_doc E nodes X url" and "w_files w inp = Some c" and "x_parse E c (w_heap w) = Inr (r, h)" and "writable_path w out"
    and "documented f0 (x_node E h) r"
  shows "runs (add_documentation E X inp out) w (\<lambda>_ w'. w_heap w' = h \<and> w_files w' = (w_files w)(out := Some (y_document X h r)))"
proof -
  note D = assms(1)
  let ?f = "x_node E h"
  obtain q d ds where q: "usg_sequences ?f r = [q]" "n_children (?f q) = d # ds" "kind ?f d = ''element''" "n_attrib (?f d) = doc_attribs"
    using assms(5) by (auto simp: documented_def)
  then have "children_named ?f r ''group'' ''universal_starting_group'' \<noteq> []" by (auto simp: usg_sequences_def)
  moreover have "usg_docs ?f r \<noteq> []" using q by (simp add: usg_docs_def children_named_def)
  ultimately show ?thesis
    using assms(2-5)
    by (auto simp: add_documentation_def wp xsd_doc.runs_usg_defined [OF D] xsd_doc.runs_documentationType_defined [OF D] xsd_doc.runs_doc_in_usg [OF D]
        documented_def writable_path_def)
qed

subsection \<open>The properties at small schemas\<close>

lemma acyclic_ordered: "(\<And>p c. c \<in> set (n_children (f p)) \<Longrightarrow> (p :: nat) < c) \<Longrightarrow> acyclic (child_rel f)"
proof -
  assume "\<And>p c. c \<in> set (n_children (f p)) \<Longrightarrow> p < c"
  then have "child_rel f \<subseteq> less_than" by (auto simp: child_rel_def)
  then show ?thesis using wf_less_than by (blast intro: acyclic_subset wf_acyclic)
qed

definition table_ordered :: "nat xnode list \<Rightarrow> bool" where
  "table_ordered tb \<longleftrightarrow> list_all (\<lambda>p. list_all (\<lambda>c. p < c) (n_children (tb ! p))) [0..<length tb]"

lemma tree_table_world:
  assumes "table_ok tb" and "table_ordered tb"
  shows "tree_world (ref_lxml docs xq) ref_nodes (table_world tb)"
proof -
  have "p < c" if "c \<in> set (n_children (table_view tb p))" for p c
    using that assms(2) by (auto simp: table_view_def new_node_def table_ordered_def list_all_iff split: if_splits)
  then show ?thesis
    using table_view_wf [OF assms(1)] acyclic_ordered [of "table_view tb"]
    by (simp add: tree_world_def tree_view_def table_world_def ref_lxml_def ref_nodes_def)
qed

text \<open>A schema that was just parsed is a tree: nodes are allocated from the root downwards.\<close>

lemma ref_build_ordered:
  "(\<And>p c. c \<in> set (n_children (r_view h p)) \<Longrightarrow> p < c) \<Longrightarrow> (\<And>p. r_next h \<le> p \<Longrightarrow> n_children (r_view h p) = []) \<Longrightarrow>
     fst (ref_build u h) = r_next h \<and> r_next h < r_next (snd (ref_build u h))
     \<and> (\<forall>p c. c \<in> set (n_children (r_view (snd (ref_build u h)) p)) \<longrightarrow> p < c)
     \<and> (\<forall>p \<ge> r_next (snd (ref_build u h)). n_children (r_view (snd (ref_build u h)) p) = [])"
  "(\<And>p c. c \<in> set (n_children (r_view h p)) \<Longrightarrow> p < c) \<Longrightarrow> (\<And>p. r_next h \<le> p \<Longrightarrow> n_children (r_view h p) = []) \<Longrightarrow> p0 < r_next h \<Longrightarrow>
     r_next h \<le> r_next (ref_builds p0 us h)
     \<and> (\<forall>p c. c \<in> set (n_children (r_view (ref_builds p0 us h) p)) \<longrightarrow> p < c)
     \<and> (\<forall>p \<ge> r_next (ref_builds p0 us h). n_children (r_view (ref_builds p0 us h) p) = [])"
proof (induction u h and p0 us h rule: ref_build_ref_builds.induct)
  case (1 t as tx ts h)
  let ?n = "fst (ref_new h t as)" and ?h1 = "snd (ref_new h t as)"
  let ?h2 = "ref_map (\<lambda>f. f(?n := (f ?n)\<lparr>n_text := tx\<rparr>)) ?h1"
  have kids: "n_children (r_view ?h2 p) = n_children (r_view h p)" for p
    using 1(3) [of "r_next h"] by (simp add: ref_map_def ref_new_def new_node_def)
  have nxt: "r_next ?h2 = Suc (r_next h)" "?n = r_next h" by (simp_all add: ref_map_def ref_new_def)
  have "r_next ?h2 \<le> r_next (ref_builds ?n ts ?h2)
     \<and> (\<forall>p c. c \<in> set (n_children (r_view (ref_builds ?n ts ?h2) p)) \<longrightarrow> p < c)
     \<and> (\<forall>p \<ge> r_next (ref_builds ?n ts ?h2). n_children (r_view (ref_builds ?n ts ?h2) p) = [])"
    by (rule 1(1) [OF prod.collapse refl]) (use kids nxt 1(2,3) in auto)
  then show ?case using nxt by (simp add: split_def Let_def)
next
  case (3 p t ts h)
  let ?m = "fst (ref_build t h)" and ?h1 = "snd (ref_build t h)"
  let ?h2 = "ref_map (attach_last p ?m) ?h1"
  note b = 3(1) [OF 3(3,4)]
  have ord: "q < c" if "c \<in> set (n_children (r_view ?h2 q))" for q c
    using that b 3(5) by (auto simp: ref_map_def attach_last_def detach_def attach_def split: if_splits option.splits)
  have top: "n_children (r_view ?h2 q) = []" if "r_next ?h2 \<le> q" for q
    using that b 3(5) by (auto simp: ref_map_def attach_last_def detach_def attach_def split: if_splits option.splits)
  have "r_next ?h2 \<le> r_next (ref_builds p ts ?h2)
     \<and> (\<forall>q c. c \<in> set (n_children (r_view (ref_builds p ts ?h2) q)) \<longrightarrow> q < c)
     \<and> (\<forall>q \<ge> r_next (ref_builds p ts ?h2). n_children (r_view (ref_builds p ts ?h2) q) = [])"
    by (rule 3(2) [OF refl prod.collapse]) (use ord top b 3(5) in \<open>auto simp: ref_map_def\<close>)
  then show ?case using b by (simp add: split_def Let_def ref_map_def)
qed auto

abbreviation xs_name :: "string \<Rightarrow> string" where
  "xs_name name \<equiv> ''{'' @ xs_url @ ''}'' @ name"

definition demo_sequence :: "nat xnode list" where
  "demo_sequence = [nd (xs_name ''sequence'') [] [1] None, nd (xs_name ''element'') [(''name'', ''a'')] [] (Some 0)]"

theorem insert_usg_in_sequence_once_witness:
  "runs (insert_usg_in_sequence (xsd_lxml (\<lambda>_. None)) ref_xsdops 0) (table_world demo_sequence) (\<lambda>_ w1.
     tree_world (xsd_lxml (\<lambda>_. None)) ref_nodes w1 \<and> starts_with_group (r_view (w_heap w1)) 0 \<and> tl (n_children (r_view (w_heap w1) 0)) = [1]
     \<and> runs (insert_usg_in_sequence (xsd_lxml (\<lambda>_. None)) ref_xsdops 0) w1 (\<lambda>_ w2. n_children (r_view (w_heap w2) 0) = n_children (r_view (w_heap w1) 0)))"
proof -
  let ?E = "xsd_lxml (\<lambda>_. None)" and ?w = "table_world demo_sequence"
  have tree: "tree_world ?E ref_nodes ?w" by (rule tree_table_world) code_simp+
  have first: "n_tag (x_node ?E (w_heap ?w) c) \<noteq> []" if "n_children (x_node ?E (w_heap ?w) 0) = c # cs" for c cs
    using that by (auto simp: demo_sequence_def table_view_def nd_def)
  have no: "\<not> starts_with_group (x_node ?E (w_heap ?w)) 0"
    by (simp add: starts_with_group_def demo_sequence_def table_view_def nd_def nstr_def group_string_def node_string_def
        tag_prefix_def startswith_def dq_def)
  have view: "x_node ?E = r_view" by (simp add: ref_lxml_def)
  have mem: "0 \<in> ref_nodes (w_heap ?w)" and kids: "n_children (x_node ?E (w_heap ?w) 0) = [1]"
    by (simp_all add: demo_sequence_def table_view_def nd_def)
  show ?thesis
    by (rule runs_mono [OF insert_usg_in_sequence_once [OF ref_xsd.xsd_axioms tree mem first]])
      (use no kids in \<open>simp_all add: view\<close>)
qed

definition demo_type :: "nat xnode list" where
  "demo_type = [nd (xs_name ''complexType'') [(''name'', ''t'')] [1] None, nd (xs_name ''choice'') [] [] (Some 0)]"

theorem insert_usg_in_complexType_ready_witness:
  "runs (insert_usg_in_complexType (xsd_lxml (\<lambda>_. None)) ref_xsdops 0) (table_world demo_type)
     (\<lambda>_ w'. tree_world (xsd_lxml (\<lambda>_. None)) ref_nodes w' \<and> usg_ready (r_view (w_heap w')) 0)"
proof -
  let ?E = "xsd_lxml (\<lambda>_. None)" and ?w = "table_world demo_type"
  have tree: "tree_world ?E ref_nodes ?w" by (rule tree_table_world) code_simp+
  have "supported (table_view demo_type) 0" by code_simp
  then have sup: "supported (x_node ?E (w_heap ?w)) 0" by simp
  have "(0 :: nat) \<in> ref_nodes (w_heap ?w)" by (simp add: demo_type_def)
  then show ?thesis
    by (rule runs_mono [OF insert_usg_in_complexType_ready [OF ref_xsd.xsd_axioms tree _ sup]]) (simp add: ref_lxml_def)
qed

definition demo_schema_world :: "rheap world" where
  "demo_schema_world = (flat_world 0 (\<lambda>_. ([], [])))\<lparr>w_files := [''in.xsd'' \<mapsto> ''<xs:schema/>'']\<rparr>"

abbreviation demo_docs :: "xtree \<Rightarrow> string \<Rightarrow> xtree option" where
  "demo_docs u \<equiv> [''<xs:schema/>'' \<mapsto> u]"

lemma demo_parsed_tree:
  "tree_view (ref_nodes (snd (demo_parsed u))) (r_view (snd (demo_parsed u)))"
  "has_tree (ref_nodes (snd (demo_parsed u))) (r_view (snd (demo_parsed u))) (fst (demo_parsed u)) u"
proof -
  let ?h = "\<lparr>r_next = 0, r_view = (\<lambda>_. new_node [] [])\<rparr>"
  have "acyclic (child_rel (r_view (snd (demo_parsed u))))"
    using ref_build_ordered(1) [of ?h u] by (intro acyclic_ordered) (auto simp: demo_parsed_def new_node_def)
  with demo_parsed_built [of u] show "tree_view (ref_nodes (snd (demo_parsed u))) (r_view (snd (demo_parsed u)))"
    "has_tree (ref_nodes (snd (demo_parsed u))) (r_view (snd (demo_parsed u))) (fst (demo_parsed u)) u"
    by (auto simp: tree_view_def)
qed

lemma demo_parse:
  "x_parse (xsd_lxml (demo_docs u)) ''<xs:schema/>'' (w_heap demo_schema_world) = Inr (fst (demo_parsed u), snd (demo_parsed u))"
proof -
  have "''<xs:schema/>'' \<noteq> universal_starting_group_definition" "''<xs:schema/>'' \<noteq> documentationType_definition"
    by (simp_all add: universal_starting_group_definition_def documentationType_definition_def)
  then show ?thesis
    by (simp add: ref_lxml_def xsd_docs_def demo_parsed_def demo_schema_world_def flat_world_def new_node_def)
qed

lemma demo_world_files:
  "w_files demo_schema_world ''in.xsd'' = Some ''<xs:schema/>''" "writable_path demo_schema_world ''out.xsd''"
proof -
  have "dirname ''out.xsd'' = []" by code_simp
  then show "w_files demo_schema_world ''in.xsd'' = Some ''<xs:schema/>''" "writable_path demo_schema_world ''out.xsd''"
    by (simp_all add: demo_schema_world_def flat_world_def writable_path_def)
qed

definition demo_plain :: xtree where
  "demo_plain = xs_el ''schema'' []
     [xs_el ''complexType'' [(''name'', ''t'')] [xs_el ''choice'' [] []], xs_el ''complexType'' [(''name'', ''u'')] [xs_el ''simpleContent'' [] []]]"

theorem add_documentation_complete_witness:
  "runs (add_documentation (xsd_lxml (demo_docs demo_plain)) ref_xsdops ''in.xsd'' ''out.xsd'') demo_schema_world
     (\<lambda>_ w'. documented (r_view (snd (demo_parsed demo_plain))) (r_view (w_heap w')) (fst (demo_parsed demo_plain))
             \<and> (\<exists>T U. n_children (r_view (snd (demo_parsed demo_plain)) (fst (demo_parsed demo_plain))) = [T, U]
                  \<and> group_first (r_view (w_heap w')) T \<and> n_children (r_view (w_heap w') U) = n_children (r_view (snd (demo_parsed demo_plain)) U))
             \<and> dom (w_files w') = {''in.xsd'', ''out.xsd''})"
proof -
  let ?E = "xsd_lxml (demo_docs demo_plain)" and ?r = "fst (demo_parsed demo_plain)" and ?h = "snd (demo_parsed demo_plain)"
  let ?f = "r_view ?h"
  have E: "x_node ?E ?h = ?f" for E by (simp add: ref_lxml_def)
  obtain T c U d where t: "?r \<in> ref_nodes ?h" "n_children (?f ?r) = [T, U]" "kind ?f T = ''complexType''" "kind ?f U = ''complexType''"
    "n_attrib (?f T) = [(''name'', ''t'')]" "n_children (?f T) = [c]" "kind ?f c = ''choice''"
    "n_attrib (?f U) = [(''name'', ''u'')]" "n_children (?f U) = [d]" "kind ?f d = ''simpleContent''"
    using demo_parsed_tree(2) [of demo_plain] by (auto simp: demo_plain_def)
  then have plain: "children_named ?f ?r ''group'' ''universal_starting_group'' = []"
    "children_named ?f ?r ''complexType'' ''documentationType'' = []" "supported ?f T" "supported ?f U"
    "\<not> derived_content ?f T" "derived_content ?f U"
    by (simp_all add: children_named_def supported_def content_ok_def derived_content_def)
  have "runs (add_documentation ?E ref_xsdops ''in.xsd'' ''out.xsd'') demo_schema_world
      (\<lambda>_ w'. documented (x_node ?E ?h) (x_node ?E (w_heap w')) ?r \<and> grouped (x_node ?E ?h) (x_node ?E (w_heap w')) ?r
        \<and> w_files w' = (w_files demo_schema_world)(''out.xsd'' := Some (y_document ref_xsdops (w_heap w') ?r)))"
    by (rule add_documentation_complete [OF ref_xsd.xsd_doc_axioms demo_world_files(1) demo_parse _ _ demo_world_files(2)])
      (use demo_parsed_tree(1) [of demo_plain] t plain in \<open>auto simp: E\<close>)
  then show ?thesis
  proof (rule runs_mono, elim conjE)
    fix w'
    assume d: "documented (x_node ?E ?h) (x_node ?E (w_heap w')) ?r" and g: "grouped (x_node ?E ?h) (x_node ?E (w_heap w')) ?r"
      and fs: "w_files w' = (w_files demo_schema_world)(''out.xsd'' := Some (y_document ref_xsdops (w_heap w') ?r))"
    have view: "x_node ?E = r_view" by (simp add: ref_lxml_def)
    have "group_first (r_view (w_heap w')) T" "same_type ?f (r_view (w_heap w')) U"
      using g t(2-4) plain(5,6) unfolding view grouped_def by auto
    then show "documented ?f (r_view (w_heap w')) ?r
        \<and> (\<exists>T U. n_children (?f ?r) = [T, U] \<and> group_first (r_view (w_heap w')) T \<and> n_children (r_view (w_heap w') U) = n_children (?f U))
        \<and> dom (w_files w') = {''in.xsd'', ''out.xsd''}"
      using d fs t(2) unfolding view by (auto simp: demo_schema_world_def same_type_def)
  qed
qed

definition demo_ready :: xtree where
  "demo_ready = xs_el ''schema'' []
     [xs_el ''group'' [(''name'', ''universal_starting_group'')] [xs_el ''sequence'' [] [xs_el ''element'' doc_attribs []]],
      xs_el ''complexType'' [(''name'', ''documentationType'')] [], xs_el ''simpleType'' [(''name'', ''docTypeType'')] [],
      xs_el ''complexType'' [(''name'', ''t'')]
        [xs_el ''sequence'' [] [xs_el ''group'' [(''ref'', ''universal_starting_group'')] []]]]"

lemma has_tree_children: "has_tree S f n u \<Longrightarrow> has_trees S f (n_children (f n)) (xt_children u)"
  by (cases u) simp

lemma xs_tree:
  assumes "has_tree S f n (xs_el k as ts)"
  shows "CHR ''{'' \<notin> set k \<Longrightarrow> kind f n = k" and "n_attrib (f n) = as" and "has_trees S f (n_children (f n)) ts"
  using assms by simp_all

theorem add_documentation_stable_witness:
  "runs (add_documentation (xsd_lxml (demo_docs demo_ready)) ref_xsdops ''in.xsd'' ''out.xsd'') demo_schema_world
     (\<lambda>_ w'. w_heap w' = snd (demo_parsed demo_ready) \<and> dom (w_files w') = {''in.xsd'', ''out.xsd''})"
proof -
  let ?E = "xsd_lxml (demo_docs demo_ready)" and ?r = "fst (demo_parsed demo_ready)" and ?h = "snd (demo_parsed demo_ready)"
  let ?f = "r_view ?h"
  have E: "x_node ?E = r_view" by (simp add: ref_lxml_def)
  let ?t = "has_tree (ref_nodes ?h) ?f" and ?ts = "has_trees (ref_nodes ?h) ?f"
  have top: "?ts (n_children (?f ?r)) (xt_children demo_ready)" by (rule has_tree_children [OF demo_parsed_tree(2)])
  obtain G D S T where r: "n_children (?f ?r) = [G, D, S, T]"
    and G: "?t G (xs_el ''group'' [(''name'', ''universal_starting_group'')] [xs_el ''sequence'' [] [xs_el ''element'' doc_attribs []]])"
    and D: "?t D (xs_el ''complexType'' [(''name'', ''documentationType'')] [])" and S: "?t S (xs_el ''simpleType'' [(''name'', ''docTypeType'')] [])"
    and T: "?t T (xs_el ''complexType'' [(''name'', ''t'')] [xs_el ''sequence'' [] [xs_el ''group'' [(''ref'', ''universal_starting_group'')] []]])"
    using top unfolding demo_ready_def xtree.sel has_trees.simps by blast
  note k = xs_tree [OF G] xs_tree [OF D] xs_tree [OF S] xs_tree [OF T]
  obtain q d where q: "n_children (?f G) = [q]" "kind ?f q = ''sequence''" "n_children (?f q) = [d]" "kind ?f d = ''element''" "n_attrib (?f d) = doc_attribs"
    using k(3) by auto
  obtain s g where s: "n_children (?f T) = [s]" "kind ?f s = ''sequence''" "n_children (?f s) = [g]" "nstr (?f g) = group_string (n_tag (?f s))"
    using k(12) by (auto simp: nstr_def group_string_def tag_prefix_def startswith_def)
  have "usg_ready ?f T"
    unfolding usg_ready_def by (rule exI [of _ "[]"], rule exI [of _ s]) (use s in \<open>auto simp: annotations_def starts_with_group_def\<close>)
  then have "documented (?f(?r := (?f ?r)\<lparr>n_children := [T]\<rparr>)) ?f ?r"
    using r q k by (simp add: documented_def children_named_def usg_sequences_def)
  then have "documented (?f(?r := (?f ?r)\<lparr>n_children := [T]\<rparr>)) (x_node ?E ?h) ?r" by (simp add: E)
  then show ?thesis
    by (rule runs_mono [OF add_documentation_stable [OF ref_xsd.xsd_doc_axioms demo_world_files(1) demo_parse demo_world_files(2)]])
      (auto simp: demo_schema_world_def)
qed

end
