(* ===== verification/Spec2Isabelle.thy ===== *)
theory Spec2Isabelle
  imports Compose Doc_Target Doc_Apply Solo5_Channels Linux_Gencspec Smp_Devices Csl_Encode Mulog
    Adjust_Spec Ada_Props Gen_Manifest Xsd_Theorems
begin

text \<open>
  Verification of the Python tooling of the Muen separation kernel.

  \<^bold>\<open>The program.\<close>  Muen is built from a system policy, an XML document.  Ada tools compile the policy
  and generate the configuration of the kernel; Python scripts write, extend or read the documents around
  them.  These scripts are the subject of this development (paths below \<^verbatim>\<open>src/\<close>):

  \<^item> \<^verbatim>\<open>tools/libmupy/muutils.py\<close>: integers as Ada literals \<^verbatim>\<open>16#0000_0000#\<close>, the exchange format of all
    addresses and sizes; called by most of the other scripts.
  \<^item> \<^verbatim>\<open>policy/xml/mirageos/compose.py\<close>: puts a unikernel component into a policy template and connects
    it to the Linux subject with the network card.
  \<^item> \<^verbatim>\<open>tools/scripts/solo5-muen-gencspec.py\<close>, \<^verbatim>\<open>components/linux/misc/linux-muen-gencspec.py\<close>: write
    component specifications for a Solo5 unikernel and for a Linux kernel from their binaries.  The
    specification written by the former is what \<^verbatim>\<open>compose.py\<close> reads.
  \<^item> \<^verbatim>\<open>policy/xml/smp/smpify.py\<close>: extends the demo policy to a Linux subject on several cores.
  \<^item> \<^verbatim>\<open>tools/plugins/documentation/doc_transfer.py\<close>: carries \<^verbatim>\<open>doc\<close> nodes from the joined policy to
    the compiled one.  \<^verbatim>\<open>tools/libmuxml/schema_plugins\<close> (\<^verbatim>\<open>libmuxsdplugin.py\<close>, \<^verbatim>\<open>xsd_plugin_doc.py\<close>)
    extends the XML schemas so that such nodes are allowed.
  \<^item> \<^verbatim>\<open>tools/scripts/mugenmanifest.py\<close>, \<^verbatim>\<open>components/sm/misc/cpu-values.py\<close>,
    \<^verbatim>\<open>components/dbgserver/misc/extract-subject-names.py\<close>, \<^verbatim>\<open>components/sl/misc/adjust-xml-spec.py\<close>:
    read the compiled policy or a specification and write a memory manifest, two Ada packages, and a
    specification without hashes.
  \<^item> \<^verbatim>\<open>tools/scripts/cslencode.py\<close>, \<^verbatim>\<open>mulog.py\<close>, \<^verbatim>\<open>mulog-subject.py\<close>: boot images and kernel logs.

  \<^bold>\<open>How the code is modelled.\<close>  A script is a function from a \<open>world\<close> to a result and a world
  (\<open>Pymonad\<close>).  The world holds the heap of XML documents, what was printed, the files and the
  directories.  A result is \<open>Inr\<close> of a value or \<open>Inl\<close> of an exception (\<open>pyerr\<close>, \<open>Prelude\<close>); the effects
  made before an exception stay, so that partial output is visible.  \<^verbatim>\<open>sys.exit\<close> is an exception as in
  Python.  Strings are \<^typ>\<open>string\<close>, Python integers \<^typ>\<open>int\<close>, dictionaries association lists where their
  order is observable.  \<open>runs m w Q\<close> says that \<open>m\<close> returns normally from \<open>w\<close>, with a value and a world
  that satisfy \<open>Q\<close>; the rules for it are the collection \<open>wp\<close>.

  \<open>lxml\<close> is not part of the repository.  It is a record of operations (\<open>Etree\<close>) that every definition
  takes as its argument \<open>E\<close>, with its documented behaviour as the laws of the locale \<open>etree\<close>: what the
  operations do to the view of the nodes (tag, attributes, text, children, parent), that moving an
  element takes it from its old place, that a parsed or copied document is a new tree.  The lemmas about
  the single operations are proved once in the locale.  \<open>Etree_Ref\<close> has a heap of numbered nodes that
  satisfies the laws (\<open>interpretation ref\<close>); all witnesses run on it.  The answers to XPath queries are
  hypotheses of the properties: the result of a query at the start; or \<open>xpath_law\<close>, which says that
  a path selects the nodes that the walk \<open>xabs\<close> along its steps finds; or, for queries with other tests and steps,
  \<open>answers\<close> (\<open>Queries\<close>), which names the query as a syntax tree and says that the text of this tree is
  answered according to its semantics.  The queries in the code are strings, and a property with such a hypothesis holds
  only if they are the text of the tree it names.  The schema plugins use further operations, of
  namespaces, ancestors and siblings, with the locales \<open>xsd\<close> and \<open>xsd_doc\<close> (\<open>interpretation ref_xsd\<close>).  Other
  foreign code is a parameter in the same way: \<^verbatim>\<open>lief\<close>, which may find no binary in a file, the Solo5 tool and the
  JSON reader (\<open>solo5_env\<close>; a float in a JSON value is its text and the integer it equals, if any), and the Python code in attributes of the SMP policy, which \<^verbatim>\<open>smpify.py\<close> executes (\<open>py_exec\<close>).

  \<^bold>\<open>The theories and what they show.\<close>

  \<^item> \<open>Prelude\<close>, \<open>Pymonad\<close>: values, exceptions, string functions (\<^verbatim>\<open>hex\<close>, \<^verbatim>\<open>int\<close>, \<^verbatim>\<open>split\<close>, \<^verbatim>\<open>strip\<close>, \<^verbatim>\<open>zfill\<close>
    and others), the execution of statements and their rules.
  \<^item> \<open>Muutils\<close> (\<^verbatim>\<open>muutils.py\<close>): the literals of positive numbers read back and have the documented
    form; which literals of other numbers read back, and that the others, zero among them, are rejected.
  \<^item> \<open>Etree\<close>, \<open>Etree_Ref\<close>: documents, the laws, building and copying of trees, paths.  \<open>Queries\<close>: syntax, text and
    semantics of the other queries.
  \<^item> \<open>Compose\<close> (\<^verbatim>\<open>compose.py\<close>): physical channels, mappings and the channels of Linux agree and do not
    overlap; the boot parameters; a failing run changes no file.
  \<^item> \<open>Dep_Graph\<close>, \<open>Doc_Transfer\<close>, \<open>Doc_Deps\<close>, \<open>Doc_Rules\<close>, \<open>Doc_Expansion\<close>, \<open>Doc_Target\<close>, \<open>Doc_Apply\<close>
    (\<^verbatim>\<open>doc_transfer.py\<close>): the worklist search is the transitive closure and ends on cyclic graphs; the map
    from components to subjects refines the transitive closure of \<open>policy_deps\<close>; matching is exact;
    the collected insertions, seen as a map from paths to nodes, hold for a subject exactly the
    documentation of what it depends on; applying them changes nothing else.
  \<^item> \<open>Solo5_Gencspec\<close>, \<open>Solo5_Props\<close>, \<open>Solo5_Channels\<close>: the memory regions cover the segments of the
    binary without overlap; RAM, stack pointer and channels; names and their maximal length; the ABI check;
    the patch of the copied binary.
  \<^item> \<open>Linux_Gencspec\<close>: the regions of kernel and initramfs, and the failure without an initramfs region.
  \<^item> \<open>Smpify\<close>, \<open>Smp_Props\<close>, \<open>Smp_Schedule\<close>, \<open>Smp_Devices\<close>: references and resources agree; every core
    from 2 on has 100 ticks in every major frame, core 1 has 100 besides those of the frames that are left as they are,
    the CPUs of other cores keep theirs; devices are dealt out round-robin.
  \<^item> \<open>Xsd_Plugin\<close> (the two schema scripts), \<open>Xsd_Views\<close>, \<open>Xsd_Props\<close>, \<open>Xsd_Types\<close>, \<open>Xsd_Schema\<close>,
    \<open>Xsd_Insert\<close>, \<open>Xsd_Doc\<close>, \<open>Xsd_Theorems\<close>: the change of a complex type as the relation \<open>usg_typed\<close>,
    preservation of the tree invariant, the loop over all types, moving parsed definitions into the
    schema; a run on a schema of supported types puts the group into every type without simple or derived content
    and adds the definitions, and a run on a schema that documents itself changes nothing.
  \<^item> \<open>Py_Float\<close>, \<open>Gen_Manifest\<close> (\<^verbatim>\<open>mugenmanifest.py\<close>): rows sorted by address, the percentages as Python
    computes and prints them.
  \<^item> \<open>Ada_Packages\<close>, \<open>Ada_Props\<close>: the text of the two packages against printers of their own, and which elements of
    the policy it is about.
  \<^item> \<open>Adjust_Spec\<close>, \<open>Csl_Encode\<close>, \<open>Mulog\<close>: exactly the hashes of the writable regions cleared; the image reads back as the command followed by
    the old commands; the log lines of a message are joined.

  \<^bold>\<open>Loops and fuel.\<close>  All loops over lists are structural.  \<open>reach_loop\<close>, the worklist of
  \<^verbatim>\<open>get_reachable_nodes\<close>, is a \<open>function\<close> with a termination proof (the nodes not yet reached get fewer).
  The rest of the fuel is in functions that are not code of the scripts: \<open>csl_commands\<close>, the reader of
  images (a command takes at least 16 bytes, so the length is enough; more fuel does not change the
  result), and \<open>ref_reify\<close> and \<open>ref_ancestors\<close> of the reference heap, where the fuel is the number of nodes, which no
  path in a tree exceeds (\<open>reify_has_tree\<close>).  The decimal digits of a double are tried up to 17, the
  number that distinguishes all doubles.

  \<^bold>\<open>Not modelled.\<close>  The parsing of command lines by \<^verbatim>\<open>argparse\<close> (the parsed arguments are a record), the
  debug printer \<^verbatim>\<open>print_expansion\<close>, which nothing calls, the three copies of \<^verbatim>\<open>_paths.py\<close>, which only
  extend the import path, and \<^verbatim>\<open>projects/execute\<close>, a wrapper for logging.  The text of a serialised
  document is whatever \<^verbatim>\<open>lxml\<close> makes of it.  Buffering of files is not modelled: a file that is written
  under one name and read under another one is not covered.  The kernel, its components and the policy
  tools are Ada and SPARK code with annotations of their own; makefiles, shell scripts, schemas and
  policies are build glue and data.
\<close>

end
